(* ===== verification/Prelude.thy ===== *)
theory Prelude
  imports Main "HOL-Library.Sublist" "HOL-Library.Multiset"
begin

text \<open>
  The shared ground of the development: the names of the model's basic types, Go's fixed-width
  integer arithmetic, and the generic list and map lemmas that more than one component uses.
  A Go string or byte slice is a list of bytes (\<open>bytes\<close>), a code point is a \<open>rune\<close>, a path is
  the list of its components, and an instant or a duration is a number of nanoseconds.
\<close>

type_synonym bytes = string
type_synonym rune = nat
type_synonym path = "string list"
type_synonym nanos = int

named_theorems fs_simps "equations of the file system model"
named_theorems go_defs "definitions of the Go library functions the code calls"

section \<open>Go's 64-bit integers\<close>

text \<open>
  \<open>int\<close> and \<open>time.Duration\<close> are 64-bit two's complement: results wrap. Division truncates
  towards zero.
\<close>

definition wrap64 :: "int \<Rightarrow> int" where
  "wrap64 x = (x + 2 ^ 63) mod 2 ^ 64 - 2 ^ 63"

definition in_int64 :: "int \<Rightarrow> bool" where
  "in_int64 x \<longleftrightarrow> - (2 ^ 63) \<le> x \<and> x < 2 ^ 63"

definition go_quot :: "int \<Rightarrow> int \<Rightarrow> int" where
  "go_quot a b = (if (a < 0) = (b < 0) then \<bar>a\<bar> div \<bar>b\<bar> else - (\<bar>a\<bar> div \<bar>b\<bar>))"

definition go_rem :: "int \<Rightarrow> int \<Rightarrow> int" where
  "go_rem a b = a - b * go_quot a b"

lemma wrap64_id [simp]: "in_int64 x \<Longrightarrow> wrap64 x = x"
  by (simp add: wrap64_def in_int64_def)

lemma wrap64_range: "in_int64 (wrap64 x)"
proof -
  have "0 \<le> (x + 2 ^ 63) mod 2 ^ 64" and "(x + 2 ^ 63) mod 2 ^ 64 < (2 :: int) ^ 64"
    by simp_all
  then show ?thesis by (simp add: wrap64_def in_int64_def)
qed

lemma wrap64_idem [simp]: "wrap64 (wrap64 x) = wrap64 x"
  by (rule wrap64_id [OF wrap64_range])

lemma go_quot_nonneg [simp]: "0 \<le> a \<Longrightarrow> 0 < b \<Longrightarrow> go_quot a b = a div b"
  by (simp add: go_quot_def)

lemma go_rem_nonneg [simp]: "0 \<le> a \<Longrightarrow> 0 < b \<Longrightarrow> go_rem a b = a mod b"
  by (simp add: go_rem_def minus_mult_div_eq_mod)

section \<open>Lists\<close>

lemma set_dropWhile_subset: "set (dropWhile P xs) \<subseteq> set xs"
  by (induction xs) auto

lemma set_take_mono: "x \<in> set (take n xs) \<Longrightarrow> x \<in> set xs"
  by (rule in_set_takeD)

lemma dropWhile_hd: "dropWhile P xs = y # ys \<Longrightarrow> \<not> P y"
  by (induction xs) (auto split: if_splits)

lemma dropWhile_idem: "dropWhile P (dropWhile P xs) = dropWhile P xs"
  by (induction xs) auto

text \<open>Keeping the first occurrence of every element, the shape of Go's seen-map loops.\<close>

fun dedup :: "'a list \<Rightarrow> 'a list \<Rightarrow> 'a list" where
  "dedup out [] = out"
| "dedup out (x # xs) = (if x \<in> set out then dedup out xs else dedup (out @ [x]) xs)"

lemma set_dedup [simp]: "set (dedup out xs) = set out \<union> set xs"
  by (induction out xs rule: dedup.induct) auto

lemma distinct_dedup: "distinct out \<Longrightarrow> distinct (dedup out xs)"
  by (induction out xs rule: dedup.induct) auto

lemma result_pair: "snd p = b \<Longrightarrow> p = (fst p, b)"
  by (simp add: prod_eq_iff)

lemma result_triple: "snd (snd p) = b \<Longrightarrow> p = (fst p, fst (snd p), b)"
  by (simp add: prod_eq_iff)

section \<open>Maps\<close>

lemma map_add_keep: "b k = None \<Longrightarrow> (a ++ b) k = a k"
  by (simp add: map_add_def)

lemma map_add_take: "b k = Some v \<Longrightarrow> (a ++ b) k = Some v"
  by (simp add: map_add_def)

lemma map_of_map_prod: "map_of (map (map_prod id f) kvs) k = map_option f (map_of kvs k)"
  by (induction kvs) auto

text \<open>Two lists of the same members sort to one list, and as lists of pairs are one map.\<close>

lemma sort_cong_mset: "mset xs = mset ys \<Longrightarrow> sort xs = sort ys"
  by (metis mset_sort properties_for_sort sorted_sort)

lemma map_of_order:
  assumes "distinct (map fst xs)" and "mset xs = mset ys"
  shows "map_of xs = map_of ys"
proof -
  have "mset (map fst xs) = mset (map fst ys)" using assms(2) by simp
  then have "distinct (map fst ys)" using assms(1) mset_eq_imp_distinct_iff by blast
  then show ?thesis by (simp add: map_of_inject_set [OF assms(1)] mset_eq_setD [OF assms(2)])
qed

end
