(* ===== verification/Filesystem.thy ===== *)
theory Filesystem
  imports Prelude "HOL-Library.AList" "HOL-Library.List_Lexorder" "HOL-Library.Char_ord"
begin

text \<open>
  The file system calls of package \<open>os\<close> the service makes. The tree is an association list from
  paths to nodes; the state also holds the clock, and a schedule that says how each successive
  call ends, so a theorem over every schedule covers a full disk, a permission error and a
  power cut at any point. \<open>'d\<close> is the type of the documents whose encoding is abstract: a
  document that was cut short while being written is \<open>Torn\<close> and parses as nothing.
\<close>

section \<open>State\<close>

datatype 'd content = Bytes bytes | Doc 'd | Torn nat

datatype 'd node = Dir nanos | File "'d content" nanos

text \<open>
  How one call ends: as asked, with an error and no effect, with an error after part of the
  bytes were written, or with an error although all of them were.
\<close>

datatype outcome = Works | Fails | FailsTorn nat | FailsLate

record 'd os =
  tree :: "(path \<times> 'd node) list"
  clock :: nanos
  zone :: int
  tick :: nat
  outcomes :: "nat \<Rightarrow> outcome"

definition node_at :: "'d os \<Rightarrow> path \<Rightarrow> 'd node option" where
  "node_at os p = map_of (tree os) p"

fun is_dir_node :: "'d node option \<Rightarrow> bool" where
  "is_dir_node (Some (Dir m)) = True"
| "is_dir_node _ = False"

fun is_file_node :: "'d node option \<Rightarrow> bool" where
  "is_file_node (Some (File c m)) = True"
| "is_file_node _ = False"

definition is_dir :: "'d os \<Rightarrow> path \<Rightarrow> bool" where
  "is_dir os p = is_dir_node (node_at os p)"

definition is_file :: "'d os \<Rightarrow> path \<Rightarrow> bool" where
  "is_file os p = is_file_node (node_at os p)"

fun content_of :: "'d node option \<Rightarrow> 'd content option" where
  "content_of (Some (File c m)) = Some c"
| "content_of _ = None"

definition file_at :: "'d os \<Rightarrow> path \<Rightarrow> 'd content option" where
  "file_at os p = content_of (node_at os p)"

text \<open>The size \<open>Stat\<close> reports; no caller asks for it of a document.\<close>

fun content_size :: "'d content \<Rightarrow> nat" where
  "content_size (Bytes b) = length b"
| "content_size (Doc d) = 2"
| "content_size (Torn n) = n"

fun node_mtime :: "'d node \<Rightarrow> nanos" where
  "node_mtime (Dir m) = m"
| "node_mtime (File c m) = m"

fun torn :: "nat \<Rightarrow> 'd content \<Rightarrow> 'd content" where
  "torn n (Bytes b) = Bytes (take n b)"
| "torn n (Doc d) = Torn n"
| "torn n (Torn m) = Torn (min n m)"

section \<open>Changes to the tree\<close>

definition parent :: "path \<Rightarrow> path" where
  "parent p = butlast p"

definition touch :: "nanos \<Rightarrow> path \<Rightarrow> (path \<times> 'd node) list \<Rightarrow> (path \<times> 'd node) list" where
  "touch now p t = (if is_dir_node (map_of t p) then AList.update p (Dir now) t else t)"

definition put_file :: "'d os \<Rightarrow> path \<Rightarrow> 'd content \<Rightarrow> 'd os" where
  "put_file os p c =
     os\<lparr>tree := AList.update p (File c (clock os))
          (if node_at os p = None then touch (clock os) (parent p) (tree os) else tree os)\<rparr>"

definition del_tree :: "path \<Rightarrow> (path \<times> 'd node) list \<Rightarrow> (path \<times> 'd node) list" where
  "del_tree p t = filter (\<lambda>e. \<not> prefix p (fst e)) t"

definition move_tree :: "path \<Rightarrow> path \<Rightarrow> (path \<times> 'd node) list \<Rightarrow> (path \<times> 'd node) list" where
  "move_tree src dst t =
     map (\<lambda>(q, n). (if prefix src q then dst @ drop (length src) q else q, n)) t"

section \<open>Calls\<close>

definition syscall :: "'d os \<Rightarrow> outcome \<times> 'd os" where
  "syscall os = (outcomes os (tick os), os\<lparr>tick := Suc (tick os)\<rparr>)"

definition writable :: "'d os \<Rightarrow> path \<Rightarrow> bool" where
  "writable os p \<longleftrightarrow> p \<noteq> [] \<and> is_dir os (parent p) \<and> \<not> is_dir os p"

text \<open>\<open>os.WriteFile\<close>: creates or truncates the file, then writes.\<close>

definition os_write :: "'d os \<Rightarrow> path \<Rightarrow> 'd content \<Rightarrow> 'd os \<times> bool" where
  "os_write os p c =
     (let (r, os') = syscall os in
      if \<not> writable os' p then (os', False)
      else (case r of
              Works \<Rightarrow> (put_file os' p c, True)
            | Fails \<Rightarrow> (os', False)
            | FailsTorn n \<Rightarrow> (put_file os' p (torn n c), False)
            | FailsLate \<Rightarrow> (put_file os' p c, False)))"

text \<open>\<open>os.MkdirAll\<close>.\<close>

fun mkdirs :: "nanos \<Rightarrow> path list \<Rightarrow> (path \<times> 'd node) list \<Rightarrow> (path \<times> 'd node) list" where
  "mkdirs now [] t = t"
| "mkdirs now (p # ps) t =
     mkdirs now ps
       (if map_of t p = None then AList.update p (Dir now) (touch now (parent p) t) else t)"

definition os_mkdir_all :: "'d os \<Rightarrow> path \<Rightarrow> 'd os \<times> bool" where
  "os_mkdir_all os p =
     (let (r, os') = syscall os in
      if list_ex (is_file os') (prefixes p) then (os', False)
      else (case r of
              Works \<Rightarrow> (os'\<lparr>tree := mkdirs (clock os') (prefixes p) (tree os')\<rparr>, True)
            | _ \<Rightarrow> (os', False)))"

text \<open>
  \<open>os.Rename\<close>: Go refuses a destination that is a directory, even an empty one; a file may
  replace a file.
\<close>

definition can_rename :: "'d os \<Rightarrow> path \<Rightarrow> path \<Rightarrow> bool" where
  "can_rename os src dst \<longleftrightarrow>
     node_at os src \<noteq> None \<and> \<not> is_dir os dst \<and> dst \<noteq> [] \<and> is_dir os (parent dst)
     \<and> \<not> strict_prefix src dst \<and> \<not> (is_dir os src \<and> is_file os dst)"

definition os_rename :: "'d os \<Rightarrow> path \<Rightarrow> path \<Rightarrow> 'd os \<times> bool" where
  "os_rename os src dst =
     (let (r, os') = syscall os in
      if \<not> can_rename os' src dst \<or> r \<noteq> Works then (os', False)
      else if src = dst then (os', True)
      else (os'\<lparr>tree := touch (clock os') (parent dst) (touch (clock os') (parent src)
                         (move_tree src dst (del_tree dst (tree os'))))\<rparr>, True))"

text \<open>\<open>os.RemoveAll\<close>: nothing there is not an error.\<close>

definition os_remove_all :: "'d os \<Rightarrow> path \<Rightarrow> 'd os \<times> bool" where
  "os_remove_all os p =
     (let (r, os') = syscall os in
      if r \<noteq> Works then (os', False)
      else (os'\<lparr>tree := (if node_at os' p = None then del_tree p (tree os')
                           else touch (clock os') (parent p) (del_tree p (tree os')))\<rparr>, True))"

definition children :: "'d os \<Rightarrow> path \<Rightarrow> path list" where
  "children os p = filter (\<lambda>q. q \<noteq> [] \<and> parent q = p) (remdups (map fst (tree os)))"

text \<open>\<open>os.Remove\<close>: one file, or an empty directory.\<close>

definition os_remove :: "'d os \<Rightarrow> path \<Rightarrow> 'd os \<times> bool" where
  "os_remove os p =
     (let (r, os') = syscall os in
      if r \<noteq> Works \<or> node_at os' p = None \<or> children os' p \<noteq> [] then (os', False)
      else (os'\<lparr>tree := touch (clock os') (parent p) (del_tree p (tree os'))\<rparr>, True))"

definition os_read :: "'d os \<Rightarrow> path \<Rightarrow> 'd os \<times> 'd content option" where
  "os_read os p =
     (let (r, os') = syscall os in (os', if r = Works then file_at os' p else None))"

text \<open>\<open>os.ReadDir\<close>: the entries of a directory sorted by name, each with its kind.\<close>

definition dir_entries :: "'d os \<Rightarrow> path \<Rightarrow> (string \<times> bool) list" where
  "dir_entries os p = map (\<lambda>n. (n, is_dir os (p @ [n]))) (sort (map last (children os p)))"

definition os_read_dir :: "'d os \<Rightarrow> path \<Rightarrow> 'd os \<times> (string \<times> bool) list option" where
  "os_read_dir os p =
     (let (r, os') = syscall os
      in (os', if r = Works \<and> is_dir os' p then Some (dir_entries os' p) else None))"

text \<open>\<open>os.Stat\<close>: size and modification time.\<close>

fun node_size :: "'d node \<Rightarrow> nat" where
  "node_size (Dir m) = 0"
| "node_size (File c m) = content_size c"

definition os_stat :: "'d os \<Rightarrow> path \<Rightarrow> 'd os \<times> (nat \<times> nanos) option" where
  "os_stat os p =
     (let (r, os') = syscall os
      in (os', if r = Works then map_option (\<lambda>n. (node_size n, node_mtime n)) (node_at os' p)
               else None))"

section \<open>Effect on lookups\<close>

lemma update_lookup [simp]: "map_of (AList.update k v t) = (map_of t)(k \<mapsto> v)"
  by (rule update_conv')

lemma touch_lookup:
  "map_of (touch now p t) q = (if q = p \<and> is_dir_node (map_of t p) then Some (Dir now) else map_of t q)"
  by (simp add: touch_def)

lemma touch_content [simp]: "content_of (map_of (touch now p t) q) = content_of (map_of t q)"
  by (cases "map_of t p" rule: is_dir_node.cases) (auto simp: touch_lookup)

lemma touch_is_dir [simp]: "is_dir_node (map_of (touch now p t) q) = is_dir_node (map_of t q)"
  by (auto simp: touch_lookup)

lemma touch_is_file [simp]: "is_file_node (map_of (touch now p t) q) = is_file_node (map_of t q)"
  by (cases "map_of t p" rule: is_dir_node.cases) (auto simp: touch_lookup)

lemma touch_None [simp]: "map_of (touch now p t) q = None \<longleftrightarrow> map_of t q = None"
  by (cases "map_of t p" rule: is_dir_node.cases) (auto simp: touch_lookup)

lemma del_tree_lookup: "map_of (del_tree p t) q = (if prefix p q then None else map_of t q)"
  by (induction t) (auto simp: del_tree_def)

lemma move_tree_lookup:
  assumes "\<forall>e \<in> set t. \<not> prefix dst (fst e)" and "\<not> prefix src dst"
  shows "map_of (move_tree src dst t) q =
    (if prefix dst q then map_of t (src @ drop (length dst) q)
     else if prefix src q then None else map_of t q)"
  using assms
proof (induction t)
  case (Cons e t)
  obtain k n where e: "e = (k, n)" by fastforce
  have IH: "map_of (move_tree src dst t) q =
    (if prefix dst q then map_of t (src @ drop (length dst) q)
     else if prefix src q then None else map_of t q)" using Cons by simp
  show ?case
  proof (cases "prefix src k")
    case True
    then obtain r where k: "k = src @ r" by (auto simp: prefix_def)
    show ?thesis using Cons.prems IH
      by (auto simp: e k move_tree_def prefix_def)
  next
    case False
    then have "k \<noteq> src @ r" for r by (auto simp: prefix_def)
    then show ?thesis using Cons.prems IH False by (auto simp: e move_tree_def)
  qed
qed (simp add: move_tree_def)

text \<open>What each call does to the files and directories, for every way the call can end.\<close>

lemma file_at_syscall [simp]: "file_at (snd (syscall os)) p = file_at os p"
  by (simp add: syscall_def file_at_def node_at_def)

lemma node_at_tick [simp]: "node_at (os\<lparr>tick := n\<rparr>) p = node_at os p"
  by (simp add: node_at_def)

lemma node_at_tree [simp]: "node_at (os\<lparr>tree := t\<rparr>) p = map_of t p"
  by (simp add: node_at_def)

lemma views_tick [simp]:
  "is_dir (os\<lparr>tick := n\<rparr>) p = is_dir os p" "is_file (os\<lparr>tick := n\<rparr>) p = is_file os p"
  "file_at (os\<lparr>tick := n\<rparr>) p = file_at os p" "writable (os\<lparr>tick := n\<rparr>) p = writable os p"
  "can_rename (os\<lparr>tick := n\<rparr>) p q = can_rename os p q"
  "put_file (os\<lparr>tick := n\<rparr>) p c = (put_file os p c)\<lparr>tick := n\<rparr>"
  "children (os\<lparr>tick := n\<rparr>) p = children os p"
  by (simp_all add: is_dir_def is_file_def file_at_def writable_def can_rename_def put_file_def
      children_def)

lemma put_file_at: "file_at (put_file os p c) q = (if q = p then Some c else file_at os q)"
  by (auto simp: put_file_def file_at_def node_at_def)

lemma put_file_is_dir: "\<not> is_dir os p \<Longrightarrow> is_dir (put_file os p c) q = is_dir os q"
  by (auto simp: put_file_def is_dir_def node_at_def)

lemma os_write_ok:
  assumes "os_write os p c = (os', True)"
  shows "file_at os' q = (if q = p then Some c else file_at os q)" and "is_dir os' q = is_dir os q"
  using assms
  by (auto simp: os_write_def syscall_def put_file_at put_file_is_dir writable_def Let_def
      split: if_splits outcome.splits)

lemma os_write_other: "q \<noteq> p \<Longrightarrow> file_at (fst (os_write os p c)) q = file_at os q"
  by (auto simp: os_write_def syscall_def put_file_at Let_def split: outcome.splits)

lemma os_write_dirs: "is_dir (fst (os_write os p c)) q = is_dir os q"
  by (auto simp: os_write_def syscall_def put_file_is_dir writable_def Let_def split: outcome.splits)

lemma os_rename_failed: "\<not> snd (os_rename os src dst) \<Longrightarrow> tree (fst (os_rename os src dst)) = tree os"
  by (auto simp: os_rename_def syscall_def Let_def split: if_splits)

lemma os_rename_ok:
  assumes "os_rename os src dst = (os', True)" and "src \<noteq> dst" and "\<not> prefix dst src"
  shows "file_at os' q =
      (if prefix dst q then file_at os (src @ drop (length dst) q)
       else if prefix src q then None else file_at os q)"
    and "is_dir os' q =
      (if prefix dst q then is_dir os (src @ drop (length dst) q)
       else if prefix src q then False else is_dir os q)"
    and "can_rename os src dst"
proof -
  have c: "can_rename os src dst"
    and os': "os' = os\<lparr>tick := Suc (tick os),
      tree := touch (clock os) (parent dst) (touch (clock os) (parent src)
                (move_tree src dst (del_tree dst (tree os))))\<rparr>"
    using assms by (auto simp: os_rename_def syscall_def Let_def split: if_splits)
  have np: "\<not> prefix src dst" using c assms(2) by (auto simp: can_rename_def strict_prefix_def)
  have nd: "\<not> prefix dst (src @ r) \<or> prefix src dst" for r
    using assms(3) by (auto simp: prefix_append dest: prefix_order.antisym)
  have mv: "map_of (move_tree src dst (del_tree dst (tree os))) q =
    (if prefix dst q then map_of (tree os) (src @ drop (length dst) q)
     else if prefix src q then None else map_of (tree os) q)"
    using move_tree_lookup [of "del_tree dst (tree os)" dst src q] np nd
    by (auto simp: del_tree_lookup) (auto simp: del_tree_def)
  show "can_rename os src dst" by (rule c)
  show "file_at os' q = (if prefix dst q then file_at os (src @ drop (length dst) q)
       else if prefix src q then None else file_at os q)"
    using mv by (simp add: os' file_at_def node_at_def)
  show "is_dir os' q = (if prefix dst q then is_dir os (src @ drop (length dst) q)
       else if prefix src q then False else is_dir os q)"
    using mv by (simp add: os' is_dir_def node_at_def)
qed

lemma os_remove_all_ok:
  assumes "os_remove_all os p = (os', True)"
  shows "file_at os' q = (if prefix p q then None else file_at os q)"
    and "is_dir os' q = (is_dir os q \<and> \<not> prefix p q)"
  using assms
  by (auto simp: os_remove_all_def syscall_def Let_def file_at_def is_dir_def node_at_def
      del_tree_lookup split: if_splits)

lemma os_remove_all_node:
  assumes "os_remove_all os p = (os', True)" and "q \<noteq> parent p"
  shows "node_at os' q = (if prefix p q then None else node_at os q)"
  using assms
  by (auto simp: os_remove_all_def syscall_def Let_def node_at_def del_tree_lookup touch_lookup
      split: if_splits)

lemma os_remove_all_frame [simp]:
  "clock (fst (os_remove_all os p)) = clock os"
  "outcomes (fst (os_remove_all os p)) = outcomes os"
  by (auto simp: os_remove_all_def syscall_def Let_def)

lemma os_remove_all_works: "outcomes os (tick os) = Works \<Longrightarrow> snd (os_remove_all os p)"
  by (simp add: os_remove_all_def syscall_def Let_def)

lemma os_stat_works:
  "outcomes os (tick os) = Works \<Longrightarrow>
     snd (os_stat os p) = map_option (\<lambda>n. (node_size n, node_mtime n)) (node_at os p)"
  by (simp add: os_stat_def syscall_def Let_def)

lemma os_stat_frame [simp]:
  "clock (fst (os_stat os p)) = clock os" "outcomes (fst (os_stat os p)) = outcomes os"
  by (simp_all add: os_stat_def syscall_def Let_def)

lemma os_read_frame [simp]:
  "clock (fst (os_read os p)) = clock os" "outcomes (fst (os_read os p)) = outcomes os"
  by (simp_all add: os_read_def syscall_def Let_def)

lemma os_read_dir_frame [simp]:
  "clock (fst (os_read_dir os p)) = clock os" "outcomes (fst (os_read_dir os p)) = outcomes os"
  by (simp_all add: os_read_dir_def syscall_def Let_def)

lemma os_read_dir_works:
  "outcomes os (tick os) = Works \<Longrightarrow> is_dir os p \<Longrightarrow>
     snd (os_read_dir os p) = Some (dir_entries os p)"
  by (simp add: os_read_dir_def syscall_def Let_def dir_entries_def)

text \<open>The entries of a directory are the nodes one component below it, each listed once.\<close>

lemma children_iff: "q \<in> set (children os p) \<longleftrightarrow> (\<exists>n. q = p @ [n] \<and> node_at os q \<noteq> None)"
proof -
  have "q \<noteq> [] \<and> butlast q = p \<longleftrightarrow> (\<exists>n. q = p @ [n])" by (cases q rule: rev_cases) auto
  then show ?thesis by (auto simp: children_def parent_def node_at_def map_of_eq_None_iff)
qed

lemma dir_entries_iff:
  "(n, d) \<in> set (dir_entries os p) \<longleftrightarrow> node_at os (p @ [n]) \<noteq> None \<and> d = is_dir os (p @ [n])"
proof -
  have "n \<in> last ` set (children os p) \<longleftrightarrow> node_at os (p @ [n]) \<noteq> None"
    by (force simp: children_iff image_iff)
  then show ?thesis by (auto simp: dir_entries_def)
qed

lemma dir_entries_distinct: "distinct (map fst (dir_entries os p))"
proof -
  have "inj_on last (set (children os p))" by (auto simp: inj_on_def children_iff)
  moreover have "distinct (children os p)" by (simp add: children_def)
  ultimately show ?thesis by (simp add: dir_entries_def comp_def distinct_map)
qed

lemma os_remove_all_failed:
  "\<not> snd (os_remove_all os p) \<Longrightarrow> tree (fst (os_remove_all os p)) = tree os"
  by (auto simp: os_remove_all_def syscall_def Let_def split: if_splits)

lemma os_read_tree [simp]: "tree (fst (os_read os p)) = tree os"
  by (simp add: os_read_def syscall_def Let_def)

lemma os_stat_tree [simp]: "tree (fst (os_stat os p)) = tree os"
  by (simp add: os_stat_def syscall_def Let_def)

lemma os_read_dir_tree [simp]: "tree (fst (os_read_dir os p)) = tree os"
  by (simp add: os_read_dir_def syscall_def Let_def)

lemma views_tree:
  "tree os' = tree os \<Longrightarrow> file_at os' p = file_at os p"
  "tree os' = tree os \<Longrightarrow> is_dir os' p = is_dir os p"
  "tree os' = tree os \<Longrightarrow> node_at os' p = node_at os p"
  by (simp_all add: file_at_def is_dir_def node_at_def)

lemma os_read_Some: "snd (os_read os p) = Some c \<Longrightarrow> file_at os p = Some c"
  by (auto simp: os_read_def syscall_def Let_def split: if_splits)

end
