(* ===== verification/Go_Strings.thy ===== *)
theory Go_Strings
  imports Prelude
begin

text \<open>
  The part of Go's \<open>strings\<close>, \<open>strconv\<close> and \<open>unicode/utf8\<close> packages the program calls, on
  byte strings. Ranging over a string decodes UTF-8 with Go's rule for malformed input: one
  byte becomes one replacement rune.
\<close>

section \<open>Bytes and decimal numbers\<close>

definition byte :: "char \<Rightarrow> nat" where
  "byte c = of_char c"

definition chr :: "nat \<Rightarrow> char" where
  "chr n = char_of n"

lemma byte_lt [simp]: "byte c < 256"
  using of_char_mod_256 [of c, where 'a = nat] mod_less_divisor [of 256 "of_char c :: nat"]
  by (simp add: byte_def)

lemma chr_byte [simp]: "chr (byte c) = c"
  by (simp add: byte_def chr_def)

lemma byte_chr: "byte (chr n) = n mod 256"
  by (simp add: byte_def chr_def)

lemma byte_chr_small [simp]: "n < 256 \<Longrightarrow> byte (chr n) = n"
  by (simp add: byte_chr)

lemma byte_inj: "byte a = byte b \<Longrightarrow> a = b"
  by (metis chr_byte)

definition is_digit :: "char \<Rightarrow> bool" where
  "is_digit c \<longleftrightarrow> 48 \<le> byte c \<and> byte c \<le> 57"

fun dec :: "nat \<Rightarrow> string" where
  "dec n = (if n < 10 then [chr (48 + n)] else dec (n div 10) @ [chr (48 + n mod 10)])"

declare dec.simps [simp del]

text \<open>\<open>strconv.Itoa\<close>, and the \<open>%d\<close> verb.\<close>

definition itoa :: "int \<Rightarrow> string" where
  "itoa n = (if n < 0 then CHR ''-'' # dec (nat (- n)) else dec (nat n))"

text \<open>The \<open>%0wd\<close> verb: zeros between the sign and the digits up to the width.\<close>

definition pad_left :: "nat \<Rightarrow> string \<Rightarrow> string" where
  "pad_left w s = replicate (w - length s) (CHR ''0'') @ s"

definition fmt_0d :: "nat \<Rightarrow> int \<Rightarrow> string" where
  "fmt_0d w n =
     (if n < 0 then CHR ''-'' # pad_left (w - 1) (dec (nat (- n))) else pad_left w (dec (nat n)))"

fun undec :: "nat \<Rightarrow> string \<Rightarrow> nat option" where
  "undec acc [] = Some acc"
| "undec acc (c # cs) = (if is_digit c then undec (10 * acc + (byte c - 48)) cs else None)"

definition parse_nat :: "string \<Rightarrow> nat option" where
  "parse_nat s = (if s = [] then None else undec 0 s)"

text \<open>\<open>strconv.Atoi\<close>: an optional sign, then digits only; out of the 64-bit range is an error.\<close>

definition atoi :: "string \<Rightarrow> int option" where
  "atoi s =
     (case s of
        [] \<Rightarrow> None
      | c # cs \<Rightarrow>
          (case (if c = CHR ''-'' \<or> c = CHR ''+'' then parse_nat cs else parse_nat s) of
             None \<Rightarrow> None
           | Some n \<Rightarrow>
               (let v = (if c = CHR ''-'' then - int n else int n)
                in if in_int64 v then Some v else None)))"

lemma dec_nonempty [simp]: "dec n \<noteq> []"
  by (subst dec.simps) simp

lemma digit_chr: "d < 10 \<Longrightarrow> is_digit (chr (48 + d))"
  by (simp add: is_digit_def)

lemma dec_digits: "c \<in> set (dec n) \<Longrightarrow> is_digit c"
proof (induction n rule: dec.induct)
  case (1 n)
  then show ?case
    by (cases "n < 10") (auto simp: dec.simps [of n] digit_chr)
qed

lemma undec_append:
  "undec a (xs @ ys) = (case undec a xs of None \<Rightarrow> None | Some b \<Rightarrow> undec b ys)"
  by (induction a xs rule: undec.induct) auto

lemma undec_dec: "undec 0 (dec n) = Some n"
proof (induction n rule: dec.induct)
  case (1 n)
  show ?case
  proof (cases "n < 10")
    case True
    then show ?thesis by (simp add: dec.simps [of n] digit_chr)
  next
    case False
    have "10 * (n div 10) + n mod 10 = n" by simp
    moreover have "n mod 10 < 10" by simp
    ultimately show ?thesis
      using False 1 by (simp add: dec.simps [of n] undec_append digit_chr)
  qed
qed

lemma parse_nat_dec [simp]: "parse_nat (dec n) = Some n"
  by (simp add: parse_nat_def undec_dec)

lemma dec_inj: "dec m = dec n \<Longrightarrow> m = n"
  by (metis option.inject undec_dec)

lemma digit_not_sign: "is_digit c \<Longrightarrow> c \<noteq> CHR ''-'' \<and> c \<noteq> CHR ''+''"
  by (auto simp: is_digit_def byte_def)

lemma dec_Cons: "\<exists>c cs. dec n = c # cs \<and> is_digit c"
  using dec_digits [of "hd (dec n)" n] by (cases "dec n") auto

text \<open>Printing a 64-bit integer and reading it back.\<close>

lemma atoi_itoa: "in_int64 n \<Longrightarrow> atoi (itoa n) = Some n"
proof (cases "n < 0")
  case True
  assume "in_int64 n"
  with True show ?thesis by (simp add: atoi_def itoa_def Let_def)
next
  case False
  assume n: "in_int64 n"
  obtain c cs where c: "dec (nat n) = c # cs" and d: "is_digit c"
    using dec_Cons by blast
  have "parse_nat (c # cs) = Some (nat n)" by (simp flip: c)
  with False n c digit_not_sign [OF d] show ?thesis by (simp add: atoi_def itoa_def Let_def)
qed

lemma undec_pad: "undec 0 (replicate k (CHR ''0'') @ s) = undec 0 s"
proof (induction k)
  case (Suc k)
  have "is_digit (CHR ''0'')" and "byte (CHR ''0'') = 48" by (simp_all add: is_digit_def byte_def)
  with Suc show ?case by simp
qed simp

lemma fmt_0d_inj:
  assumes "fmt_0d w (int m) = fmt_0d w (int n)"
  shows "m = n"
proof -
  have "undec 0 (pad_left w (dec m)) = undec 0 (pad_left w (dec n))"
    using assms by (simp add: fmt_0d_def)
  then show ?thesis by (simp add: pad_left_def undec_pad undec_dec)
qed

lemma fmt_0d_digits: "c \<in> set (fmt_0d w (int n)) \<Longrightarrow> is_digit c"
  by (auto simp: fmt_0d_def pad_left_def is_digit_def byte_def split: if_splits
      dest: dec_digits [unfolded is_digit_def byte_def])

section \<open>UTF-8\<close>

definition rune_error :: rune where
  "rune_error = 0xFFFD"

definition cont_byte :: "char \<Rightarrow> bool" where
  "cont_byte c \<longleftrightarrow> 0x80 \<le> byte c \<and> byte c \<le> 0xBF"

text \<open>
  \<open>utf8.DecodeRuneInString\<close> on a non-empty string: the rune and its width. The bounds on the
  second byte exclude overlong forms, surrogates and values past 0x10FFFF.
\<close>

definition second_low :: "nat \<Rightarrow> nat" where
  "second_low b = (if b = 0xE0 then 0xA0 else if b = 0xF0 then 0x90 else 0x80)"

definition second_high :: "nat \<Rightarrow> nat" where
  "second_high b = (if b = 0xED then 0x9F else if b = 0xF4 then 0x8F else 0xBF)"

definition second_ok :: "nat \<Rightarrow> char \<Rightarrow> bool" where
  "second_ok b c \<longleftrightarrow> second_low b \<le> byte c \<and> byte c \<le> second_high b"

fun decode_rune :: "string \<Rightarrow> rune \<times> nat" where
  "decode_rune [] = (rune_error, 0)"
| "decode_rune (c # r) =
     (let b = byte c in
      if b < 0x80 then (b, 1)
      else if 0xC2 \<le> b \<and> b \<le> 0xDF then
        (case r of
           c1 # _ \<Rightarrow> if cont_byte c1 then ((b - 0xC0) * 64 + (byte c1 - 0x80), 2)
                     else (rune_error, 1)
         | _ \<Rightarrow> (rune_error, 1))
      else if 0xE0 \<le> b \<and> b \<le> 0xEF then
        (case r of
           c1 # c2 # _ \<Rightarrow>
             if second_ok b c1 \<and> cont_byte c2
             then ((b - 0xE0) * 4096 + (byte c1 - 0x80) * 64 + (byte c2 - 0x80), 3)
             else (rune_error, 1)
         | _ \<Rightarrow> (rune_error, 1))
      else if 0xF0 \<le> b \<and> b \<le> 0xF4 then
        (case r of
           c1 # c2 # c3 # _ \<Rightarrow>
             if second_ok b c1 \<and> cont_byte c2 \<and> cont_byte c3
             then ((b - 0xF0) * 262144 + (byte c1 - 0x80) * 4096
                   + (byte c2 - 0x80) * 64 + (byte c3 - 0x80), 4)
             else (rune_error, 1)
         | _ \<Rightarrow> (rune_error, 1))
      else (rune_error, 1))"

declare decode_rune.simps [simp del]

text \<open>A string as its runes, each with the bytes it was read from.\<close>

fun decode :: "string \<Rightarrow> (rune \<times> string) list" where
  "decode [] = []"
| "decode (c # cs) =
     (let (r, w) = decode_rune (c # cs)
      in (r, c # take (w - 1) cs) # decode (drop (w - 1) cs))"

definition runes :: "string \<Rightarrow> rune list" where
  "runes s = map fst (decode s)"

definition valid_rune :: "rune \<Rightarrow> bool" where
  "valid_rune r \<longleftrightarrow> r < 0xD800 \<or> (0xDFFF < r \<and> r \<le> 0x10FFFF)"

text \<open>\<open>utf8.AppendRune\<close>: an invalid rune is written as the replacement character.\<close>

definition encode_valid :: "rune \<Rightarrow> string" where
  "encode_valid r =
     (if r < 0x80 then [chr r]
      else if r < 0x800 then [chr (0xC0 + r div 64), chr (0x80 + r mod 64)]
      else if r < 0x10000 then
        [chr (0xE0 + r div 4096), chr (0x80 + r div 64 mod 64), chr (0x80 + r mod 64)]
      else
        [chr (0xF0 + r div 262144), chr (0x80 + r div 4096 mod 64),
         chr (0x80 + r div 64 mod 64), chr (0x80 + r mod 64)])"

definition encode_rune :: "rune \<Rightarrow> string" where
  "encode_rune r = encode_valid (if valid_rune r then r else rune_error)"

text \<open>\<open>string(runes)\<close>.\<close>

definition encode :: "rune list \<Rightarrow> string" where
  "encode rs = concat (map encode_rune rs)"

lemma decode_bytes: "concat (map snd (decode s)) = s"
  by (induction s rule: decode.induct)
    (auto simp: Let_def split: prod.splits)

lemma decode_ascii:
  assumes "\<forall>c \<in> set s. byte c < 0x80"
  shows "decode s = map (\<lambda>c. (byte c, [c])) s"
  using assms by (induction s) (auto simp: decode_rune.simps Let_def)

lemma runes_ascii: "\<forall>c \<in> set s. byte c < 0x80 \<Longrightarrow> runes s = map byte s"
  by (simp add: runes_def decode_ascii)

lemma encode_Nil [simp]: "encode [] = []"
  by (simp add: encode_def)

lemma encode_Cons [simp]: "encode (r # rs) = encode_rune r @ encode rs"
  by (simp add: encode_def)

lemma encode_append [simp]: "encode (xs @ ys) = encode xs @ encode ys"
  by (simp add: encode_def)

lemma encode_rune_ascii [simp]: "r < 0x80 \<Longrightarrow> encode_rune r = [chr r]"
  by (simp add: encode_rune_def encode_valid_def valid_rune_def)

lemma encode_ascii: "\<forall>r \<in> set rs. r < 0x80 \<Longrightarrow> encode rs = map chr rs"
  by (induction rs) auto

text \<open>A number in k lower-case hexadecimal digits.\<close>

definition hex_lower :: "nat \<Rightarrow> char" where
  "hex_lower d = (if d < 10 then chr (48 + d) else chr (87 + d))"

fun hex_digits :: "nat \<Rightarrow> nat \<Rightarrow> string" where
  "hex_digits 0 n = []"
| "hex_digits (Suc k) n = hex_digits k (n div 16) @ [hex_lower (n mod 16)]"

text \<open>Encoding and decoding are inverse on valid runes.\<close>

lemma decode_rune_encode:
  assumes "valid_rune r"
  shows "decode_rune (encode_valid r @ t) = (r, length (encode_valid r))"
proof -
  consider (one) "r < 0x80" | (two) "0x80 \<le> r" "r < 0x800" | (three) "0x800 \<le> r" "r < 0x10000"
    | (four) "0x10000 \<le> r" by linarith
  then show ?thesis
  proof cases
    case one
    then show ?thesis by (simp add: encode_valid_def decode_rune.simps Let_def)
  next
    case two
    define q where "q = r div 64"
    define m where "m = r mod 64"
    have r: "r = q * 64 + m" and m: "m < 64" by (simp_all add: q_def m_def)
    have "2 \<le> q" and "q < 32" using two r m by linarith+
    with m have "decode_rune (chr (0xC0 + q) # chr (0x80 + m) # t) = (q * 64 + m, 2)"
      by (simp add: cont_byte_def Let_def decode_rune.simps)
    then have "decode_rune ([chr (0xC0 + q), chr (0x80 + m)] @ t) = (r, 2)"
      by (simp flip: r)
    moreover have "encode_valid r = [chr (0xC0 + q), chr (0x80 + m)]"
      using two by (simp add: encode_valid_def q_def m_def)
    ultimately show ?thesis by simp
  next
    case three
    define q where "q = r div 4096"
    define p where "p = r div 64 mod 64"
    define m where "m = r mod 64"
    have pm: "p < 64" "m < 64" by (simp_all add: p_def m_def)
    have "r div 64 = r div 64 div 64 * 64 + p" unfolding p_def by simp
    then have r: "r = q * 4096 + p * 64 + m"
      using div_mult_mod_eq [of r 64] by (simp add: q_def m_def div_mult2_eq [symmetric])
    have q: "q < 16" using three r pm by linarith
    have sec: "second_ok (0xE0 + q) (chr (0x80 + p))"
      using three r pm q assms
      by (auto simp: second_ok_def second_low_def second_high_def valid_rune_def)
    with pm q have "decode_rune (chr (0xE0 + q) # chr (0x80 + p) # chr (0x80 + m) # t)
        = (q * 4096 + p * 64 + m, 3)"
      by (simp add: cont_byte_def Let_def decode_rune.simps)
    then have "decode_rune ([chr (0xE0 + q), chr (0x80 + p), chr (0x80 + m)] @ t) = (r, 3)"
      by (simp flip: r)
    moreover have "encode_valid r = [chr (0xE0 + q), chr (0x80 + p), chr (0x80 + m)]"
      using three by (simp add: encode_valid_def q_def p_def m_def)
    ultimately show ?thesis by simp
  next
    case four
    define q where "q = r div 262144"
    define o1 where "o1 = r div 4096 mod 64"
    define p where "p = r div 64 mod 64"
    define m where "m = r mod 64"
    have pm: "o1 < 64" "p < 64" "m < 64" by (simp_all add: o1_def p_def m_def)
    have "r div 4096 = r div 4096 div 64 * 64 + o1" unfolding o1_def by simp
    then have a: "r div 4096 = q * 64 + o1" by (simp add: q_def div_mult2_eq [symmetric])
    have "r div 64 = r div 64 div 64 * 64 + p" unfolding p_def by simp
    then have "r div 64 = r div 4096 * 64 + p" by (simp add: div_mult2_eq [symmetric])
    then have r: "r = q * 262144 + o1 * 4096 + p * 64 + m"
      using div_mult_mod_eq [of r 64] a by (simp add: m_def)
    have rb: "r \<le> 0x10FFFF" using four assms by (auto simp: valid_rune_def)
    have q: "q < 5" using rb r by linarith
    have sec: "second_ok (0xF0 + q) (chr (0x80 + o1))"
      using four r rb pm q
      by (auto simp: second_ok_def second_low_def second_high_def)
    with pm q have "decode_rune (chr (0xF0 + q) # chr (0x80 + o1) # chr (0x80 + p)
          # chr (0x80 + m) # t) = (q * 262144 + o1 * 4096 + p * 64 + m, 4)"
      by (simp add: cont_byte_def Let_def decode_rune.simps)
    then have "decode_rune ([chr (0xF0 + q), chr (0x80 + o1), chr (0x80 + p), chr (0x80 + m)] @ t)
        = (r, 4)"
      by (simp flip: r)
    moreover have "encode_valid r
        = [chr (0xF0 + q), chr (0x80 + o1), chr (0x80 + p), chr (0x80 + m)]"
      using four by (simp add: encode_valid_def q_def o1_def p_def m_def)
    ultimately show ?thesis by simp
  qed
qed

lemma encode_rune_valid: "valid_rune r \<Longrightarrow> encode_rune r = encode_valid r"
  by (simp add: encode_rune_def)

lemma encode_valid_Cons: "\<exists>c cs. encode_valid r = c # cs"
  by (simp add: encode_valid_def)

lemma decode_encode_Cons:
  assumes "valid_rune r"
  shows "decode (encode_rune r @ t) = (r, encode_rune r) # decode t"
proof -
  obtain c cs where e: "encode_valid r = c # cs" using encode_valid_Cons by blast
  have "decode_rune (c # cs @ t) = (r, Suc (length cs))"
    using decode_rune_encode [OF assms, of t] e by simp
  then show ?thesis
    by (simp add: encode_rune_valid [OF assms] e)
qed

lemma runes_encode: "\<forall>r \<in> set rs. valid_rune r \<Longrightarrow> runes (encode rs) = rs"
  by (induction rs) (simp_all add: runes_def decode_encode_Cons)

section \<open>Searching, splitting and joining\<close>

definition has_prefix :: "string \<Rightarrow> string \<Rightarrow> bool" where
  "has_prefix s p \<longleftrightarrow> take (length p) s = p"

definition has_suffix :: "string \<Rightarrow> string \<Rightarrow> bool" where
  "has_suffix s p \<longleftrightarrow> length p \<le> length s \<and> drop (length s - length p) s = p"

text \<open>\<open>strings.Index\<close>, with None for -1.\<close>

fun index_of :: "string \<Rightarrow> string \<Rightarrow> nat option" where
  "index_of [] p = (if p = [] then Some 0 else None)"
| "index_of (c # cs) p =
     (if has_prefix (c # cs) p then Some 0 else map_option Suc (index_of cs p))"

definition contains :: "string \<Rightarrow> string \<Rightarrow> bool" where
  "contains s p \<longleftrightarrow> index_of s p \<noteq> None"

text \<open>\<open>strings.Split\<close> at a one-byte separator, and \<open>strings.Join\<close>.\<close>

fun split_on :: "char \<Rightarrow> string \<Rightarrow> string list" where
  "split_on c [] = [[]]"
| "split_on c (x # xs) =
     (if x = c then [] # split_on c xs
      else (case split_on c xs of [] \<Rightarrow> [[x]] | y # ys \<Rightarrow> (x # y) # ys))"

fun join :: "string \<Rightarrow> string list \<Rightarrow> string" where
  "join sep [] = []"
| "join sep [x] = x"
| "join sep (x # xs) = x @ sep @ join sep xs"

lemma has_prefix_iff: "has_prefix s p \<longleftrightarrow> (\<exists>t. s = p @ t)"
  by (metis append_eq_conv_conj append_take_drop_id has_prefix_def)

lemma has_prefix_append [simp]: "has_prefix (p @ t) p"
  by (auto simp: has_prefix_iff)

lemma has_suffix_iff: "has_suffix s p \<longleftrightarrow> (\<exists>t. s = t @ p)"
proof
  assume "has_suffix s p"
  then show "\<exists>t. s = t @ p"
    by (metis append_take_drop_id has_suffix_def)
qed (auto simp: has_suffix_def)

lemma has_suffix_append [simp]: "has_suffix (t @ p) p"
  by (auto simp: has_suffix_iff)

lemma index_of_Some: "index_of s p = Some i \<Longrightarrow> \<exists>t. s = take i s @ p @ t \<and> i \<le> length s"
proof (induction s arbitrary: i)
  case (Cons c cs)
  show ?case
  proof (cases "has_prefix (c # cs) p")
    case True
    with Cons.prems show ?thesis by (auto simp: has_prefix_iff)
  next
    case False
    with Cons.prems obtain j where "index_of cs p = Some j" and "i = Suc j" by auto
    with Cons.IH show ?thesis by fastforce
  qed
qed (auto split: if_splits)

lemma index_of_None: "index_of s p = None \<Longrightarrow> s \<noteq> a @ p @ b"
proof (induction s arbitrary: a)
  case (Cons c cs)
  then show ?case by (cases a) (auto split: if_splits)
qed (auto split: if_splits)

lemma contains_iff: "contains s p \<longleftrightarrow> (\<exists>a b. s = a @ p @ b)"
proof
  assume "contains s p"
  then obtain i where "index_of s p = Some i" by (auto simp: contains_def)
  then show "\<exists>a b. s = a @ p @ b" using index_of_Some by blast
next
  assume "\<exists>a b. s = a @ p @ b"
  then show "contains s p" using index_of_None [of s p] unfolding contains_def by blast
qed

lemma split_on_nonempty [simp]: "split_on c xs \<noteq> []"
  by (induction xs) (auto split: list.splits)

lemma join_Cons: "xs \<noteq> [] \<Longrightarrow> join sep (x # xs) = x @ sep @ join sep xs"
  by (cases xs) auto

lemma join_split: "join [c] (split_on c xs) = xs"
proof (induction xs)
  case (Cons x xs)
  obtain y ys where s: "split_on c xs = y # ys" by (cases "split_on c xs") auto
  show ?case
  proof (cases ys)
    case Nil
    with Cons s show ?thesis by (auto simp: join_Cons)
  next
    case (Cons z zs)
    with \<open>join [c] (split_on c xs) = xs\<close> s show ?thesis by auto
  qed
qed simp

lemma split_on_no_sep: "y \<in> set (split_on c xs) \<Longrightarrow> c \<notin> set y"
proof (induction xs arbitrary: y)
  case (Cons x xs)
  then show ?case by (cases "split_on c xs") (auto split: if_splits)
qed simp

lemma set_join_subset: "set (join sep xs) \<subseteq> set sep \<union> \<Union> (set ` set xs)"
  by (induction sep xs rule: join.induct) auto

section \<open>Trimming and white space\<close>

text \<open>\<open>unicode.IsSpace\<close>.\<close>

definition is_space :: "rune \<Rightarrow> bool" where
  "is_space r \<longleftrightarrow>
     (9 \<le> r \<and> r \<le> 13) \<or> r = 32 \<or> r = 0x85 \<or> r = 0xA0 \<or> r = 0x1680 \<or> (0x2000 \<le> r \<and> r \<le> 0x200A)
     \<or> r = 0x2028 \<or> r = 0x2029 \<or> r = 0x202F \<or> r = 0x205F \<or> r = 0x3000"

definition trim_runes :: "(rune \<times> string) list \<Rightarrow> (rune \<times> string) list" where
  "trim_runes ps =
     rev (dropWhile (is_space \<circ> fst) (rev (dropWhile (is_space \<circ> fst) ps)))"

text \<open>\<open>strings.TrimSpace\<close>: white-space runes go from both ends, every other byte stays.\<close>

definition trim_space :: "string \<Rightarrow> string" where
  "trim_space s = concat (map snd (trim_runes (decode s)))"

text \<open>\<open>strings.TrimRight\<close> and \<open>strings.TrimLeft\<close> with an ASCII cut set.\<close>

definition trim_right :: "string \<Rightarrow> string \<Rightarrow> string" where
  "trim_right s cs = rev (dropWhile (\<lambda>c. c \<in> set cs) (rev s))"

definition trim_left :: "string \<Rightarrow> string \<Rightarrow> string" where
  "trim_left s cs = dropWhile (\<lambda>c. c \<in> set cs) s"

text \<open>\<open>strings.Fields\<close>.\<close>

fun fields_aux :: "(rune \<times> string) list \<Rightarrow> string \<Rightarrow> string list" where
  "fields_aux [] cur = (if cur = [] then [] else [cur])"
| "fields_aux ((r, b) # ps) cur =
     (if is_space r then (if cur = [] then fields_aux ps [] else cur # fields_aux ps [])
      else fields_aux ps (cur @ b))"

definition fields :: "string \<Rightarrow> string list" where
  "fields s = fields_aux (decode s) []"

lemma trim_runes_subset: "set (trim_runes ps) \<subseteq> set ps"
  unfolding trim_runes_def by (auto dest!: set_dropWhileD)

lemma trim_space_subset: "set (trim_space s) \<subseteq> set s"
proof
  fix c
  assume "c \<in> set (trim_space s)"
  then obtain p where "p \<in> set (decode s)" and "c \<in> set (snd p)"
    using trim_runes_subset [of "decode s"] by (auto simp: trim_space_def)
  then have "c \<in> set (concat (map snd (decode s)))" by auto
  then show "c \<in> set s" by (simp add: decode_bytes)
qed

lemma trim_space_Nil [simp]: "trim_space [] = []"
  by (simp add: trim_space_def trim_runes_def)

lemma trim_right_subset: "set (trim_right s cs) \<subseteq> set s"
  unfolding trim_right_def using set_dropWhile_subset [of _ "rev s"] by auto

lemma trim_left_subset: "set (trim_left s cs) \<subseteq> set s"
  unfolding trim_left_def by (rule set_dropWhile_subset)

section \<open>Case\<close>

text \<open>
  \<open>strings.ToLower\<close>; the case table of the runes past ASCII is the argument \<open>lower\<close>.
\<close>

definition ascii_lower :: "rune \<Rightarrow> rune" where
  "ascii_lower r = (if 65 \<le> r \<and> r \<le> 90 then r + 32 else r)"

definition to_lower :: "(rune \<Rightarrow> rune) \<Rightarrow> string \<Rightarrow> string" where
  "to_lower lower s =
     encode (map (\<lambda>r. if r < 0x80 then ascii_lower r else lower r) (runes s))"

text \<open>
  \<open>strings.EqualFold\<close> against an ASCII string without the letters k and s, the only two that
  a rune past ASCII folds to.
\<close>

definition equal_fold_ascii :: "string \<Rightarrow> string \<Rightarrow> bool" where
  "equal_fold_ascii s t \<longleftrightarrow> map (ascii_lower \<circ> byte) s = map (ascii_lower \<circ> byte) t"

end
