(* ===== verification/Rune_Filter.thy ===== *)
theory Rune_Filter
  imports Go_Strings
begin

text \<open>
  Three routines of the program rewrite a string rune by rune, keeping the runes they allow and
  putting one fixed rune in the place of the others: \<open>sanitize\<close> (directory names), \<open>clean\<close>
  (file names) and \<open>overlayText\<close> (captions burned into the video). \<open>filter_runes\<close> is that loop;
  the locales state what a client of such a filter may rely on, once for all three.
\<close>

definition filter_runes :: "(rune \<Rightarrow> bool) \<Rightarrow> rune \<Rightarrow> string \<Rightarrow> string" where
  "filter_runes ok sub s = encode (map (\<lambda>r. if ok r then r else sub) (runes s))"

lemma runes_Nil [simp]: "runes [] = []"
  by (simp add: runes_def)

lemma runes_Cons_ascii: "byte c < 0x80 \<Longrightarrow> runes (c # s) = byte c # runes s"
  by (simp add: runes_def decode_rune.simps)

lemma decode_rune_width:
  "decode_rune (c # s) = (r, w) \<Longrightarrow> 1 \<le> w \<and> w \<le> Suc (length s)"
  by (auto simp: decode_rune.simps Let_def split: if_splits list.splits)

lemma length_runes: "length (runes s) \<le> length s"
proof (induction s rule: decode.induct)
  case (2 c cs)
  obtain r w where d: "decode_rune (c # cs) = (r, w)" by fastforce
  have "length (runes (drop (w - 1) cs)) \<le> length (drop (w - 1) cs)"
    using "2" [OF d [symmetric] refl] by simp
  also have "\<dots> \<le> length cs" by simp
  finally show ?case using d by (simp add: runes_def)
qed simp

lemma runes_nonempty: "s \<noteq> [] \<Longrightarrow> runes s \<noteq> []"
  by (cases s) (auto simp: runes_def split: prod.splits)

text \<open>An ASCII byte of an encoded string is an ASCII rune of it.\<close>

lemma encode_valid_low:
  assumes "c \<in> set (encode_valid r)" and "r \<le> 0x10FFFF" and "byte c < 0x80"
  shows "r < 0x80 \<and> byte c = r"
proof (cases "r < 0x80")
  case True
  with assms show ?thesis by (auto simp: encode_valid_def)
next
  case False
  have hi: "byte (chr (a + b)) \<ge> 0x80" if "0x80 \<le> a" "a + b < 256" for a b
    using that by simp
  have "r div 64 < 32" if "r < 0x800" using that by (simp add: less_mult_imp_div_less)
  moreover have "r div 4096 < 16" if "r < 0x10000" using that by (simp add: less_mult_imp_div_less)
  moreover have "r div 262144 < 5" using assms(2) by (simp add: less_mult_imp_div_less)
  moreover have "n mod 64 < 64" for n :: nat by simp
  ultimately have "0x80 \<le> byte c"
    using assms(1) False
    by (auto simp: encode_valid_def split: if_splits intro!: hi add_strict_mono simp del: byte_chr_small
        elim!: order.strict_trans1)
  with assms(3) show ?thesis by simp
qed

lemma encode_rune_low:
  assumes "c \<in> set (encode_rune r)" and "byte c < 0x80"
  shows "r < 0x80 \<and> byte c = r"
proof (cases "valid_rune r")
  case True
  with assms show ?thesis
    by (intro encode_valid_low) (auto simp: encode_rune_def valid_rune_def)
next
  case False
  with assms have "rune_error < 0x80"
    using encode_valid_low [of c rune_error] by (simp add: encode_rune_def rune_error_def)
  then show ?thesis by (simp add: rune_error_def)
qed

lemma encode_low:
  assumes "c \<in> set (encode rs)" and "byte c < 0x80"
  shows "byte c \<in> set rs"
proof -
  from assms(1) obtain r where "r \<in> set rs" and "c \<in> set (encode_rune r)"
    by (auto simp: encode_def)
  with encode_rune_low [OF _ assms(2)] show ?thesis by blast
qed

text \<open>Decoding yields valid runes only.\<close>

lemma second_bounds: "second_ok b c \<Longrightarrow> 0x80 \<le> byte c \<and> byte c \<le> 0xBF"
  by (auto simp: second_ok_def second_low_def second_high_def split: if_splits)

lemma decode_two_valid:
  assumes "0xC2 \<le> b" "b \<le> 0xDF" "cont_byte c"
  shows "valid_rune ((b - 0xC0) * 64 + (byte c - 0x80))"
proof -
  have "(b - 0xC0) * 64 \<le> 31 * 64" using assms by (intro mult_right_mono) auto
  moreover have "byte c - 0x80 < 64" using assms by (auto simp: cont_byte_def)
  ultimately show ?thesis by (simp add: valid_rune_def)
qed

lemma decode_three_valid:
  assumes "0xE0 \<le> b" "b \<le> 0xEF" "second_ok b c" "cont_byte d"
  shows "valid_rune ((b - 0xE0) * 4096 + (byte c - 0x80) * 64 + (byte d - 0x80))"
proof -
  have d: "byte d - 0x80 < 64" using assms by (auto simp: cont_byte_def)
  have c: "byte c - 0x80 < 64" using second_bounds [OF assms(3)] by auto
  consider "b < 0xED" | "b = 0xED" | "b = 0xEE" | "b = 0xEF" using assms by linarith
  then show ?thesis
  proof cases
    case 1
    then have "(b - 0xE0) * 4096 \<le> 12 * 4096" by (intro mult_right_mono) auto
    with c d show ?thesis by (simp add: valid_rune_def)
  next
    case 2
    with assms(3) have "byte c - 0x80 < 32" by (auto simp: second_ok_def second_high_def)
    with d 2 show ?thesis by (simp add: valid_rune_def)
  qed (use c d in \<open>simp_all add: valid_rune_def\<close>)
qed

lemma decode_four_valid:
  assumes "0xF0 \<le> b" "b \<le> 0xF4" "second_ok b c" "cont_byte d" "cont_byte e"
  shows "valid_rune ((b - 0xF0) * 262144 + (byte c - 0x80) * 4096 + (byte d - 0x80) * 64
    + (byte e - 0x80))"
proof -
  have d: "byte d - 0x80 < 64" "byte e - 0x80 < 64" using assms by (auto simp: cont_byte_def)
  have c: "byte c - 0x80 < 64" using second_bounds [OF assms(3)] by auto
  consider "b = 0xF0" | "b = 0xF1" | "b = 0xF2" | "b = 0xF3" | "b = 0xF4" using assms by linarith
  then show ?thesis
  proof cases
    case 1
    with assms(3) have "16 \<le> byte c - 0x80" by (auto simp: second_ok_def second_low_def)
    with c d 1 show ?thesis by (simp add: valid_rune_def)
  next
    case 5
    with assms(3) have "byte c - 0x80 < 16" by (auto simp: second_ok_def second_high_def)
    with d 5 show ?thesis by (simp add: valid_rune_def)
  qed (use c d in \<open>simp_all add: valid_rune_def\<close>)
qed

lemma rune_error_valid [simp]: "valid_rune rune_error"
  by (simp add: valid_rune_def rune_error_def)

lemma decode_rune_valid: "decode_rune s = (r, w) \<Longrightarrow> valid_rune r"
proof (cases s)
  case (Cons c t)
  assume "decode_rune s = (r, w)"
  with Cons show ?thesis
    by (auto simp: decode_rune.simps Let_def not_le decode_two_valid decode_three_valid
        decode_four_valid split: if_splits list.splits) (simp add: valid_rune_def)
qed (auto simp: decode_rune.simps)

lemma runes_valid: "r \<in> set (runes s) \<Longrightarrow> valid_rune r"
proof (induction s rule: decode.induct)
  case (2 c cs)
  obtain q w where d: "decode_rune (c # cs) = (q, w)" by fastforce
  with "2.prems" have "r = q \<or> r \<in> set (runes (drop (w - 1) cs))" by (simp add: runes_def)
  with "2.IH" [OF d [symmetric] refl] decode_rune_valid [OF d] show ?case by blast
qed simp

section \<open>The interface of a filter\<close>

locale rune_filter =
  fixes ok :: "rune \<Rightarrow> bool" and sub :: rune
  assumes sub_ok: "ok sub" and sub_ascii: "sub < 0x80"
begin

lemma filtered_ok: "r \<in> (\<lambda>r. if ok r then r else sub) ` A \<Longrightarrow> ok r"
  using sub_ok by auto

lemma low_bytes_ok: "c \<in> set (filter_runes ok sub s) \<Longrightarrow> byte c < 0x80 \<Longrightarrow> ok (byte c)"
proof -
  assume "c \<in> set (filter_runes ok sub s)" and "byte c < 0x80"
  then have "byte c \<in> (\<lambda>r. if ok r then r else sub) ` set (runes s)"
    using encode_low [of c] by (fastforce simp: filter_runes_def)
  then show ?thesis by (rule filtered_ok)
qed

lemma runes_filtered: "runes (filter_runes ok sub s) = map (\<lambda>r. if ok r then r else sub) (runes s)"
  unfolding filter_runes_def
  using sub_ascii runes_valid [of _ s]
  by (intro runes_encode) (auto simp: valid_rune_def)

lemma filter_idem: "filter_runes ok sub (filter_runes ok sub s) = filter_runes ok sub s"
proof -
  have "map (\<lambda>r. if ok r then r else sub) (runes (filter_runes ok sub s))
      = map (\<lambda>r. if ok r then r else sub) (runes s)"
    using sub_ok by (simp add: runes_filtered)
  then show ?thesis by (simp add: filter_runes_def)
qed

end

locale ascii_filter = rune_filter +
  assumes ok_ascii: "ok r \<Longrightarrow> r < 0x80"
begin

lemma filter_chars:
  "filter_runes ok sub s = map chr (map (\<lambda>r. if ok r then r else sub) (runes s))"
  unfolding filter_runes_def
  by (rule encode_ascii) (use sub_ascii ok_ascii in auto)

lemma all_bytes_ok: "c \<in> set (filter_runes ok sub s) \<Longrightarrow> ok (byte c)"
proof -
  assume "c \<in> set (filter_runes ok sub s)"
  then obtain r where c: "c = chr (if ok r then r else sub)" by (auto simp: filter_chars)
  have "(if ok r then r else sub) < 0x80" using sub_ascii ok_ascii by simp
  then have "byte c = (if ok r then r else sub)" by (simp add: c)
  then show ?thesis using sub_ok by simp
qed

lemma filter_length: "length (filter_runes ok sub s) \<le> length s"
  using length_runes by (simp add: filter_chars)

lemma filter_id:
  assumes "\<forall>c \<in> set s. ok (byte c)"
  shows "filter_runes ok sub s = s"
proof -
  have "runes s = map byte s" using assms ok_ascii by (intro runes_ascii) auto
  with assms show ?thesis by (simp add: filter_chars map_idI)
qed

lemma filter_Nil_iff: "filter_runes ok sub s = [] \<longleftrightarrow> s = []"
  using runes_nonempty [of s] by (auto simp: filter_chars)

end

end
