(* ===== verification/Go_Float.thy ===== *)
theory Go_Float
  imports Go_Strings Complex_Main "HOL-Library.Log_Nat"
begin

text \<open>
  Go's \<open>float64\<close>: IEEE 754 binary64 with exact rationals for the finite values, rounding to
  nearest with ties to even, and the conversions of \<open>strconv\<close> and \<open>fmt\<close> the program uses.
  Conversion of a value outside the 64-bit range to \<open>int\<close> is left open by the Go
  specification; the model saturates, as the arm64 build the service is deployed as does.
\<close>

section \<open>Values and rounding\<close>

datatype f64 = Fin rat | NegZero | PosInf | NegInf | NaN

definition round_half_even :: "rat \<Rightarrow> int" where
  "round_half_even x =
     (let f = \<lfloor>x\<rfloor>; r = x - of_int f
      in if r < 1 / 2 then f else if 1 / 2 < r then f + 1 else if even f then f else f + 1)"

definition pow2 :: "int \<Rightarrow> rat" where
  "pow2 k = (if 0 \<le> k then 2 ^ nat k else 1 / 2 ^ nat (- k))"

text \<open>
  \<open>log_floor x\<close> is the k with 2 ^ k at most x and x below 2 ^ (k + 1), for a positive x;
  \<open>ulp_exp\<close> is the exponent of the last of the 53 significant bits, or the subnormal limit.
\<close>

definition log_floor :: "rat \<Rightarrow> int" where
  "log_floor x =
     (if 1 \<le> x then bitlen \<lfloor>x\<rfloor> - 1
      else (let b = bitlen \<lfloor>1 / x\<rfloor> in if x = pow2 (1 - b) then 1 - b else - b))"

definition ulp_exp :: "rat \<Rightarrow> int" where
  "ulp_exp x = max (- 1074) (log_floor x - 52)"

definition round64 :: "rat \<Rightarrow> f64" where
  "round64 x =
     (if x = 0 then Fin 0
      else let a = \<bar>x\<bar>; e = ulp_exp a; m = round_half_even (a / pow2 e); v = of_int m * pow2 e
           in if pow2 1024 \<le> v then (if 0 < x then PosInf else NegInf)
              else if m = 0 then (if 0 < x then Fin 0 else NegZero)
              else Fin (if 0 < x then v else - v))"

definition f64_of_int :: "int \<Rightarrow> f64" where
  "f64_of_int n = round64 (of_int n)"

fun is_neg :: "f64 \<Rightarrow> bool" where
  "is_neg (Fin r) = (r < 0)"
| "is_neg NegZero = True"
| "is_neg PosInf = False"
| "is_neg NegInf = True"
| "is_neg NaN = False"

fun is_finite :: "f64 \<Rightarrow> bool" where
  "is_finite (Fin r) = True"
| "is_finite NegZero = True"
| "is_finite _ = False"

text \<open>The rational a finite value stands for.\<close>

fun val :: "f64 \<Rightarrow> rat" where
  "val (Fin r) = r"
| "val _ = 0"

section \<open>Arithmetic and comparison\<close>

definition f64_add :: "f64 \<Rightarrow> f64 \<Rightarrow> f64" where
  "f64_add a b =
     (if a = NaN \<or> b = NaN \<or> (a = PosInf \<and> b = NegInf) \<or> (a = NegInf \<and> b = PosInf) then NaN
      else if a = PosInf \<or> b = PosInf then PosInf
      else if a = NegInf \<or> b = NegInf then NegInf
      else if a = NegZero \<and> b = NegZero then NegZero
      else round64 (val a + val b))"

definition f64_div :: "f64 \<Rightarrow> f64 \<Rightarrow> f64" where
  "f64_div a b =
     (let neg = (is_neg a \<noteq> is_neg b) in
      if a = NaN \<or> b = NaN then NaN
      else if is_finite a then
        (if \<not> is_finite b then (if neg then NegZero else Fin 0)
         else if val b = 0 then
           (if val a = 0 then NaN else if neg then NegInf else PosInf)
         else if val a = 0 then (if neg then NegZero else Fin 0)
         else round64 (val a / val b))
      else if is_finite b then (if neg then NegInf else PosInf)
      else NaN)"

definition f64_sub :: "f64 \<Rightarrow> f64 \<Rightarrow> f64" where
  "f64_sub a b =
     f64_add a (case b of Fin r \<Rightarrow> if r = 0 then NegZero else Fin (- r) | NegZero \<Rightarrow> Fin 0
                | PosInf \<Rightarrow> NegInf | NegInf \<Rightarrow> PosInf | NaN \<Rightarrow> NaN)"

definition f64_less :: "f64 \<Rightarrow> f64 \<Rightarrow> bool" where
  "f64_less a b \<longleftrightarrow>
     (if a = NaN \<or> b = NaN then False
      else if a = NegInf then b \<noteq> NegInf
      else if b = PosInf then a \<noteq> PosInf
      else if a = PosInf \<or> b = NegInf then False
      else val a < val b)"

definition f64_le :: "f64 \<Rightarrow> f64 \<Rightarrow> bool" where
  "f64_le a b \<longleftrightarrow> a \<noteq> NaN \<and> b \<noteq> NaN \<and> \<not> f64_less b a"

text \<open>The conversion \<open>int(v)\<close>: truncation towards zero, saturating.\<close>

definition trunc_rat :: "rat \<Rightarrow> int" where
  "trunc_rat r = (if 0 \<le> r then \<lfloor>r\<rfloor> else - \<lfloor>- r\<rfloor>)"

fun int_of_f64 :: "f64 \<Rightarrow> int" where
  "int_of_f64 (Fin r) =
     (let t = trunc_rat r
      in if in_int64 t then t else if 0 < t then 2 ^ 63 - 1 else - (2 ^ 63))"
| "int_of_f64 NegZero = 0"
| "int_of_f64 PosInf = 2 ^ 63 - 1"
| "int_of_f64 NegInf = - (2 ^ 63)"
| "int_of_f64 NaN = 0"

text \<open>\<open>time.Duration.Seconds\<close>.\<close>

definition duration_seconds :: "nanos \<Rightarrow> f64" where
  "duration_seconds d =
     f64_add (f64_of_int (go_quot d (10 ^ 9))) (f64_div (f64_of_int (go_rem d (10 ^ 9))) (Fin (10 ^ 9)))"

lemma round_half_even_int [simp]: "round_half_even (of_int n) = n"
  by (simp add: round_half_even_def Let_def)

lemma pow2_pos [simp]: "0 < pow2 k"
  by (simp add: pow2_def)

lemma bitlen_pos: "0 < n \<Longrightarrow> 1 \<le> bitlen n"
  using bitlen_ge_iff_power [of 1 n] by simp

lemma ulp_exp_int: "0 < n \<Longrightarrow> ulp_exp (of_int n) = bitlen n - 53"
  using bitlen_pos [of n] by (simp add: ulp_exp_def log_floor_def)

lemma bitlen_le_54: "0 < n \<Longrightarrow> n \<le> 2 ^ 53 \<Longrightarrow> bitlen n \<le> 54"
  by (simp add: bitlen_le_iff_power)

lemma bitlen_54: "0 < n \<Longrightarrow> n \<le> 2 ^ 53 \<Longrightarrow> bitlen n = 54 \<Longrightarrow> n = 2 ^ 53"
  using bitlen_bounds [of n] by simp

text \<open>Every integer of at most 53 bits is a \<open>float64\<close>: layer numbers and counters convert exactly.\<close>

lemma scale_int:
  assumes "0 < n" and "n \<le> 2 ^ 53"
  shows "\<exists>k. (of_int n :: rat) / pow2 (bitlen n - 53) = of_int k"
proof (cases "bitlen n = 54")
  case True
  then have "n = 2 ^ 53" using bitlen_54 assms by blast
  then have "(of_int n :: rat) / pow2 (bitlen n - 53) = of_int (2 ^ 52)"
    using True by (simp add: pow2_def)
  then show ?thesis by blast
next
  case False
  then have "bitlen n - 53 \<le> 0" using bitlen_le_54 [OF assms] by simp
  then have "(of_int n :: rat) / pow2 (bitlen n - 53) = of_int (n * 2 ^ nat (53 - bitlen n))"
    by (auto simp: pow2_def)
  then show ?thesis by blast
qed

lemma round64_pos_int:
  assumes "0 < n" and "n \<le> 2 ^ 53"
  shows "round64 (of_int n) = Fin (of_int n)"
proof -
  define e where "e = bitlen n - 53"
  obtain k where k: "(of_int n :: rat) / pow2 e = of_int k"
    using scale_int [OF assms] by (auto simp: e_def)
  have v: "of_int k * pow2 e = (of_int n :: rat)"
    using k pow2_pos [of e] by (simp add: divide_eq_eq)
  have "(of_int n :: rat) \<le> of_int (2 ^ 53)" using assms(2) by (simp only: of_int_le_iff)
  also have "\<dots> < pow2 1024" by (simp add: pow2_def)
  finally have lt: "\<not> pow2 1024 \<le> (of_int n :: rat)" by simp
  have "k \<noteq> 0" using v assms(1) by auto
  moreover have "ulp_exp (of_int n) = e" using assms by (simp add: ulp_exp_int e_def)
  ultimately show ?thesis using assms(1) lt k v by (simp add: round64_def Let_def)
qed

lemma round64_neg: "0 < x \<Longrightarrow> round64 x = Fin y \<Longrightarrow> 0 < y \<Longrightarrow> round64 (- x) = Fin (- y)"
  by (auto simp: round64_def Let_def split: if_splits)

lemma f64_of_int_exact:
  assumes "\<bar>n\<bar> \<le> 2 ^ 53"
  shows "f64_of_int n = Fin (of_int n)"
proof -
  consider "n = 0" | "0 < n" | "n < 0" by linarith
  then show ?thesis
  proof cases
    case 1
    then show ?thesis by (simp add: f64_of_int_def round64_def)
  next
    case 2
    with assms show ?thesis by (simp add: f64_of_int_def round64_pos_int)
  next
    case 3
    with assms have "round64 (of_int (- n)) = Fin (of_int (- n))" by (intro round64_pos_int) auto
    with 3 round64_neg [of "of_int (- n)" "of_int (- n)"] show ?thesis
      by (simp add: f64_of_int_def)
  qed
qed

lemma int_of_f64_int:
  assumes "in_int64 n"
  shows "int_of_f64 (Fin (of_int n)) = n"
proof -
  have "\<lfloor>- (of_int n :: rat)\<rfloor> = - n" by (simp flip: of_int_minus)
  with assms show ?thesis by (auto simp: trunc_rat_def Let_def)
qed

section \<open>Decimal text\<close>

text \<open>\<open>strconv.FormatFloat(v, 'f', prec, 64)\<close> with a fixed precision, and the \<open>%.{prec}f\<close> verb.\<close>

definition fixed_digits :: "nat \<Rightarrow> rat \<Rightarrow> string" where
  "fixed_digits prec a =
     (let r = nat (round_half_even (a * 10 ^ prec))
      in dec (r div 10 ^ prec)
         @ (if prec = 0 then [] else CHR ''.'' # pad_left prec (dec (r mod 10 ^ prec))))"

fun fmt_fixed :: "nat \<Rightarrow> f64 \<Rightarrow> string" where
  "fmt_fixed prec (Fin r) = (if r < 0 then ''-'' else []) @ fixed_digits prec \<bar>r\<bar>"
| "fmt_fixed prec NegZero = ''-'' @ fixed_digits prec 0"
| "fmt_fixed prec PosInf = ''+Inf''"
| "fmt_fixed prec NegInf = ''-Inf''"
| "fmt_fixed prec NaN = ''NaN''"

text \<open>
  \<open>FormatFloat(v, 'f', -1, 64)\<close>: the fewest significant digits that read back as the same
  value. \<open>scale10 x\<close> is the k with 10 ^ k at most x and x below 10 ^ (k + 1).
\<close>

fun scale_down :: "nat \<Rightarrow> nat \<Rightarrow> rat \<Rightarrow> nat" where
  "scale_down 0 k x = k"
| "scale_down (Suc fuel) k x = (if 1 \<le> x then k else scale_down fuel (Suc k) (10 * x))"

definition scale10 :: "rat \<Rightarrow> int" where
  "scale10 x =
     (if 1 \<le> x then int (length (dec (nat \<lfloor>x\<rfloor>))) - 1 else - int (scale_down 400 0 x))"

definition pow10 :: "int \<Rightarrow> rat" where
  "pow10 k = (if 0 \<le> k then 10 ^ nat k else 1 / 10 ^ nat (- k))"

definition digits_candidate :: "rat \<Rightarrow> nat \<Rightarrow> rat option" where
  "digits_candidate x n =
     (let u = pow10 (scale10 x + 1 - int n); lo = of_int \<lfloor>x / u\<rfloor> * u; hi = lo + u;
          okl = (round64 lo = Fin x); okh = (round64 hi = Fin x)
      in if okl \<and> okh then Some (if x - lo \<le> hi - x then lo else hi)
         else if okl then Some lo else if okh then Some hi else None)"

fun shortest :: "nat \<Rightarrow> nat \<Rightarrow> rat \<Rightarrow> rat" where
  "shortest 0 n x = x"
| "shortest (Suc fuel) n x =
     (case digits_candidate x n of Some y \<Rightarrow> y | None \<Rightarrow> shortest fuel (Suc n) x)"

text \<open>A decimal fraction in plain notation: integer part, then the fraction without trailing
  zeros.\<close>

fun fraction_digits :: "nat \<Rightarrow> rat \<Rightarrow> string" where
  "fraction_digits 0 f = []"
| "fraction_digits (Suc fuel) f =
     (if f = 0 then []
      else chr (48 + nat \<lfloor>10 * f\<rfloor>) # fraction_digits fuel (10 * f - of_int \<lfloor>10 * f\<rfloor>))"

definition plain_decimal :: "rat \<Rightarrow> string" where
  "plain_decimal a =
     (let f = a - of_int \<lfloor>a\<rfloor>
      in dec (nat \<lfloor>a\<rfloor>) @ (if f = 0 then [] else CHR ''.'' # fraction_digits 400 f))"

fun fmt_shortest :: "f64 \<Rightarrow> string" where
  "fmt_shortest (Fin r) =
     (if r = 0 then ''0''
      else (if r < 0 then ''-'' else []) @ plain_decimal (shortest 17 1 \<bar>r\<bar>))"
| "fmt_shortest NegZero = ''-0''"
| "fmt_shortest PosInf = ''+Inf''"
| "fmt_shortest NegInf = ''-Inf''"
| "fmt_shortest NaN = ''NaN''"

section \<open>Reading a float\<close>

text \<open>
  \<open>strconv.ParseFloat(s, 64)\<close>: an optional sign; the words inf, infinity and nan (the last
  without a sign) in any case; otherwise a decimal literal, or a hexadecimal one with its
  mandatory binary exponent, whose digits may be separated by single underscores. A finite
  literal beyond the largest \<open>float64\<close> is an error.
\<close>

definition hex_val :: "char \<Rightarrow> nat option" where
  "hex_val c =
     (let b = byte c in
      if is_digit c then Some (b - 48)
      else if 97 \<le> b \<and> b \<le> 102 then Some (b - 87)
      else if 65 \<le> b \<and> b \<le> 70 then Some (b - 55)
      else None)"

definition digit_val :: "bool \<Rightarrow> char \<Rightarrow> nat option" where
  "digit_val hex c = (if hex then hex_val c else if is_digit c then Some (byte c - 48) else None)"

text \<open>The mantissa loop: value so far, digits after the point, seen a point, seen a digit.\<close>

fun read_mantissa :: "bool \<Rightarrow> nat \<Rightarrow> nat \<Rightarrow> bool \<Rightarrow> bool \<Rightarrow> string \<Rightarrow> nat \<times> nat \<times> bool \<times> string" where
  "read_mantissa hex m k dot dig [] = (m, k, dig, [])"
| "read_mantissa hex m k dot dig (c # cs) =
     (if c = CHR ''_'' then read_mantissa hex m k dot dig cs
      else if c = CHR ''.'' \<and> \<not> dot then read_mantissa hex m k True dig cs
      else (case digit_val hex c of
              Some d \<Rightarrow>
                read_mantissa hex (m * (if hex then 16 else 10) + d) (if dot then Suc k else k)
                  dot True cs
            | None \<Rightarrow> (m, k, dig, c # cs)))"

fun read_exp_digits :: "nat \<Rightarrow> string \<Rightarrow> nat option" where
  "read_exp_digits e [] = Some e"
| "read_exp_digits e (c # cs) =
     (if c = CHR ''_'' then read_exp_digits e cs
      else if is_digit c then read_exp_digits (10 * e + (byte c - 48)) cs
      else None)"

definition read_exp :: "string \<Rightarrow> int option" where
  "read_exp s =
     (let neg = has_prefix s ''-''; t = (if neg \<or> has_prefix s ''+'' then tl s else s)
      in case t of
           [] \<Rightarrow> None
         | c # cs \<Rightarrow>
             if is_digit c then map_option (\<lambda>e. if neg then - int e else int e) (read_exp_digits 0 t)
             else None)"

text \<open>\<open>underscoreOK\<close> of \<open>strconv\<close>: every underscore stands between two digits.\<close>

fun underscores_ok :: "bool \<Rightarrow> char \<Rightarrow> string \<Rightarrow> bool" where
  "underscores_ok hex saw [] = (saw \<noteq> CHR ''_'')"
| "underscores_ok hex saw (c # cs) =
     (if digit_val hex c \<noteq> None then underscores_ok hex (CHR ''0'') cs
      else if c = CHR ''_'' then saw = CHR ''0'' \<and> underscores_ok hex (CHR ''_'') cs
      else saw \<noteq> CHR ''_'' \<and> underscores_ok hex (CHR ''!'') cs)"

definition pow_int :: "rat \<Rightarrow> int \<Rightarrow> rat" where
  "pow_int b k = (if 0 \<le> k then b ^ nat k else 1 / b ^ nat (- k))"

definition float_literal :: "bool \<Rightarrow> string \<Rightarrow> rat option" where
  "float_literal hex s =
     (let (m, k, dig, rest) = read_mantissa hex 0 0 False False s;
          base = (if hex then 2 else 10); frac = (if hex then 4 * int k else int k);
          mark = (if hex then ''pP'' else ''eE'')
      in if \<not> dig then None
         else (case rest of
                 [] \<Rightarrow> if hex then None else Some (of_nat m * pow_int base (- frac))
               | c # cs \<Rightarrow>
                   if c \<in> set mark
                   then map_option (\<lambda>e. of_nat m * pow_int base (e - frac)) (read_exp cs)
                   else None))"

definition lower_ascii :: "string \<Rightarrow> string" where
  "lower_ascii s = map (\<lambda>c. chr (ascii_lower (byte c))) s"

definition parse_float :: "string \<Rightarrow> f64 option" where
  "parse_float s =
     (let signed = has_prefix s ''-'' \<or> has_prefix s ''+''; neg = has_prefix s ''-'';
          t = (if signed then tl s else s); low = lower_ascii t; hex = has_prefix low ''0x'';
          u = (if hex then drop 2 t else t)
      in if low = ''nan'' then (if signed then None else Some NaN)
         else if low = ''inf'' \<or> low = ''infinity'' then Some (if neg then NegInf else PosInf)
         else if CHR ''_'' \<in> set u
              \<and> \<not> underscores_ok hex (if hex then CHR ''0'' else CHR ''^'') u then None
         else (case float_literal hex u of
                 None \<Rightarrow> None
               | Some r \<Rightarrow>
                   if r = 0 then Some (if neg then NegZero else Fin 0)
                   else (case round64 (if neg then - r else r) of
                           PosInf \<Rightarrow> None | NegInf \<Rightarrow> None | v \<Rightarrow> Some v)))"

text \<open>An integer literal of at most 53 bits is read exactly.\<close>

lemma digit_val_dec: "digit_val False c = (if is_digit c then Some (byte c - 48) else None)"
  by (simp add: digit_val_def)

lemma digit_not_mark: "is_digit c \<Longrightarrow> c \<noteq> CHR ''_'' \<and> c \<noteq> CHR ''.''"
  by (auto simp: is_digit_def byte_def)

lemma read_mantissa_digits:
  assumes "\<forall>c \<in> set s. is_digit c"
  shows "read_mantissa False m k False dig s = (the (undec m s), k, dig \<or> s \<noteq> [], [])"
  using assms
proof (induction s arbitrary: m dig)
  case (Cons c cs)
  then show ?case
    using digit_not_mark [of c] by (simp add: digit_val_dec mult.commute)
qed simp

lemma float_literal_dec: "float_literal False (dec n) = Some (of_nat n)"
  using read_mantissa_digits [of "dec n" 0 0 False] dec_digits [of _ n]
  by (simp add: float_literal_def undec_dec pow_int_def)

end
