(* ===== verification/Session.thy ===== *)
theory Session
  imports Filesystem Rune_Filter Go_Float "HOL-Library.Code_Target_Numeral"
begin

text \<open>
  \<open>internal/session/session.go\<close>: the record of a print being captured and the staging area it is
  kept in. A state file holds the JSON document of one session; reading back what was written
  gives the same session, and a document cut short does not parse, which is what the model keeps
  of \<open>encoding/json\<close>.
\<close>

section \<open>Temperatures\<close>

record temps =
  t_sum :: f64
  t_count :: int
  t_peak :: f64

definition zero_temps :: temps where
  "zero_temps = \<lparr>t_sum = Fin 0, t_count = 0, t_peak = Fin 0\<rparr>"

definition temps_add :: "temps \<Rightarrow> f64 \<Rightarrow> temps" where
  "temps_add t v =
     (if f64_le v (Fin 0) then t
      else t\<lparr>t_sum := f64_add (t_sum t) v, t_count := t_count t + 1,
             t_peak := (if f64_less (t_peak t) v then v else t_peak t)\<rparr>)"

definition temps_avg :: "temps \<Rightarrow> f64" where
  "temps_avg t = (if t_count t = 0 then Fin 0 else f64_div (t_sum t) (f64_of_int (t_count t)))"

section \<open>Sessions\<close>

text \<open>An instant with the offset of the zone it is shown in.\<close>

datatype gotime = Time (unix_ns: int) (utc_offset: int)

record session =
  s_task :: string
  s_job :: string
  s_started :: gotime
  s_frames :: int
  s_last_layer :: int
  s_total :: int
  s_layers :: "int list"
  s_nozzle :: temps
  s_bed :: temps
  s_filament :: string
  s_pauses :: int
  s_partial :: bool
  s_dir :: path

type_synonym disk = "session os"

definition state_file :: string where "state_file = ''state.json''"
definition preview_file :: string where "preview_file = ''preview.png''"

definition frame_name :: "int \<Rightarrow> string" where
  "frame_name n = ''frame-'' @ fmt_0d 5 n @ ''.jpg''"

definition frame_path :: "session \<Rightarrow> path" where
  "frame_path s = s_dir s @ [frame_name (s_frames s + 1)]"

text \<open>\<open>json.MarshalIndent\<close> refuses a float that is not finite; the directory is not a field of
  the document.\<close>

definition temps_finite :: "temps \<Rightarrow> bool" where
  "temps_finite t \<longleftrightarrow> is_finite (t_sum t) \<and> is_finite (t_peak t)"

definition marshal :: "session \<Rightarrow> session option" where
  "marshal s =
     (if temps_finite (s_nozzle s) \<and> temps_finite (s_bed s) then Some (s\<lparr>s_dir := []\<rparr>) else None)"

definition save :: "disk \<Rightarrow> session \<Rightarrow> disk \<times> bool" where
  "save os s =
     (case marshal s of
        None \<Rightarrow> (os, False)
      | Some d \<Rightarrow>
          (let tmp = s_dir s @ [state_file @ ''.tmp'']; (os1, ok) = os_write os tmp (Doc d)
           in if \<not> ok then (os1, False) else os_rename os1 tmp (s_dir s @ [state_file])))"

section \<open>The staging area\<close>

record store =
  st_root :: path
  st_failed :: path

definition new_store :: "disk \<Rightarrow> path \<Rightarrow> disk \<times> store option" where
  "new_store os base =
     (let failed = base @ [''failed'']; (os1, ok) = os_mkdir_all os failed
      in (os1, if ok then Some \<lparr>st_root = base, st_failed = failed\<rparr> else None))"

definition name_rune :: "rune \<Rightarrow> bool" where
  "name_rune r \<longleftrightarrow>
     (97 \<le> r \<and> r \<le> 122) \<or> (65 \<le> r \<and> r \<le> 90) \<or> (48 \<le> r \<and> r \<le> 57) \<or> r = 45 \<or> r = 95"

definition sanitize :: "string \<Rightarrow> string" where
  "sanitize s = (let out = filter_runes name_rune 95 s in if out = [] then ''unknown'' else out)"

definition job_dir :: "store \<Rightarrow> string \<Rightarrow> path" where
  "job_dir st tid = st_root st @ [''job-'' @ sanitize tid]"

definition load :: "disk \<Rightarrow> path \<Rightarrow> disk \<times> session option" where
  "load os dir =
     (let (os1, c) = os_read os (dir @ [state_file])
      in (os1, case c of Some (Doc d) \<Rightarrow> Some (d\<lparr>s_dir := dir\<rparr>) | _ \<Rightarrow> None))"

definition fresh_session :: "disk \<Rightarrow> path \<Rightarrow> string \<Rightarrow> string \<Rightarrow> int \<Rightarrow> int \<Rightarrow> session" where
  "fresh_session os dir tid name tot cur =
     \<lparr>s_task = tid, s_job = name, s_started = Time (clock os) (zone os), s_frames = 0,
      s_last_layer = - 1, s_total = tot, s_layers = [], s_nozzle = zero_temps,
      s_bed = zero_temps, s_filament = [], s_pauses = 0, s_partial = (1 < cur), s_dir = dir\<rparr>"

text \<open>\<open>Create\<close>: the session and whether it was resumed; None is an error.\<close>

definition create :: "disk \<Rightarrow> store \<Rightarrow> string \<Rightarrow> string \<Rightarrow> int \<Rightarrow> int \<Rightarrow> disk \<times> (session \<times> bool) option" where
  "create os st tid name tot cur =
     (let dir = job_dir st tid; (os1, existing) = load os dir in
      case existing of
        Some s \<Rightarrow> (os1, Some (s, True))
      | None \<Rightarrow>
          (let (os2, made) = os_mkdir_all os1 dir in
           if \<not> made then (os2, None)
           else (let s = fresh_session os2 dir tid name tot cur; (os3, ok) = save os2 s
                 in (os3, if ok then Some (s, False) else None))))"

fun load_all :: "disk \<Rightarrow> path \<Rightarrow> (string \<times> bool) list \<Rightarrow> disk \<times> session list" where
  "load_all os base [] = (os, [])"
| "load_all os base ((name, dir) # es) =
     (if \<not> dir \<or> \<not> has_prefix name ''job-'' then load_all os base es
      else (let (os1, x) = load os (base @ [name]); (os2, xs) = load_all os1 base es
            in (os2, case x of None \<Rightarrow> xs | Some s \<Rightarrow> s # xs)))"

text \<open>
  \<open>List\<close>: newest first. Among sessions started at one instant the model keeps the directory's
  order, as Go's \<open>sort.Slice\<close> does for up to a dozen of them and leaves open beyond; no theorem
  rests on it.
\<close>

definition list_sessions :: "disk \<Rightarrow> store \<Rightarrow> disk \<times> session list option" where
  "list_sessions os st =
     (case os_read_dir os (st_root st) of
        (os1, None) \<Rightarrow> (os1, None)
      | (os1, Some es) \<Rightarrow>
          (let (os2, xs) = load_all os1 (st_root st) es
           in (os2, Some (sort_key (\<lambda>s. - unix_ns (s_started s)) xs))))"

definition discard :: "disk \<Rightarrow> session \<Rightarrow> disk" where
  "discard os s = fst (os_remove_all os (s_dir s))"

definition park_dir :: "store \<Rightarrow> session \<Rightarrow> string \<Rightarrow> path" where
  "park_dir st s reason = st_failed st @ [reason @ ''-'' @ last (s_dir s)]"

definition park :: "disk \<Rightarrow> store \<Rightarrow> session \<Rightarrow> string \<Rightarrow> disk \<times> session \<times> bool" where
  "park os st s reason =
     (let dest = park_dir st s reason; (os1, ok) = os_rename os (s_dir s) dest
      in if ok then (os1, s\<lparr>s_dir := dest\<rparr>, True)
         else (fst (os_remove_all os1 (s_dir s)), s, False))"

text \<open>\<open>SweepFailed\<close>: an entry goes unless its modification time is after the cut-off.\<close>

fun sweep_entries :: "disk \<Rightarrow> path \<Rightarrow> int \<Rightarrow> (string \<times> bool) list \<Rightarrow> disk \<times> nat" where
  "sweep_entries os failed cutoff [] = (os, 0)"
| "sweep_entries os failed cutoff ((name, d) # es) =
     (let (os1, info) = os_stat os (failed @ [name]) in
      case info of
        None \<Rightarrow> sweep_entries os1 failed cutoff es
      | Some (sz, mtime) \<Rightarrow>
          if cutoff < mtime then sweep_entries os1 failed cutoff es
          else (let (os2, ok) = os_remove_all os1 (failed @ [name]);
                    (os3, n) = sweep_entries os2 failed cutoff es
                in (os3, if ok then Suc n else n)))"

definition sweep_failed :: "disk \<Rightarrow> store \<Rightarrow> int \<Rightarrow> disk \<times> nat" where
  "sweep_failed os st ttl =
     (case os_read_dir os (st_failed st) of
        (os1, None) \<Rightarrow> (os1, 0)
      | (os1, Some es) \<Rightarrow> sweep_entries os1 (st_failed st) (clock os1 + wrap64 (- ttl)) es)"

text \<open>\<open>PreviewPath\<close>: None for Go's empty string.\<close>

definition preview_path :: "disk \<Rightarrow> session \<Rightarrow> disk \<times> path option" where
  "preview_path os s =
     (let p = s_dir s @ [preview_file]; (os1, info) = os_stat os p
      in (os1, case info of None \<Rightarrow> None | Some (sz, m) \<Rightarrow> if sz = 0 then None else Some p))"

section \<open>Directory names\<close>

interpretation dirname: ascii_filter name_rune 95
  by unfold_locales (auto simp: name_rune_def)

definition plain_component :: "string \<Rightarrow> bool" where
  "plain_component c \<longleftrightarrow> c \<noteq> [] \<and> c \<noteq> ''.'' \<and> c \<noteq> ''..'' \<and> CHR ''/'' \<notin> set c \<and> CHR 0x00 \<notin> set c"

lemma name_rune_unknown: "c \<in> set ''unknown'' \<Longrightarrow> name_rune (byte c)"
  by (auto simp: name_rune_def byte_def)

lemma sanitize_bytes: "c \<in> set (sanitize s) \<Longrightarrow> name_rune (byte c)"
  using dirname.all_bytes_ok name_rune_unknown
  by (auto simp: sanitize_def Let_def simp del: list.set split: if_splits)

lemma sanitize_nonempty [simp]: "sanitize s \<noteq> []"
  by (simp add: sanitize_def Let_def)

lemma sanitize_id: "s \<noteq> [] \<Longrightarrow> \<forall>c \<in> set s. name_rune (byte c) \<Longrightarrow> sanitize s = s"
  by (simp add: sanitize_def dirname.filter_id)


lemma name_rune_not_special: "name_rune (byte c) \<Longrightarrow> c \<noteq> CHR ''/'' \<and> c \<noteq> CHR 0x00 \<and> c \<noteq> CHR ''.''"
  by (auto simp: name_rune_def byte_def)

lemma sanitize_plain: "plain_component (''job-'' @ sanitize s)"
  using name_rune_not_special [OF sanitize_bytes, of _ s]
  by (auto simp: plain_component_def)

text \<open>Every job directory is one plain component below the staging root: no task id, however
  hostile, escapes the root or collides with the directory of failed jobs.\<close>

theorem job_dir_confined:
  "\<exists>c. job_dir st tid = st_root st @ [c] \<and> plain_component c \<and> c \<noteq> ''failed''
     \<and> has_prefix c ''job-''"
  by (rule exI [of _ "''job-'' @ sanitize tid"]) (use sanitize_plain [of tid] in \<open>simp add: job_dir_def has_prefix_def\<close>)

text \<open>Sanitising is idempotent, and on ids made of letters, digits, hyphens and underscores,
  which is what the printer sends, different jobs get different directories.\<close>

theorem job_dir_distinct:
  assumes "a \<noteq> []" and "b \<noteq> []" and "\<forall>c \<in> set (a @ b). name_rune (byte c)" and "a \<noteq> b"
  shows "job_dir st a \<noteq> job_dir st b \<and> job_dir st (sanitize x) = job_dir st x"
  using assms sanitize_bytes by (auto simp: job_dir_def sanitize_id)

section \<open>Statistics\<close>

definition temps_adds :: "temps \<Rightarrow> f64 list \<Rightarrow> temps" where
  "temps_adds t vs = foldl temps_add t vs"

lemma f64_less_NaN [simp]: "\<not> f64_less NaN v" "\<not> f64_less v NaN"
  by (simp_all add: f64_less_def)

lemma f64_not_less_step: "\<not> f64_less p v \<Longrightarrow> f64_less p w \<Longrightarrow> \<not> f64_less w v"
  by (cases p; cases v; cases w) (auto simp: f64_less_def)

lemma f64_less_le_trans: "f64_less p v \<Longrightarrow> \<not> f64_less w v \<Longrightarrow> w \<noteq> NaN \<Longrightarrow> f64_less p w"
  by (cases p; cases v; cases w) (auto simp: f64_less_def)

lemma f64_less_irrefl [simp]: "\<not> f64_less v v"
  by (cases v) (simp_all add: f64_less_def)

lemma temps_add_NaN: "t_sum (temps_add t NaN) = NaN"
  by (simp add: temps_add_def f64_le_def f64_add_def)

lemma temps_add_keeps_NaN: "t_sum t = NaN \<Longrightarrow> t_sum (temps_add t v) = NaN"
  by (simp add: temps_add_def f64_add_def)

lemma temps_adds_keeps_NaN: "t_sum t = NaN \<Longrightarrow> t_sum (temps_adds t vs) = NaN"
  unfolding temps_adds_def
  by (induction vs arbitrary: t) (simp_all add: temps_add_keeps_NaN)

lemma temps_adds_snoc: "temps_adds t (vs @ [v]) = temps_add (temps_adds t vs) v"
  by (simp add: temps_adds_def)

lemma temps_adds_invariant:
  "t_count (temps_adds zero_temps vs) = int (length (filter (\<lambda>v. \<not> f64_le v (Fin 0)) vs))
    \<and> t_peak (temps_adds zero_temps vs) \<in> insert (Fin 0) (set vs)
    \<and> \<not> f64_less (t_peak (temps_adds zero_temps vs)) (Fin 0)
    \<and> (\<forall>v \<in> set vs. \<not> f64_less (t_peak (temps_adds zero_temps vs)) v)"
proof (induction vs rule: rev_induct)
  case Nil
  show ?case by (simp add: temps_adds_def zero_temps_def)
next
  case (snoc v vs)
  let ?t = "temps_adds zero_temps vs"
  show ?case
  proof (cases "f64_le v (Fin 0)")
    case True
    then have "\<not> f64_less (t_peak ?t) v"
      using f64_less_le_trans [of "t_peak ?t" v "Fin 0"] snoc by (auto simp: f64_le_def)
    with True snoc show ?thesis by (auto simp: temps_adds_snoc temps_add_def)
  next
    case False
    with snoc f64_less_le_trans [of v "Fin 0" "t_peak ?t"] f64_less_le_trans [of v _ "t_peak ?t"]
    show ?thesis
      by (cases "f64_less (t_peak ?t) v"; cases "t_peak ?t = NaN")
         (auto simp: temps_adds_snoc temps_add_def dest: f64_not_less_step)
  qed
qed

text \<open>The temperature statistics count the samples that are not zero or below, and the peak is
  a sample (or the initial zero) that no sample exceeds.\<close>

theorem temps_peak_count:
  "t_count (temps_adds zero_temps vs) = int (length (filter (\<lambda>v. \<not> f64_le v (Fin 0)) vs))
    \<and> t_peak (temps_adds zero_temps vs) \<in> insert (Fin 0) (set vs)
    \<and> (\<forall>v \<in> set vs. \<not> f64_less (t_peak (temps_adds zero_temps vs)) v)"
  using temps_adds_invariant [of vs] by blast

text \<open>One sample that is not a number, which the printer's stringified temperatures can carry,
  ends the persistence of a session: from then on, whatever is measured, every \<open>Save\<close> fails and
  the state file stays as it was.\<close>

theorem nan_stops_saving:
  "save os (s\<lparr>s_nozzle := temps_adds (temps_add t NaN) vs\<rparr>) = (os, False)"
  using temps_adds_keeps_NaN [OF temps_add_NaN]
  by (simp add: save_def marshal_def temps_finite_def)

section \<open>Saving and loading\<close>

lemma save_marshal_dir [simp]: "marshal (s\<lparr>s_dir := d\<rparr>) = marshal s"
  by (simp add: marshal_def)

lemma tmp_not_prefix:
  "\<not> prefix (d @ [state_file @ ''.tmp'']) (d @ [state_file])"
  "\<not> prefix (d @ [state_file]) (d @ [state_file @ ''.tmp''])"
  by (auto simp: state_file_def prefix_def)

lemma prefix_snoc_eq: "prefix (d @ [x]) (d @ [y]) \<longleftrightarrow> x = y"
  by (auto simp: prefix_def)

text \<open>
  \<open>Save\<close> under any schedule of failures: the state file holds what it held before or the whole
  new document, and nothing but it and the temporary file is touched.
\<close>

lemma save_ok:
  assumes "save os s = (os', True)"
  shows "file_at os' (s_dir s @ [state_file]) = Some (Doc (s\<lparr>s_dir := []\<rparr>))"
proof -
  let ?tmp = "s_dir s @ [state_file @ ''.tmp'']" and ?fin = "s_dir s @ [state_file]"
  obtain os1 where w: "os_write os ?tmp (Doc (s\<lparr>s_dir := []\<rparr>)) = (os1, True)"
    and r: "os_rename os1 ?tmp ?fin = (os', True)"
    using assms by (auto simp: save_def marshal_def Let_def split: if_splits prod.splits)
  have "?tmp \<noteq> ?fin" by (simp add: state_file_def)
  from os_rename_ok(1) [OF r this tmp_not_prefix(2), of ?fin] os_write_ok(1) [OF w, of ?tmp]
  show ?thesis by simp
qed

lemma save_failed:
  assumes "\<not> snd (save os s)"
  shows "file_at (fst (save os s)) (s_dir s @ [state_file]) = file_at os (s_dir s @ [state_file])"
proof (cases "marshal s")
  case (Some d)
  let ?tmp = "s_dir s @ [state_file @ ''.tmp'']" and ?fin = "s_dir s @ [state_file]"
  obtain os1 ok where w: "os_write os ?tmp (Doc d) = (os1, ok)" by fastforce
  have "?fin \<noteq> ?tmp" by (simp add: state_file_def)
  then have o: "file_at os1 ?fin = file_at os ?fin"
    using os_write_other [of ?fin ?tmp os "Doc d"] w by simp
  show ?thesis
  proof (cases ok)
    case True
    then have "\<not> snd (os_rename os1 ?tmp ?fin)" and
      "fst (save os s) = fst (os_rename os1 ?tmp ?fin)"
      using assms Some w by (simp_all add: save_def)
    with views_tree(1) [OF os_rename_failed, of os1 ?tmp ?fin] o show ?thesis by simp
  next
    case False
    with Some w o show ?thesis by (simp add: save_def)
  qed
qed (simp add: save_def)

lemma prefix_snoc_other: "prefix (d @ [x]) q \<Longrightarrow> \<not> prefix d q \<Longrightarrow> False"
  by (auto simp: prefix_def)

lemma save_other:
  assumes "q \<noteq> s_dir s @ [state_file]" and "q \<noteq> s_dir s @ [state_file @ ''.tmp'']"
    and "\<not> prefix (s_dir s @ [state_file]) q" and "\<not> prefix (s_dir s @ [state_file @ ''.tmp'']) q"
  shows "file_at (fst (save os s)) q = file_at os q"
proof (cases "marshal s")
  case (Some d)
  let ?tmp = "s_dir s @ [state_file @ ''.tmp'']" and ?fin = "s_dir s @ [state_file]"
  obtain os1 ok where w: "os_write os ?tmp (Doc d) = (os1, ok)" by fastforce
  have o: "file_at os1 q = file_at os q" using os_write_other [of q ?tmp os "Doc d"] w assms(2) by simp
  show ?thesis
  proof (cases ok)
    case True
    obtain os2 ok2 where r: "os_rename os1 ?tmp ?fin = (os2, ok2)" by fastforce
    have ne: "?tmp \<noteq> ?fin" by (simp add: state_file_def)
    have "file_at os2 q = file_at os1 q"
    proof (cases ok2)
      case True
      with r have "os_rename os1 ?tmp ?fin = (os2, True)" by simp
      from os_rename_ok(1) [OF this ne tmp_not_prefix(2), of q] assms(3,4) show ?thesis by simp
    next
      case False
      with r have "\<not> snd (os_rename os1 ?tmp ?fin)" by simp
      from views_tree(1) [OF os_rename_failed [OF this]] r show ?thesis by simp
    qed
    with True Some w r o show ?thesis by (simp add: save_def)
  next
    case False
    with Some w o show ?thesis by (simp add: save_def)
  qed
qed (simp add: save_def)

text \<open>C19: \<open>Save\<close> is atomic. However its two calls end, including a write cut short by a crash,
  the state file afterwards is the complete new document exactly when \<open>Save\<close> reports success,
  and byte for byte the old file otherwise.\<close>

theorem save_atomic:
  "file_at (fst (save os s)) (s_dir s @ [state_file]) =
     (if snd (save os s) then Some (Doc (s\<lparr>s_dir := []\<rparr>))
      else file_at os (s_dir s @ [state_file]))"
proof (cases "snd (save os s)")
  case True
  then have "save os s = (fst (save os s), True)" by (metis prod.collapse)
  from save_ok [OF this] True show ?thesis by simp
next
  case False
  then show ?thesis by (simp add: save_failed)
qed

lemma load_file:
  assumes "outcomes os (tick os) = Works"
  shows "snd (load os dir) =
    (case file_at os (dir @ [state_file]) of Some (Doc d) \<Rightarrow> Some (d\<lparr>s_dir := dir\<rparr>) | _ \<Rightarrow> None)"
  using assms by (simp add: load_def os_read_def syscall_def Let_def)

lemma load_tree [simp]: "tree (fst (load os dir)) = tree os"
  using os_read_tree [of os "dir @ [state_file]"]
  by (cases "os_read os (dir @ [state_file])") (simp add: load_def)


text \<open>A new session. Where nothing readable is stored for the task, \<open>Create\<close> either fails or
  returns a session that starts now with no frames and no layer, is marked partial exactly when
  the print was already past layer 1, and is already on disk.\<close>

theorem create_fresh:
  assumes "snd (load os (job_dir st tid)) = None"
    and "create os st tid name tot cur = (os', Some (s, resumed))"
  shows "\<not> resumed \<and> s_task s = tid \<and> s_job s = name \<and> s_total s = tot \<and> s_frames s = 0
    \<and> s_layers s = [] \<and> s_last_layer s = - 1 \<and> (s_partial s \<longleftrightarrow> 1 < cur)
    \<and> s_dir s = job_dir st tid
    \<and> file_at os' (job_dir st tid @ [state_file]) = Some (Doc (s\<lparr>s_dir := []\<rparr>))"
proof -
  obtain os1 os2 where l: "load os (job_dir st tid) = (os1, None)"
    and m: "os_mkdir_all os1 (job_dir st tid) = (os2, True)"
    and s: "s = fresh_session os2 (job_dir st tid) tid name tot cur" "\<not> resumed"
    and sv: "save os2 s = (os', True)"
    using assms by (auto simp: create_def Let_def split: prod.splits if_splits)
  have "s_dir s = job_dir st tid" using s by (simp add: fresh_session_def)
  with save_ok [OF sv] s show ?thesis by (simp add: fresh_session_def)
qed

section \<open>Parking, sweeping and listing\<close>

lemma park_paths:
  assumes "st_failed st = st_root st @ [''failed'']" and "s_dir s = job_dir st tid"
  shows "\<not> prefix (park_dir st s reason) (s_dir s)" and "\<not> prefix (s_dir s) (park_dir st s reason)"
    and "s_dir s \<noteq> park_dir st s reason"
  using assms by (auto simp: park_dir_def job_dir_def prefix_def)

text \<open>C23: a job that is parked is kept whole: every file of its directory is afterwards found
  under \<open>failed/\<close> below the reason's name, none is left behind, and no other file is touched.\<close>

theorem park_moves_everything:
  assumes "park os st s reason = (os', s', True)"
    and "st_failed st = st_root st @ [''failed'']" and "s_dir s = job_dir st tid"
  shows "s_dir s' = park_dir st s reason
    \<and> (\<forall>r. file_at os' (park_dir st s reason @ r) = file_at os (s_dir s @ r)
           \<and> file_at os' (s_dir s @ r) = None)
    \<and> (\<forall>q. \<not> prefix (s_dir s) q \<and> \<not> prefix (park_dir st s reason) q \<longrightarrow> file_at os' q = file_at os q)"
proof -
  let ?d = "park_dir st s reason"
  have r: "os_rename os (s_dir s) ?d = (os', True)" and s': "s_dir s' = ?d"
    using assms(1) by (auto simp: park_def Let_def split: prod.splits if_splits)
  note np = park_paths [OF assms(2,3), of reason]
  have "\<not> prefix ?d (s_dir s @ x)" for x
    using np by (auto simp: prefix_append)
  with os_rename_ok(1) [OF r np(3,1)] np(2) s' show ?thesis by auto
qed

text \<open>C39: parking never keeps a job it cannot move. When the directory it would go to is already
  there, as it is after the same task was parked before under the same reason, \<open>Park\<close> reports an
  error and has deleted the job: no file of it is left anywhere it was.\<close>

theorem park_collision_deletes:
  assumes "is_dir os (park_dir st s reason)" and "outcomes os (Suc (tick os)) = Works"
  shows "\<not> snd (snd (park os st s reason))
    \<and> file_at (fst (park os st s reason)) (s_dir s @ r) = None"
proof -
  let ?d = "park_dir st s reason"
  have r: "os_rename os (s_dir s) ?d = (os\<lparr>tick := Suc (tick os)\<rparr>, False)"
    using assms(1) by (simp add: os_rename_def syscall_def can_rename_def)
  obtain os' ok where d: "os_remove_all (os\<lparr>tick := Suc (tick os)\<rparr>) (s_dir s) = (os', ok)"
    by fastforce
  with os_remove_all_works [of "os\<lparr>tick := Suc (tick os)\<rparr>" "s_dir s"] assms(2) have ok by simp
  with d have "file_at os' (s_dir s @ r) = None"
    using os_remove_all_ok(1) [of "os\<lparr>tick := Suc (tick os)\<rparr>" "s_dir s" os' "s_dir s @ r"] by simp
  with r d show ?thesis by (simp add: park_def)
qed

definition expired :: "disk \<Rightarrow> path \<Rightarrow> int \<Rightarrow> string \<Rightarrow> bool" where
  "expired os failed cutoff name =
     (case node_at os (failed @ [name]) of None \<Rightarrow> False | Some n \<Rightarrow> node_mtime n \<le> cutoff)"

lemma sweep_entries_spec:
  assumes "\<forall>n. outcomes os n = Works" and "distinct (map fst es)"
  shows "snd (sweep_entries os failed cutoff es) = length (filter (expired os failed cutoff) (map fst es))
    \<and> (\<forall>q. file_at (fst (sweep_entries os failed cutoff es)) q =
         (if \<exists>n \<in> fst ` set es. expired os failed cutoff n \<and> prefix (failed @ [n]) q
          then None else file_at os q))"
  using assms
proof (induction es arbitrary: os)
  case (Cons e es)
  obtain name d where e: "e = (name, d)" by fastforce
  obtain os1 info where st: "os_stat os (failed @ [name]) = (os1, info)" by fastforce
  have t1: "tree os1 = tree os" using os_stat_tree [of os "failed @ [name]"] st by simp
  have o1: "\<forall>n. outcomes os1 n = Works"
    using os_stat_frame(2) [of os "failed @ [name]"] st Cons.prems by simp
  have info: "info = map_option (\<lambda>n. (node_size n, node_mtime n)) (node_at os (failed @ [name]))"
    using os_stat_works [of os "failed @ [name]"] st Cons.prems by simp
  have ex1: "expired os1 failed cutoff n = expired os failed cutoff n" for n
    by (simp add: expired_def views_tree(3) [OF t1])
  show ?case
  proof (cases "expired os failed cutoff name")
    case False
    then have "sweep_entries os failed cutoff (e # es) = sweep_entries os1 failed cutoff es"
      using st info by (auto simp: e expired_def split: option.splits)
    with False Cons.IH [OF o1] Cons.prems(2) show ?thesis
      by (auto simp: e ex1 views_tree(1) [OF t1])
  next
    case True
    obtain os2 ok where rm: "os_remove_all os1 (failed @ [name]) = (os2, ok)" by fastforce
    have ok: ok using os_remove_all_works [of os1 "failed @ [name]"] o1 rm by simp
    note rm' = rm [unfolded eqTrueI [OF ok]]
    have o2: "\<forall>n. outcomes os2 n = Works"
      using os_remove_all_frame(2) [of os1 "failed @ [name]"] rm o1 by simp
    have ex2: "expired os2 failed cutoff n = expired os failed cutoff n" if "n \<noteq> name" for n
    proof -
      have "node_at os2 (failed @ [n]) = node_at os1 (failed @ [n])"
        using os_remove_all_node [OF rm', of "failed @ [n]"] that
        by (simp add: parent_def prefix_def)
      then show ?thesis by (simp add: expired_def views_tree(3) [OF t1])
    qed
    have f2: "file_at os2 q = (if prefix (failed @ [name]) q then None else file_at os q)" for q
      using os_remove_all_ok(1) [OF rm'] by (simp add: views_tree(1) [OF t1])
    have names: "\<forall>n \<in> fst ` set es. n \<noteq> name" using Cons.prems(2) by (auto simp: e)
    have sw: "sweep_entries os failed cutoff (e # es) =
        (fst (sweep_entries os2 failed cutoff es), Suc (snd (sweep_entries os2 failed cutoff es)))"
      using st info True rm ok by (auto simp: e expired_def split: option.splits prod.splits)
    have "filter (expired os2 failed cutoff) (map fst es)
        = filter (expired os failed cutoff) (map fst es)"
      using ex2 names by (intro filter_cong) auto
    moreover have "(\<exists>n \<in> fst ` set es. expired os2 failed cutoff n \<and> prefix (failed @ [n]) q)
        = (\<exists>n \<in> fst ` set es. expired os failed cutoff n \<and> prefix (failed @ [n]) q)" for q
      using ex2 names by (intro bex_cong) auto
    ultimately have IH: "snd (sweep_entries os2 failed cutoff es)
          = length (filter (expired os failed cutoff) (map fst es))
        \<and> (\<forall>q. file_at (fst (sweep_entries os2 failed cutoff es)) q =
           (if \<exists>n \<in> fst ` set es. expired os failed cutoff n \<and> prefix (failed @ [n]) q
            then None else file_at os2 q))"
      using Cons.IH [OF o2] Cons.prems(2) by simp
    show ?thesis unfolding sw using IH True by (auto simp: e f2)
  qed
qed simp



section \<open>Listing\<close>

lemma load_outcomes [simp]: "outcomes (fst (load os dir)) = outcomes os"
  using os_read_frame(2) [of os "dir @ [state_file]"]
  by (cases "os_read os (dir @ [state_file])") (simp add: load_def)

definition stored :: "disk \<Rightarrow> path \<Rightarrow> string \<Rightarrow> session option" where
  "stored os base n =
     (case file_at os (base @ [n, state_file]) of
        Some (Doc d) \<Rightarrow> Some (d\<lparr>s_dir := base @ [n]\<rparr>) | _ \<Rightarrow> None)"

lemma load_stored: "outcomes os (tick os) = Works \<Longrightarrow> snd (load os (base @ [n])) = stored os base n"
  by (simp add: load_file stored_def)

lemma load_all_spec:
  assumes "\<forall>n. outcomes os n = Works"
  shows "set (snd (load_all os base es)) =
    {s. \<exists>n. (n, True) \<in> set es \<and> has_prefix n ''job-'' \<and> stored os base n = Some s}"
  using assms
proof (induction os base es rule: load_all.induct)
  case (2 os base name dir es)
  obtain os1 x where l: "load os (base @ [name]) = (os1, x)" by fastforce
  have x: "x = stored os base name" using load_stored [of os base name] l "2.prems" by simp
  have o1: "\<forall>n. outcomes os1 n = Works" using load_outcomes [of os "base @ [name]"] l "2.prems" by simp
  have t1: "tree os1 = tree os" using load_tree [of os "base @ [name]"] l by simp
  have st1: "stored os1 base n = stored os base n" for n
    by (simp add: stored_def views_tree(1) [OF t1])
  show ?case
  proof (cases "dir \<and> has_prefix name ''job-''")
    case False
    with "2.IH"(1) "2.prems" show ?thesis by auto
  next
    case True
    with "2.IH"(2) [OF _ l [symmetric] refl o1]
    have "set (snd (load_all os1 base es)) =
      {s. \<exists>n. (n, True) \<in> set es \<and> has_prefix n ''job-'' \<and> stored os base n = Some s}"
      by (simp add: st1)
    with True l x show ?thesis by (auto split: option.splits prod.splits)
  qed
qed simp

text \<open>What a boot finds. When no call fails, \<open>List\<close> returns exactly the sessions whose state file
  parses in a directory named \<open>job-\<close> something below the staging root, each knowing that
  directory, and a later start comes before an earlier one.\<close>

theorem list_sessions_complete:
  assumes "\<forall>n. outcomes os n = Works" and "is_dir os (st_root st)"
  shows "\<exists>xs. snd (list_sessions os st) = Some xs
    \<and> sorted (map (\<lambda>s. - unix_ns (s_started s)) xs)
    \<and> set xs = {s. \<exists>n. has_prefix n ''job-'' \<and> is_dir os (st_root st @ [n])
                     \<and> stored os (st_root st) n = Some s}"
proof -
  let ?r = "st_root st"
  obtain os1 r where d: "os_read_dir os ?r = (os1, r)" by fastforce
  have r: "r = Some (dir_entries os ?r)" using os_read_dir_works [of os ?r] assms d by simp
  have t1: "tree os1 = tree os" using os_read_dir_tree [of os ?r] d by simp
  have o1: "\<forall>n. outcomes os1 n = Works" using os_read_dir_frame [of os ?r] d assms(1) by simp
  have st1: "stored os1 ?r n = stored os ?r n" for n by (simp add: stored_def views_tree(1) [OF t1])
  have ex: "node_at os p \<noteq> None" if "is_dir os p" for p using that by (auto simp: is_dir_def elim: is_dir_node.elims)
  have "set (snd (load_all os1 ?r (dir_entries os ?r))) =
    {s. \<exists>n. has_prefix n ''job-'' \<and> is_dir os (?r @ [n]) \<and> stored os ?r n = Some s}"
    using ex unfolding load_all_spec [OF o1] dir_entries_iff st1 by blast
  then show ?thesis using d r by (auto simp: list_sessions_def split: prod.splits)
qed

section \<open>Frames\<close>

lemma frame_name_inj: "0 \<le> m \<Longrightarrow> 0 \<le> n \<Longrightarrow> frame_name m = frame_name n \<longleftrightarrow> m = n"
  using fmt_0d_inj [of 5 "nat m" "nat n"] by (auto simp: frame_name_def)

lemma frame_name_not_state:
  "frame_name n \<noteq> state_file" "frame_name n \<noteq> state_file @ ''.tmp''" "frame_name n \<noteq> preview_file"
  by (simp_all add: frame_name_def state_file_def preview_file_def)

section \<open>Witnesses\<close>

definition sample_store :: store where
  "sample_store = \<lparr>st_root = [''staging''], st_failed = [''staging'', ''failed'']\<rparr>"

definition sample_session :: session where
  "sample_session =
     \<lparr>s_task = ''42'', s_job = ''Bracket'', s_started = Time 5 0, s_frames = 2, s_last_layer = 9,
      s_total = 120, s_layers = [7, 9], s_nozzle = zero_temps, s_bed = zero_temps,
      s_filament = [], s_pauses = 0, s_partial = False, s_dir = [''staging'', ''job-42'']\<rparr>"

definition sample_disk :: disk where
  "sample_disk =
     \<lparr>tree = [([], Dir 0), ([''staging''], Dir 0), ([''staging'', ''failed''], Dir 0),
              ([''staging'', ''failed'', ''old''], Dir 1), ([''staging'', ''failed'', ''new''], Dir 90),
              ([''staging'', ''failed'', ''full-job-42''], Dir 90),
              ([''staging'', ''job-42''], Dir 0),
              ([''staging'', ''job-42'', ''state.json''], File (Doc (sample_session\<lparr>s_dir := []\<rparr>)) 3)],
      clock = 100, zone = 0, tick = 0, outcomes = (\<lambda>n. Works)\<rparr>"

lemmas samples = sample_store_def sample_session_def sample_disk_def

theorem job_dir_distinct_witness:
  "job_dir sample_store ''123'' \<noteq> job_dir sample_store ''124''
    \<and> job_dir sample_store (sanitize ''../etc'') = job_dir sample_store ''../etc''"
  by (rule job_dir_distinct) (simp_all add: name_rune_def byte_def)

theorem temps_peak_count_witness: "\<not> f64_less (t_peak (temps_adds zero_temps [Fin 3, Fin 5])) (Fin 5)"
  using temps_peak_count [of "[Fin 3, Fin 5]"] by simp


theorem create_fresh_witness:
  "s_partial (fst (the (snd (create sample_disk sample_store ''43'' ''Lid'' 50 3))))"
proof -
  let ?c = "create sample_disk sample_store ''43'' ''Lid'' 50 3"
  have "snd (load sample_disk (job_dir sample_store ''43'')) = None" by code_simp
  moreover have "?c = (fst ?c, Some (fst (the (snd ?c)), False))" by (rule result_pair) code_simp
  ultimately show ?thesis by (auto dest: create_fresh)
qed

theorem park_moves_everything_witness:
  "file_at (fst (park sample_disk sample_store sample_session ''upload-failed''))
     (park_dir sample_store sample_session ''upload-failed'' @ [''state.json''])
   = Some (Doc (sample_session\<lparr>s_dir := []\<rparr>))"
proof -
  let ?p = "park sample_disk sample_store sample_session ''upload-failed''"
  have "?p = (fst ?p, fst (snd ?p), True)" by (rule result_triple) code_simp
  moreover have "st_failed sample_store = st_root sample_store @ [''failed'']"
    "s_dir sample_session = job_dir sample_store ''42''" by code_simp+
  ultimately have "file_at (fst ?p) (park_dir sample_store sample_session ''upload-failed'' @ [''state.json''])
      = file_at sample_disk (s_dir sample_session @ [''state.json''])"
    using park_moves_everything by blast
  also have "\<dots> = Some (Doc (sample_session\<lparr>s_dir := []\<rparr>))" by code_simp
  finally show ?thesis .
qed

theorem park_collision_deletes_witness:
  "\<not> snd (snd (park sample_disk sample_store sample_session ''full''))
    \<and> file_at (fst (park sample_disk sample_store sample_session ''full''))
        (s_dir sample_session @ [''state.json'']) = None"
  by (rule park_collision_deletes) (code_simp, code_simp)


theorem list_sessions_complete_witness:
  "\<exists>xs. snd (list_sessions sample_disk sample_store) = Some xs \<and> sample_session \<in> set xs"
proof -
  have w: "\<forall>n. outcomes sample_disk n = Works" by (simp add: sample_disk_def)
  have d: "is_dir sample_disk (st_root sample_store)" by code_simp
  have "has_prefix ''job-42'' ''job-'' \<and> is_dir sample_disk (st_root sample_store @ [''job-42''])
      \<and> stored sample_disk (st_root sample_store) ''job-42'' = Some sample_session" by code_simp
  then show ?thesis using list_sessions_complete [OF w d] by auto
qed

end
