(* ===== verification/Camera.thy ===== *)
theory Camera
  imports Filesystem Go_Strings "HOL-Library.Code_Target_Numeral"
begin

text \<open>
  \<open>internal/camera/camera.go\<close>, \<open>support.go\<close> and \<open>font.go\<close>: running ffmpeg and ffprobe. What a run
  does is not this program's code: every run takes the next entry of a schedule of runs, so a
  theorem holds whatever the tools do. The log keeps the argument lists the program built.
\<close>

section \<open>Processes\<close>

text \<open>A run: whether it exited with success, what it printed, and what it left in its output file.\<close>

datatype run = Run (exit_ok: bool) (printed: bytes) (written: "bytes option")

record 'd world =
  w_os :: "'d os"
  w_runs :: "nat \<Rightarrow> run"
  w_next :: nat
  w_log :: "(string \<times> string list) list"

text \<open>An absolute path as the string the tools are given.\<close>

definition show_path :: "path \<Rightarrow> string" where
  "show_path p = concat (map (\<lambda>c. ''/'' @ c) p)"

definition leave_file :: "'d os \<Rightarrow> path \<Rightarrow> bytes option \<Rightarrow> 'd os" where
  "leave_file os p b = (case b of None \<Rightarrow> os | Some c \<Rightarrow> if writable os p then put_file os p (Bytes c) else os)"

definition exec :: "'d world \<Rightarrow> string \<Rightarrow> string list \<Rightarrow> 'd world \<times> run" where
  "exec w bin args =
     (w\<lparr>w_next := Suc (w_next w), w_log := w_log w @ [(bin, args)]\<rparr>, w_runs w (w_next w))"

definition exec_to :: "'d world \<Rightarrow> string \<Rightarrow> string list \<Rightarrow> path \<Rightarrow> 'd world \<times> run" where
  "exec_to w bin args dest =
     (let (w', r) = exec w bin args in (w'\<lparr>w_os := leave_file (w_os w') dest (written r)\<rparr>, r))"

definition on_os :: "('d os \<Rightarrow> 'd os \<times> 'a) \<Rightarrow> 'd world \<Rightarrow> 'd world \<times> 'a" where
  "on_os f w = (let (os', x) = f (w_os w) in (w\<lparr>w_os := os'\<rparr>, x))"

section \<open>Tools\<close>

record tools =
  ffmpeg_bin :: string
  ffprobe_bin :: string

definition new_tools :: "string \<Rightarrow> string \<Rightarrow> tools" where
  "new_tools mpeg probe =
     \<lparr>ffmpeg_bin = (if mpeg = [] then ''ffmpeg'' else mpeg),
      ffprobe_bin = (if probe = [] then ''ffprobe'' else probe)\<rparr>"

definition truncate_text :: "string \<Rightarrow> nat \<Rightarrow> string" where
  "truncate_text s n = (let t = trim_space s in if length t \<le> n then t else take n t)"

section \<open>The camera\<close>

definition rtsps_port :: string where "rtsps_port = ''322''"
definition grab_err_bytes :: nat where "grab_err_bytes = 300"
definition encode_err_bytes :: nat where "encode_err_bytes = 500"
definition dimension_parts :: nat where "dimension_parts = 2"

text \<open>\<open>url.QueryEscape\<close> and \<open>net.JoinHostPort\<close>.\<close>

definition hex_upper :: "nat \<Rightarrow> char" where
  "hex_upper d = (if d < 10 then chr (48 + d) else chr (55 + d))"

definition unreserved :: "char \<Rightarrow> bool" where
  "unreserved c \<longleftrightarrow>
     is_digit c \<or> (65 \<le> byte c \<and> byte c \<le> 90) \<or> (97 \<le> byte c \<and> byte c \<le> 122) \<or> c \<in> set ''-_.~''"

definition query_escape :: "string \<Rightarrow> string" where
  "query_escape s =
     concat (map (\<lambda>c. if unreserved c then [c] else if c = CHR '' '' then ''+''
                     else [CHR ''%'', hex_upper (byte c div 16), hex_upper (byte c mod 16)]) s)"

definition join_host_port :: "string \<Rightarrow> string \<Rightarrow> string" where
  "join_host_port host port =
     (if CHR '':'' \<in> set host then ''['' @ host @ '']:'' @ port else host @ '':'' @ port)"

record camera =
  cam_url :: string
  cam_timeout :: nanos
  cam_tools :: tools

definition new_camera :: "string \<Rightarrow> string \<Rightarrow> nanos \<Rightarrow> tools \<Rightarrow> camera" where
  "new_camera host code timeout t =
     \<lparr>cam_url = ''rtsps://bblp:'' @ query_escape code @ ''@'' @ join_host_port host rtsps_port
                 @ ''/streaming/live/1'',
      cam_timeout = timeout, cam_tools = t\<rparr>"

definition grab_args :: "camera \<Rightarrow> path \<Rightarrow> string list" where
  "grab_args c dest =
     [''-hide_banner'', ''-loglevel'', ''error'', ''-y'', ''-rtsp_transport'', ''tcp'', ''-tls_verify'', ''0'',
      ''-i'', cam_url c, ''-frames:v'', ''1'', ''-q:v'', ''2'', ''-update'', ''1'', show_path dest]"

definition drop_file :: "path \<Rightarrow> 'd world \<Rightarrow> 'd world" where
  "drop_file p w = fst (on_os (\<lambda>os. os_remove os p) w)"

text \<open>\<open>Grab\<close>: whether a frame was written.\<close>

definition grab :: "'d world \<Rightarrow> camera \<Rightarrow> path \<Rightarrow> 'd world \<times> bool" where
  "grab w c dest =
     (let (w1, r) = exec_to w (ffmpeg_bin (cam_tools c)) (grab_args c dest) dest in
      if \<not> exit_ok r then (drop_file dest w1, False)
      else (let (w2, info) = on_os (\<lambda>os. os_stat os dest) w1 in
            case info of
              None \<Rightarrow> (drop_file dest w2, False)
            | Some (sz, m) \<Rightarrow> if sz = 0 then (drop_file dest w2, False) else (w2, True)))"

text \<open>\<open>Crop\<close>.\<close>

definition crop_args :: "path \<Rightarrow> path \<Rightarrow> string \<Rightarrow> string list" where
  "crop_args src dst crop =
     [''-hide_banner'', ''-loglevel'', ''error'', ''-y'', ''-i'', show_path src, ''-vf'', ''crop='' @ crop,
      ''-q:v'', ''2'', ''-update'', ''1'', show_path dst]"

definition crop_image :: "'d world \<Rightarrow> tools \<Rightarrow> path \<Rightarrow> path \<Rightarrow> string \<Rightarrow> 'd world \<times> bool" where
  "crop_image w t src dst crop =
     (if crop = [] then (w, True)
      else (let (w1, r) = exec_to w (ffmpeg_bin t) (crop_args src dst crop) dst in (w1, exit_ok r)))"

text \<open>\<open>Dimensions\<close>: zeroes when ffprobe cannot tell; a number out of range reads as zero, except that
  \<open>Atoi\<close> returns the nearest 64-bit value with its error, which the code ignores.\<close>

definition atoi_ignoring :: "string \<Rightarrow> int" where
  "atoi_ignoring s =
     (case atoi s of
        Some n \<Rightarrow> n
      | None \<Rightarrow>
          (let neg = has_prefix s ''-''; t = (if neg \<or> has_prefix s ''+'' then tl s else s)
           in case parse_nat t of
                None \<Rightarrow> 0
              | Some n \<Rightarrow> if neg then - (2 ^ 63) else 2 ^ 63 - 1))"

definition probe_args :: "path \<Rightarrow> string list" where
  "probe_args p =
     [''-v'', ''error'', ''-select_streams'', ''v:0'', ''-show_entries'', ''stream=width,height'', ''-of'',
      ''csv=p=0:s=x'', show_path p]"

definition parse_dimensions :: "bytes \<Rightarrow> int \<times> int" where
  "parse_dimensions out =
     (case split_on (CHR ''x'') (trim_space out) of
        [a, b] \<Rightarrow> (atoi_ignoring a, atoi_ignoring b)
      | _ \<Rightarrow> (0, 0))"

definition dimensions :: "'d world \<Rightarrow> tools \<Rightarrow> path \<Rightarrow> 'd world \<times> (int \<times> int)" where
  "dimensions w t p =
     (let (w1, r) = exec w (ffprobe_bin t) (probe_args p)
      in (w1, if exit_ok r then parse_dimensions (printed r) else (0, 0)))"

section \<open>What this ffmpeg can do\<close>

definition filter_drawtext :: string where "filter_drawtext = ''drawtext''"
definition filter_sendcmd :: string where "filter_sendcmd = ''sendcmd''"
definition filter_tpad :: string where "filter_tpad = ''tpad''"
definition filter_concat :: string where "filter_concat = ''concat''"

definition known_filters :: "string list" where
  "known_filters = [filter_drawtext, filter_sendcmd, filter_tpad, filter_concat]"

record support =
  sup_ffmpeg :: string
  sup_ffprobe :: string
  sup_filters :: "string list"

definition has_filter :: "support \<Rightarrow> string \<Rightarrow> bool" where
  "has_filter sp f \<longleftrightarrow> f \<in> set (sup_filters sp)"

definition filter_of_line :: "string \<Rightarrow> string option" where
  "filter_of_line line =
     (case Go_Strings.fields line of
        flag # name # _ \<Rightarrow> if name \<in> set known_filters then Some name else None
      | _ \<Rightarrow> None)"

definition parse_filters :: "string \<Rightarrow> string list" where
  "parse_filters out = List.map_filter filter_of_line (split_on (chr 10) out)"

text \<open>\<open>Detect\<close>; what \<open>exec.LookPath\<close> finds is an argument.\<close>

definition detect :: "'d world \<Rightarrow> (string \<Rightarrow> string) \<Rightarrow> tools \<Rightarrow> 'd world \<times> support" where
  "detect w look_path t =
     (let sp = \<lparr>sup_ffmpeg = look_path (ffmpeg_bin t), sup_ffprobe = look_path (ffprobe_bin t),
                 sup_filters = []\<rparr>
      in if sup_ffmpeg sp = [] then (w, sp)
         else (let (w1, r) = exec w (ffmpeg_bin t) [''-hide_banner'', ''-filters'']
               in (w1, if exit_ok r then sp\<lparr>sup_filters := parse_filters (printed r)\<rparr> else sp)))"

section \<open>The bundled font\<close>

definition bundled_font_name :: string where "bundled_font_name = ''overlay-font.ttf''"

text \<open>\<open>BundledFont\<close>; the bytes of the font compiled into the binary are the argument \<open>ttf\<close>.\<close>

definition bundled_font :: "bytes \<Rightarrow> 'd os \<Rightarrow> path \<Rightarrow> 'd os \<times> path option" where
  "bundled_font ttf os dir =
     (let p = dir @ [bundled_font_name]; (os1, info) = os_stat os p in
      if (case info of Some (sz, m) \<Rightarrow> sz = length ttf | None \<Rightarrow> False) then (os1, Some p)
      else (let (os2, ok) = os_write os1 p (Bytes ttf) in (os2, if ok then Some p else None)))"

section \<open>What a grab leaves behind\<close>

lemma leave_file_other: "q \<noteq> p \<Longrightarrow> file_at (leave_file os p b) q = file_at os q"
  by (simp add: leave_file_def put_file_at split: option.split)

lemma leave_file_frame [simp]:
  "tick (leave_file os p b) = tick os" "outcomes (leave_file os p b) = outcomes os"
  "clock (leave_file os p b) = clock os" "zone (leave_file os p b) = zone os"
  by (simp_all add: leave_file_def put_file_def split: option.split)

lemma leave_file_is_dir: "is_dir (leave_file os p b) q = is_dir os q"
  by (simp add: leave_file_def put_file_is_dir writable_def split: option.split)

lemma exec_to_os: "w_os (fst (exec_to w bin args dest)) = leave_file (w_os w) dest (written (snd (exec_to w bin args dest)))"
  by (simp add: exec_to_def exec_def Let_def)

lemma on_os_fst [simp]: "w_os (fst (on_os f w)) = fst (f (w_os w))"
  by (simp add: on_os_def Let_def split: prod.split)

lemma on_os_snd [simp]: "snd (on_os f w) = snd (f (w_os w))"
  by (simp add: on_os_def Let_def split: prod.split)

lemma drop_file_other:
  assumes "q \<noteq> p" and "\<not> prefix p q"
  shows "file_at (w_os (drop_file p w)) q = file_at (w_os w) q"
  using assms
  by (auto simp: drop_file_def os_remove_def syscall_def Let_def file_at_def node_at_def del_tree_lookup)

lemma drop_file_gone:
  assumes "\<forall>n. outcomes (w_os w) n = Works" and "\<not> is_dir (w_os w) p"
    and "\<forall>x. node_at (w_os w) (p @ [x]) = None"
  shows "file_at (w_os (drop_file p w)) p = None"
proof -
  have "q \<notin> set (children (w_os w) p)" for q using assms(3) by (auto simp: children_iff)
  then have "children (w_os w) p = []" using last_in_set by blast
  with assms(1) show ?thesis
    by (auto simp: drop_file_def os_remove_def syscall_def Let_def file_at_def node_at_def
        del_tree_lookup)
qed

lemma exec_to_frame:
  "outcomes (w_os (fst (exec_to w bin args dest))) = outcomes (w_os w)"
  "is_dir (w_os (fst (exec_to w bin args dest))) q = is_dir (w_os w) q"
  "q \<noteq> dest \<Longrightarrow> file_at (w_os (fst (exec_to w bin args dest))) q = file_at (w_os w) q"
  by (simp_all add: exec_to_os leave_file_is_dir leave_file_other)

lemma grab_cases:
  obtains (ok) w1 sz m where "exec_to w (ffmpeg_bin (cam_tools c)) (grab_args c dest) dest = (w1, snd (exec_to w (ffmpeg_bin (cam_tools c)) (grab_args c dest) dest))"
    "grab w c dest = (fst (on_os (\<lambda>os. os_stat os dest) w1), True)"
    "snd (os_stat (w_os w1) dest) = Some (sz, m)" "sz \<noteq> 0"
  | (failed) w1 where "grab w c dest = (drop_file dest w1, False)"
    "tree (w_os w1) = tree (w_os (fst (exec_to w (ffmpeg_bin (cam_tools c)) (grab_args c dest) dest)))"
    "outcomes (w_os w1) = outcomes (w_os w)"
proof -
  obtain w1 r where e: "exec_to w (ffmpeg_bin (cam_tools c)) (grab_args c dest) dest = (w1, r)"
    by fastforce
  obtain w2 info where st: "on_os (\<lambda>os. os_stat os dest) w1 = (w2, info)" by fastforce
  have w2: "w_os w2 = fst (os_stat (w_os w1) dest)" "info = snd (os_stat (w_os w1) dest)"
    using on_os_fst [of "\<lambda>os. os_stat os dest" w1] on_os_snd [of "\<lambda>os. os_stat os dest" w1] st
    by simp_all
  have o1: "outcomes (w_os w1) = outcomes (w_os w)"
    using exec_to_frame(1) [where w = w and bin = "ffmpeg_bin (cam_tools c)" and dest = dest
        and args = "grab_args c dest"] e by simp
  show ?thesis
  proof (cases "\<not> exit_ok r \<or> info = None \<or> (\<exists>m. info = Some (0, m))")
    case True
    show ?thesis
    proof (cases "exit_ok r")
      case False
      then show ?thesis using e o1 by (intro failed [of w1]) (simp_all add: grab_def)
    next
      case okr: True
      then show ?thesis using True e o1 st w2 by (intro failed [of w2]) (auto simp: grab_def)
    qed
  next
    case False
    then obtain sz m where "info = Some (sz, m)" "sz \<noteq> 0" by (cases info) auto
    with False e st w2 show ?thesis by (intro ok [of w1 sz m]) (auto simp: grab_def)
  qed
qed


text \<open>The access code cannot break the stream's address: what is put between the user name and
  the host holds no character with a meaning there.\<close>

theorem access_code_escaped:
  "\<exists>a b. cam_url (new_camera host code timeout t) = a @ query_escape code @ b
     \<and> a = ''rtsps://bblp:'' \<and> b = ''@'' @ join_host_port host rtsps_port @ ''/streaming/live/1''
     \<and> set (query_escape code) \<inter> set ''@:/?#[] '' = {}"
proof -
  have hx: "unreserved (hex_upper d)" if "d < 16" for d
    using that by (auto simp: unreserved_def hex_upper_def is_digit_def)
  have "byte d div 16 < 16" "byte d mod 16 < 16" for d
    using byte_lt [of d] by (simp_all add: less_mult_imp_div_less)
  then have "unreserved d \<or> d = CHR ''+'' \<or> d = CHR ''%''" if "d \<in> set (query_escape code)" for d
    using that hx by (auto simp: query_escape_def split: if_splits)
  moreover have "\<not> unreserved d \<and> d \<noteq> CHR ''+'' \<and> d \<noteq> CHR ''%''" if "d \<in> set ''@:/?#[] ''" for d
    using that by (auto simp: unreserved_def is_digit_def byte_def)
  ultimately have "set (query_escape code) \<inter> set ''@:/?#[] '' = {}" by blast
  then show ?thesis by (simp add: new_camera_def)
qed

section \<open>Witnesses\<close>

definition busy_world :: "unit world" where
  "busy_world =
     \<lparr>w_os = \<lparr>tree = [([], Dir 0)], clock = 0, zone = 0, tick = 0, outcomes = (\<lambda>n. Works)\<rparr>,
      w_runs = (\<lambda>n. Run False ''busy'' (Some ''half a frame'')), w_next = 0, w_log = []\<rparr>"


end
