(* ===== verification/Encode.thy ===== *)
theory Encode
  imports Camera Rune_Filter Go_Float
begin

text \<open>
  \<open>internal/camera/encode.go\<close>: the final encode. The filtergraph, the per-frame caption commands
  and the argument list are built exactly as the code builds them; the encode itself is a run of
  the schedule in \<open>Camera\<close>.
\<close>

section \<open>Captions\<close>

definition frame_pattern :: string where "frame_pattern = ''frame-%05d.jpg''"
definition first_frame :: string where "first_frame = ''frame-00001.jpg''"
definition commands_file :: string where "commands_file = ''overlay.cmds''"
definition title_filter :: string where "title_filter = ''drawtext@title''"
definition counter_filter :: string where "counter_filter = ''drawtext@counter''"
definition font_divisor :: int where "font_divisor = 26"
definition box_border :: int where "box_border = 8"
definition title_baseline :: string where "title_baseline = ''h-2*th-h*0.055''"
definition counter_baseline :: string where "counter_baseline = ''h-th-h*0.03''"
definition overlay_left :: string where "overlay_left = ''w*0.02''"
definition command_lead :: f64 where "command_lead = Fin (1 / 4)"
definition time_digits :: nat where "time_digits = 3"

record overlay =
  ov_font :: string
  ov_title :: string
  ov_lines :: "string list"

definition quote_mark :: char where "quote_mark = chr 39"

text \<open>\<open>overlayText\<close>.\<close>

definition dropped :: string where
  "dropped = chr 92 # quote_mark # '':%,;[]=''"

definition caption_rune :: "rune \<Rightarrow> bool" where
  "caption_rune r \<longleftrightarrow> 32 \<le> r \<and> r \<notin> byte ` set dropped"

definition overlay_text :: "string \<Rightarrow> string" where
  "overlay_text s = trim_space (filter_runes caption_rune 32 s)"

text \<open>\<open>writeCommands\<close>: one command per frame, a quarter of a frame early.\<close>

definition command_time :: "nat \<Rightarrow> int \<Rightarrow> string" where
  "command_time i fps =
     (let due = f64_div (f64_sub (f64_of_int (int i)) command_lead) (f64_of_int fps)
      in fmt_fixed time_digits (if f64_less due (Fin 0) then Fin 0 else due))"

definition command :: "nat \<Rightarrow> int \<Rightarrow> string \<Rightarrow> string" where
  "command i fps line =
     command_time i fps @ '' '' @ counter_filter @ '' text '' @ [quote_mark] @ overlay_text line
     @ [quote_mark, CHR '';'', chr 10]"

definition commands_text :: "string list \<Rightarrow> int \<Rightarrow> string" where
  "commands_text ls fps = concat (map (\<lambda>(i, line). command i fps line) (enumerate 0 ls))"

definition write_commands :: "'d os \<Rightarrow> path \<Rightarrow> string list \<Rightarrow> int \<Rightarrow> 'd os \<times> bool" where
  "write_commands os p ls fps = os_write os p (Bytes (commands_text ls fps))"

text \<open>\<open>overlayFilters\<close>: None when the command file cannot be written.\<close>

definition drawtext_style :: "overlay \<Rightarrow> string" where
  "drawtext_style eo =
     ''fontfile='' @ ov_font eo @ '':x='' @ overlay_left @ '':fontsize=h/'' @ itoa font_divisor
     @ '':fontcolor=white:box=1:boxcolor=black@0.45:boxborderw='' @ itoa box_border"

definition drawtext :: "string \<Rightarrow> string \<Rightarrow> string \<Rightarrow> overlay \<Rightarrow> string" where
  "drawtext name txt baseline eo =
     name @ ''=text='' @ [quote_mark] @ overlay_text txt @ [quote_mark] @ '':y='' @ baseline @ '':''
     @ drawtext_style eo"

definition overlay_filters :: "'d os \<Rightarrow> path \<Rightarrow> overlay \<Rightarrow> int \<Rightarrow> 'd os \<times> string list option" where
  "overlay_filters os dir eo fps =
     (let title = drawtext title_filter (ov_title eo) title_baseline eo in
      case ov_lines eo of
        [] \<Rightarrow> (os, Some [title])
      | line # ls \<Rightarrow>
          (let p = dir @ [commands_file]; (os1, ok) = write_commands os p (line # ls) fps in
           if \<not> ok then (os1, None)
           else (os1, Some [''sendcmd=f='' @ show_path p, title,
                            drawtext counter_filter line counter_baseline eo])))"

section \<open>The filtergraph\<close>

record still =
  still_path :: "path option"
  still_hold :: nanos

definition shown :: "still \<Rightarrow> bool" where
  "shown s \<longleftrightarrow> still_path s \<noteq> None \<and> 0 < still_hold s"

record encode_options =
  eo_fps :: int
  eo_crop :: string
  eo_intro :: still
  eo_outro :: still
  eo_tail :: nanos
  eo_overlay :: "overlay option"

text \<open>\<open>seconds\<close>: the shortest decimal text of a duration in seconds.\<close>

definition seconds :: "nanos \<Rightarrow> string" where
  "seconds d = fmt_shortest (duration_seconds d)"

definition still_chain :: "int \<Rightarrow> string \<Rightarrow> int \<Rightarrow> int \<Rightarrow> int \<Rightarrow> string" where
  "still_chain input label width height fps =
     '';['' @ itoa input @ '':v]scale='' @ itoa width @ '':'' @ itoa height
     @ '':force_original_aspect_ratio=decrease,pad='' @ itoa width @ '':'' @ itoa height
     @ '':(ow-iw)/2:(oh-ih)/2:color=black,format=yuv420p,setsar=1,fps='' @ itoa fps @ ''['' @ label @ '']''"

text \<open>The filters of the footage itself, after the caption's.\<close>

definition crop_filter :: "encode_options \<Rightarrow> string list" where
  "crop_filter eo = (if eo_crop eo \<noteq> [] then [''crop='' @ eo_crop eo] else [])"

definition tail_filter :: "encode_options \<Rightarrow> string list" where
  "tail_filter eo =
     (if 0 < eo_tail eo \<and> \<not> shown (eo_outro eo)
      then [''tpad=stop_mode=clone:stop_duration='' @ seconds (eo_tail eo)] else [])"

definition main_chain :: "encode_options \<Rightarrow> string list \<Rightarrow> string" where
  "main_chain eo caption =
     ''[0:v]''
     @ join '','' (crop_filter eo @ caption @ tail_filter eo @ [''format=yuv420p'', ''setsar=1''])
     @ ''[main]''"

definition still_segments :: "encode_options \<Rightarrow> string list" where
  "still_segments eo =
     (if shown (eo_intro eo) then [''[intro]''] else []) @ [''[main]'']
     @ (if shown (eo_outro eo) then [''[outro]''] else [])"

definition still_chains :: "encode_options \<Rightarrow> int \<Rightarrow> int \<Rightarrow> string" where
  "still_chains eo width height =
     (if shown (eo_intro eo) then still_chain 1 ''intro'' width height (eo_fps eo) else [])
     @ (if shown (eo_outro eo)
        then still_chain (if shown (eo_intro eo) then 2 else 1) ''outro'' width height (eo_fps eo) else [])"

definition graph_text :: "encode_options \<Rightarrow> string list \<Rightarrow> bool \<Rightarrow> int \<Rightarrow> int \<Rightarrow> string \<times> string" where
  "graph_text eo caption stills width height =
     (if \<not> stills then (main_chain eo caption, ''[main]'')
      else (main_chain eo caption @ still_chains eo width height
            @ '';'' @ concat (still_segments eo) @ ''concat=n='' @ itoa (int (length (still_segments eo)))
            @ '':v=1:a=0[out]'', ''[out]''))"

definition build_graph ::
  "'d os \<Rightarrow> path \<Rightarrow> encode_options \<Rightarrow> bool \<Rightarrow> int \<Rightarrow> int \<Rightarrow> 'd os \<times> (string \<times> string) option" where
  "build_graph os dir eo stills width height =
     (case (case eo_overlay eo of None \<Rightarrow> (os, Some []) | Some ov \<Rightarrow> overlay_filters os dir ov (eo_fps eo)) of
        (os1, None) \<Rightarrow> (os1, None)
      | (os1, Some caption) \<Rightarrow> (os1, Some (graph_text eo caption stills width height)))"

section \<open>The encode\<close>

text \<open>\<open>targetSize\<close>.\<close>

definition crop_size :: "string \<Rightarrow> int \<times> int" where
  "crop_size crop =
     (case split_on (CHR '':'') crop of
        a # b # _ \<Rightarrow>
          (case atoi a of
             None \<Rightarrow> (0, 0)
           | Some w \<Rightarrow> (case atoi b of None \<Rightarrow> (0, 0) | Some h \<Rightarrow> (w, h)))
      | _ \<Rightarrow> (0, 0))"

definition target_size :: "'d world \<Rightarrow> tools \<Rightarrow> path \<Rightarrow> string \<Rightarrow> 'd world \<times> (int \<times> int)" where
  "target_size w t dir crop =
     (if crop \<noteq> [] then (w, crop_size crop) else dimensions w t (dir @ [first_frame]))"

definition shown_stills :: "encode_options \<Rightarrow> still list" where
  "shown_stills eo = filter shown [eo_intro eo, eo_outro eo]"

definition still_args :: "int \<Rightarrow> still \<Rightarrow> string list" where
  "still_args fps s =
     [''-loop'', ''1'', ''-framerate'', itoa fps, ''-t'', seconds (still_hold s), ''-i'',
      (case still_path s of None \<Rightarrow> [] | Some p \<Rightarrow> show_path p)]"

definition encode_args ::
  "path \<Rightarrow> path \<Rightarrow> int \<Rightarrow> still list \<Rightarrow> string \<Rightarrow> string \<Rightarrow> string list" where
  "encode_args dir out fps stills graph label =
     [''-hide_banner'', ''-loglevel'', ''error'', ''-y'', ''-framerate'', itoa fps, ''-i'',
      show_path (dir @ [frame_pattern])]
     @ concat (map (still_args fps) stills)
     @ [''-filter_complex'', graph, ''-map'', label, ''-c:v'', ''libx264'', ''-preset'', ''veryfast'', ''-crf'',
        ''23'', ''-pix_fmt'', ''yuv420p'', ''-movflags'', ''+faststart'', show_path out]"

text \<open>\<open>Encode\<close>: whether a video was produced.\<close>

definition probe_stills ::
  "'d world \<Rightarrow> tools \<Rightarrow> path \<Rightarrow> encode_options \<Rightarrow> 'd world \<times> still list \<times> int \<times> int" where
  "probe_stills w t dir eo =
     (if shown_stills eo = [] then (w, [], 0, 0)
      else (let (w1, width, height) = target_size w t dir (eo_crop eo)
            in (w1, if width = 0 then [] else shown_stills eo, width, height)))"

definition encode_video :: "'d world \<Rightarrow> tools \<Rightarrow> path \<Rightarrow> path \<Rightarrow> encode_options \<Rightarrow> 'd world \<times> bool" where
  "encode_video w t dir out eo =
     (let (w1, stills, width, height) = probe_stills w t dir eo;
          (w2, g) = on_os (\<lambda>os. build_graph os dir eo (stills \<noteq> []) width height) w1
      in case g of
           None \<Rightarrow> (w2, False)
         | Some (graph, label) \<Rightarrow>
             (let (w3, r) = exec_to w2 (ffmpeg_bin t) (encode_args dir out (eo_fps eo) stills graph label) out in
              if \<not> exit_ok r then (w3, False)
              else (let (w4, info) = on_os (\<lambda>os. os_stat os out) w3
                    in (w4, case info of None \<Rightarrow> False | Some (sz, m) \<Rightarrow> sz \<noteq> 0))))"

section \<open>Properties\<close>

interpretation caption: rune_filter caption_rune 32
  by unfold_locales (auto simp: caption_rune_def dropped_def byte_def chr_def quote_mark_def)

lemma overlay_text_bytes:
  assumes "c \<in> set (overlay_text s)"
  shows "32 \<le> byte c \<and> c \<notin> set dropped"
proof (cases "byte c < 0x80")
  case True
  have "c \<in> set (filter_runes caption_rune 32 s)"
    using assms trim_space_subset by (auto simp: overlay_text_def)
  from caption.low_bytes_ok [OF this True] show ?thesis by (auto simp: caption_rune_def)
next
  case False
  moreover have "byte d < 0x80" if "d \<in> set dropped" for d
    using that by (auto simp: dropped_def quote_mark_def byte_def chr_def)
  ultimately show ?thesis by auto
qed

text \<open>C28: no title or layer line, whatever the slicer let someone type, can end the quoted text it is
  put in or start a filter option: what reaches the filtergraph holds no control byte, quote,
  backslash, colon, percent sign, comma, semicolon, bracket or equals sign.\<close>

theorem overlay_text_safe:
  "\<forall>c \<in> set (overlay_text s). 32 \<le> byte c \<and> byte c \<notin> {37, 39, 44, 58, 59, 61, 91, 92, 93}"
proof
  fix c
  assume c: "c \<in> set (overlay_text s)"
  have "byte ` set dropped = {37, 39, 44, 58, 59, 61, 91, 92, 93}"
    by (auto simp: dropped_def quote_mark_def) (simp_all add: byte_def)
  then show "32 \<le> byte c \<and> byte c \<notin> {37, 39, 44, 58, 59, 61, 91, 92, 93}"
    using overlay_text_bytes [OF c] byte_inj by (metis image_iff)
qed

lemma dec_chars: "c \<in> set (dec n) \<Longrightarrow> byte c \<noteq> 10"
  using dec_digits [of c n] by (auto simp: is_digit_def)

lemma pad_left_chars: "set (pad_left k s) \<subseteq> insert (CHR ''0'') (set s)"
  by (auto simp: pad_left_def)

lemma fixed_digits_chars: "c \<in> set (fixed_digits k a) \<Longrightarrow> is_digit c \<or> c = CHR ''.''"
proof -
  define r where "r = nat (round_half_even (a * 10 ^ k))"
  have z: "is_digit (CHR ''0'')" by (simp add: is_digit_def byte_def)
  assume "c \<in> set (fixed_digits k a)"
  then have "c \<in> set (dec (r div 10 ^ k)) \<or> c = CHR ''.'' \<or> c \<in> set (pad_left k (dec (r mod 10 ^ k)))"
    unfolding fixed_digits_def r_def [symmetric] Let_def by (auto split: if_splits)
  then show ?thesis using pad_left_chars [of k "dec (r mod 10 ^ k)"] dec_digits z by blast
qed

lemma fmt_fixed_no_newline:
  assumes "c \<in> set (fmt_fixed k v)"
  shows "byte c \<noteq> 10"
proof -
  have fd: "byte d \<noteq> 10" if "d \<in> set (fixed_digits k a)" for d a
    using fixed_digits_chars [OF that] by (auto simp: is_digit_def byte_def)
  have other: "byte d \<noteq> 10" if "d \<in> set ''+-InfNa''" for d
    using that by (auto simp: byte_def)
  show ?thesis
  proof (cases v)
    case (Fin r)
    with assms have "c \<in> set (fixed_digits k \<bar>r\<bar>) \<or> c = CHR ''-''" by (auto split: if_splits)
    then show ?thesis using fd other [of "CHR ''-''"] by auto
  next
    case NegZero
    with assms have "c \<in> set (fixed_digits k 0) \<or> c = CHR ''-''" by auto
    then show ?thesis using fd other [of "CHR ''-''"] by auto
  qed (use assms other in auto)
qed

lemma split_on_append:
  "c \<notin> set xs \<Longrightarrow> split_on c (xs @ c # ys) = xs # split_on c ys"
  by (induction xs) auto

lemma command_shape:
  "\<exists>body. command i fps line = body @ [chr 10] \<and> chr 10 \<notin> set body"
proof -
  let ?b = "command_time i fps @ '' '' @ counter_filter @ '' text '' @ [quote_mark] @ overlay_text line
     @ [quote_mark, CHR '';'']"
  have t: "byte c \<noteq> 10" if "c \<in> set (command_time i fps)" for c
    using that fmt_fixed_no_newline [of c time_digits] by (auto simp: command_time_def Let_def)
  have l: "byte c \<noteq> 10" if "c \<in> set (overlay_text line)" for c
    using overlay_text_bytes [OF that] by auto
  have f: "byte c \<noteq> 10" if "c \<in> set ('' '' @ counter_filter @ '' text '' @ [quote_mark, CHR '';''])" for c
    using that by (auto simp: counter_filter_def quote_mark_def byte_def chr_def)
  have ne: "byte c \<noteq> 10" if "c \<in> set ?b" for c
    using that t l f by (simp only: set_append list.set Un_iff insert_iff empty_iff) blast
  have "chr 10 \<notin> set ?b"
  proof
    assume "chr 10 \<in> set ?b"
    then have "byte (chr 10) \<noteq> 10" by (rule ne)
    then show False by simp
  qed
  then show ?thesis by (intro exI [of _ ?b]) (simp add: command_def)
qed

lemma commands_lines:
  "length (split_on (chr 10) (concat (map (\<lambda>(i, line). command i fps line) ps))) = Suc (length ps)"
proof (induction ps)
  case (Cons p ps)
  obtain i line where p: "p = (i, line)" by fastforce
  obtain body where "command i fps line = body @ [chr 10]" "chr 10 \<notin> set body"
    using command_shape by blast
  with Cons show ?case by (simp add: p split_on_append)
qed simp

text \<open>The caption file has one line per frame, no fewer and no more, whatever the captions hold:
  no caption can add a command for another frame or swallow the next one.\<close>

theorem commands_one_per_frame:
  "length (split_on (chr 10) (commands_text ls fps)) = Suc (length ls)"
  by (simp add: commands_text_def commands_lines)

lemma shown_stills_nonempty: "shown_stills eo = [] \<longleftrightarrow> \<not> shown (eo_intro eo) \<and> \<not> shown (eo_outro eo)"
  by (simp add: shown_stills_def)

lemma length_segments: "length (still_segments eo) = Suc (length (shown_stills eo))"
  by (simp add: still_segments_def shown_stills_def)

lemma graph_text_stills:
  "graph_text eo caption (shown_stills eo \<noteq> []) width height =
     (if shown_stills eo = [] then (main_chain eo caption, ''[main]'')
      else (main_chain eo caption @ still_chains eo width height @ '';'' @ concat (still_segments eo)
            @ ''concat=n='' @ itoa (1 + int (length (shown_stills eo))) @ '':v=1:a=0[out]'', ''[out]''))"
  by (simp add: graph_text_def length_segments)

lemma show_path_not_flag: "show_path p \<noteq> CHR ''-'' # s"
  by (cases p) (simp_all add: show_path_def)

lemma digit_not: "is_digit c \<Longrightarrow> c \<noteq> CHR ''i'' \<and> c \<noteq> CHR ''-''"
  by (auto simp: is_digit_def byte_def)

lemma itoa_not_flag: "itoa n \<noteq> ''-i''"
proof -
  have "dec m \<noteq> CHR ''i'' # s \<and> dec m \<noteq> CHR ''-'' # s" for m s
    using dec_Cons [of m] digit_not by fastforce
  then show ?thesis by (simp add: itoa_def)
qed

lemma seconds_not_flag: "seconds d \<noteq> ''-i''"
proof -
  have p: "plain_decimal a \<noteq> CHR ''i'' # s \<and> plain_decimal a \<noteq> CHR ''-'' # s" for a s
  proof -
    obtain c cs where "dec (nat \<lfloor>a\<rfloor>) = c # cs" "is_digit c" using dec_Cons by blast
    then show ?thesis using digit_not [of c] by (auto simp: plain_decimal_def Let_def)
  qed
  have "fmt_shortest v \<noteq> ''-i''" for v using p by (cases v) auto
  then show ?thesis by (simp add: seconds_def)
qed

lemma still_args_inputs:
  "shown s \<Longrightarrow> count_list (still_args fps s) ''-i'' = 1"
  using show_path_not_flag itoa_not_flag seconds_not_flag
  by (auto simp: still_args_def shown_def split: option.splits)

lemma stills_inputs:
  "\<forall>s \<in> set ss. shown s \<Longrightarrow> count_list (concat (map (still_args fps) ss)) ''-i'' = length ss"
  by (induction ss) (simp_all add: still_args_inputs)

lemma graph_text_not_flag: "fst (graph_text eo caption b width height) \<noteq> ''-i''"
  "snd (graph_text eo caption b width height) \<noteq> ''-i''"
  by (simp_all add: graph_text_def main_chain_def)

text \<open>C27: the filtergraph uses the inputs it is given. However many ends are held, ffmpeg gets one
  input for the frames and one per held still, and the graph joins exactly that many segments,
  or maps the footage alone when there are none.\<close>

theorem encode_inputs_match_graph:
  assumes "ss = [] \<or> ss = shown_stills eo"
    and "graph_text eo caption (ss \<noteq> []) width height = (graph, label)"
  shows "count_list (encode_args dir out (eo_fps eo) ss graph label) ''-i'' = Suc (length ss)
    \<and> (if ss = [] then label = ''[main]''
       else label = ''[out]''
         \<and> (\<exists>pre. graph = pre @ ''concat=n='' @ itoa (int (Suc (length ss))) @ '':v=1:a=0[out]''))"
proof -
  have sh: "\<forall>s \<in> set ss. shown s" using assms(1) by (auto simp: shown_stills_def simp del: filter.simps)
  have g: "graph \<noteq> ''-i''" "label \<noteq> ''-i''"
    using graph_text_not_flag [of eo caption "ss \<noteq> []" width height] assms(2) by simp_all
  have "count_list (encode_args dir out (eo_fps eo) ss graph label) ''-i'' = Suc (length ss)"
    using g show_path_not_flag itoa_not_flag
    by (simp add: encode_args_def stills_inputs [OF sh])
  moreover have "if ss = [] then label = ''[main]''
       else label = ''[out]''
         \<and> (\<exists>pre. graph = pre @ ''concat=n='' @ itoa (int (Suc (length ss))) @ '':v=1:a=0[out]'')"
  proof (cases "ss = []")
    case True
    with assms(2) show ?thesis by (simp add: graph_text_def)
  next
    case False
    with assms have "label = ''[out]''"
      "graph = (main_chain eo caption @ still_chains eo width height @ '';'' @ concat (still_segments eo))
        @ ''concat=n='' @ itoa (int (Suc (length ss))) @ '':v=1:a=0[out]''"
      by (auto simp: graph_text_def length_segments)
    with False show ?thesis by auto
  qed
  ultimately show ?thesis by blast
qed

text \<open>When the size of the frames cannot be told, the stills at both ends go, and with a finished
  shot at hand so does the hold of the last frame that was to stand in for it: the video ends on
  its last frame without any pause, although a tail is configured.\<close>

theorem unknown_size_drops_tail:
  assumes "shown (eo_outro eo)" and "fst (snd (target_size w t dir (eo_crop eo))) = 0"
  shows "fst (snd (probe_stills w t dir eo)) = []
    \<and> graph_text eo caption False width height =
        (''[0:v]'' @ join '','' (crop_filter eo @ caption @ [''format=yuv420p'', ''setsar=1'']) @ ''[main]'',
         ''[main]'')"
proof -
  have "shown_stills eo \<noteq> []" using assms(1) by (simp add: shown_stills_nonempty)
  moreover obtain w1 a b where "target_size w t dir (eo_crop eo) = (w1, a, b)" using prod_cases3 by blast
  ultimately show ?thesis using assms
    by (simp add: probe_stills_def graph_text_def main_chain_def tail_filter_def)
qed

text \<open>\<open>Encode\<close> reports success only when ffmpeg succeeded and the video it left is not empty.\<close>

theorem encode_success_has_video:
  assumes "encode_video w t dir out eo = (w', True)"
  shows "\<exists>n. node_at (w_os w') out = Some n \<and> 0 < node_size n"
proof -
  have "\<exists>os3 sz m. os_stat os3 out = (w_os w', Some (sz, m)) \<and> sz \<noteq> 0"
    using assms
    by (auto simp: encode_video_def on_os_def Let_def split: prod.splits option.splits if_splits) blast
  then obtain os3 m sz where st: "os_stat os3 out = (w_os w', Some (sz, m))" and sz: "sz \<noteq> 0"
    by blast
  have "node_at (w_os w') out = node_at os3 out"
    using views_tree(3) [OF os_stat_tree, of os3 out] st by simp
  moreover obtain n where "node_at os3 out = Some n" "node_size n = sz"
    using st by (auto simp: os_stat_def syscall_def Let_def split: if_splits)
  ultimately show ?thesis using sz by auto
qed

section \<open>Witnesses\<close>

theorem overlay_text_safe_witness:
  \<open>overlay_text ''C:x[it]'' = ''C x it'' \<and> byte (hd (overlay_text ''C:x[it]'')) \<notin> {37, 39, 44, 58, 59, 61, 91, 92, 93}\<close>
proof -
  have t: "overlay_text ''C:x[it]'' = ''C x it''" by code_simp
  then have "hd (overlay_text ''C:x[it]'') \<in> set (overlay_text ''C:x[it]'')" by simp
  with overlay_text_safe [of "''C:x[it]''"] t show ?thesis by blast
qed

definition sample_options :: encode_options where
  "sample_options =
     \<lparr>eo_fps = 10, eo_crop = [], eo_intro = \<lparr>still_path = Some [''p.png''], still_hold = 2000000000\<rparr>,
      eo_outro = \<lparr>still_path = Some [''c.jpg''], still_hold = 3000000000\<rparr>, eo_tail = 3000000000,
      eo_overlay = None\<rparr>"

definition plain_options :: encode_options where
  "plain_options =
     \<lparr>eo_fps = 10, eo_crop = ''320:160:0:0'', eo_intro = \<lparr>still_path = None, still_hold = 0\<rparr>,
      eo_outro = \<lparr>still_path = None, still_hold = 0\<rparr>, eo_tail = 0, eo_overlay = None\<rparr>"

definition sample_tools_world :: "unit world" where
  "sample_tools_world =
     \<lparr>w_os = \<lparr>tree = [([], Dir 0)], clock = 0, zone = 0, tick = 0, outcomes = (\<lambda>n. Works)\<rparr>,
      w_runs = (\<lambda>n. Run (n = 2) [] (if n = 2 then Some ''video'' else None)), w_next = 0, w_log = []\<rparr>"

theorem encode_inputs_match_graph_witness:
  "count_list (encode_args [''d''] [''o.mp4''] 10 (shown_stills sample_options)
     (fst (graph_text sample_options [] True 320 160)) ''[out]'') ''-i'' = 3"
proof -
  have l: "length (shown_stills sample_options) = 2" by (simp add: shown_stills_def shown_def sample_options_def)
  then have b: "(shown_stills sample_options \<noteq> []) = True" by auto
  have "graph_text sample_options [] (shown_stills sample_options \<noteq> []) 320 160
      = (fst (graph_text sample_options [] True 320 160), ''[out]'')"
    unfolding b by (simp add: graph_text_def)
  from encode_inputs_match_graph [OF disjI2 [OF refl] this, of "[''d'']" "[''o.mp4'']"] l
  show ?thesis by (simp add: sample_options_def)
qed

theorem unknown_size_drops_tail_witness:
  "fst (snd (probe_stills sample_tools_world (new_tools [] []) [''d''] sample_options)) = []"
proof -
  have "shown (eo_outro sample_options)" by (simp add: shown_def sample_options_def)
  moreover have "fst (snd (target_size sample_tools_world (new_tools [] []) [''d''] (eo_crop sample_options))) = 0"
    by code_simp
  ultimately show ?thesis using unknown_size_drops_tail by blast
qed

theorem encode_success_has_video_witness:
  "\<exists>n. node_at (w_os (fst (encode_video (sample_tools_world\<lparr>w_next := 2\<rparr>) (new_tools [] []) [] [''o.mp4'']
         plain_options))) [''o.mp4''] = Some n \<and> 0 < node_size n"
proof -
  let ?e = "encode_video (sample_tools_world\<lparr>w_next := 2\<rparr>) (new_tools [] []) [] [''o.mp4'']
         plain_options"
  have "?e = (fst ?e, True)" by (rule result_pair) code_simp
  then show ?thesis by (rule encode_success_has_video)
qed

end
