(* ===== verification/Helpers.thy ===== *)
theory Helpers
  imports Session Encode
begin

text \<open>
  \<open>internal/service/helpers.go\<close> and \<open>helpers_unix.go\<close>: names and texts the service derives from what
  the printer reports, and the file moves at the end of a job.
\<close>

section \<open>Names\<close>

definition printer_name_limit :: nat where "printer_name_limit = 20"
definition job_name_limit :: nat where "job_name_limit = 60"
definition fallback_name :: string where "fallback_name = ''print''"

definition clean_rune :: "rune \<Rightarrow> bool" where
  "clean_rune r \<longleftrightarrow>
     (97 \<le> r \<and> r \<le> 122) \<or> (65 \<le> r \<and> r \<le> 90) \<or> (48 \<le> r \<and> r \<le> 57) \<or> r = 46 \<or> r = 45 \<or> r = 95"

definition clean :: "string \<Rightarrow> nat \<Rightarrow> string" where
  "clean s limit =
     (let trimmed = take limit (trim_left (filter_runes clean_rune 95 s) ''.'')
      in if trimmed = [] then fallback_name else trimmed)"

text \<open>The civil date of a day counted from 1970-01-01, in the proleptic Gregorian calendar.\<close>

definition civil :: "int \<Rightarrow> int \<times> int \<times> int" where
  "civil days =
     (let z = days + 719468; era = z div 146097; doe = z mod 146097;
          yoe = (doe - doe div 1460 + doe div 36524 - doe div 146096) div 365;
          doy = doe - (365 * yoe + yoe div 4 - yoe div 100);
          mp = (5 * doy + 2) div 153; d = doy - (153 * mp + 2) div 5 + 1;
          mo = (if mp < 10 then mp + 3 else mp - 9)
      in (yoe + era * 400 + (if mo \<le> 2 then 1 else 0), mo, d))"

text \<open>\<open>Format(\"2006-01-02T15-04\")\<close> of an instant in its own zone.\<close>

definition stamp :: "gotime \<Rightarrow> string" where
  "stamp t =
     (let secs = unix_ns t div 10 ^ 9 + utc_offset t; (y, mo, d) = civil (secs div 86400);
          r = secs mod 86400
      in fmt_0d 4 y @ ''-'' @ fmt_0d 2 mo @ ''-'' @ fmt_0d 2 d @ ''T'' @ fmt_0d 2 (r div 3600)
         @ ''-'' @ fmt_0d 2 (r mod 3600 div 60))"

definition filename :: "string \<Rightarrow> session \<Rightarrow> string" where
  "filename printer s =
     clean printer printer_name_limit @ ''_'' @ clean (s_job s) job_name_limit @ ''_''
     @ stamp (s_started s) @ ''.mp4''"

text \<open>\<open>humanDuration\<close>.\<close>

definition human_duration :: "nanos \<Rightarrow> string" where
  "human_duration d =
     (let t = int_of_f64 (duration_seconds d); h = go_quot t 3600; m = go_quot (go_rem t 3600) 60
      in if 0 < h then itoa h @ ''h'' @ fmt_0d 2 m @ ''m'' else itoa m @ ''m'')"

text \<open>\<open>html.EscapeString\<close>.\<close>

definition html_char :: "char \<Rightarrow> string" where
  "html_char c =
     (if byte c = 38 then ''&amp;'' else if byte c = 39 then ''&#39;'' else if byte c = 60 then ''&lt;''
      else if byte c = 62 then ''&gt;'' else if byte c = 34 then ''&#34;'' else [c])"

definition html_escape :: "string \<Rightarrow> string" where
  "html_escape s = concat (map html_char s)"

text \<open>\<open>caption\<close>, as a text of the session, the printer's name, the end state and the time elapsed.\<close>

definition middle_dot :: string where "middle_dot = encode [0xB7]"
definition degree :: string where "degree = encode [0xB0]"

definition caption ::
  "string \<Rightarrow> session \<Rightarrow> bool \<Rightarrow> nanos \<Rightarrow> string" where
  "caption printer s finished elapsed =
     encode [if finished then 0x2705 else 0x274C] @ '' <b>'' @ html_escape (s_job s) @ ''</b>'' @ [chr 10]
     @ html_escape printer @ '' '' @ middle_dot @ '' '' @ human_duration elapsed
     @ (if s_partial s then '' (capture started mid-print)'' else [])
     @ (if 0 < s_total s
        then '' '' @ middle_dot @ '' '' @ itoa (s_last_layer s) @ ''/'' @ itoa (s_total s) @ '' layers'' else [])
     @ (if s_filament s \<noteq> [] then chr 10 # ''Filament: '' @ html_escape (s_filament s) else [])
     @ (if 0 < t_count (s_nozzle s)
        then chr 10 # ''Nozzle '' @ fmt_fixed 0 (temps_avg (s_nozzle s)) @ degree @ ''C avg / ''
             @ fmt_fixed 0 (t_peak (s_nozzle s)) @ '' peak '' @ middle_dot @ '' Bed ''
             @ fmt_fixed 0 (temps_avg (s_bed s)) @ degree @ ''C'' else [])
     @ (if 0 < s_pauses s then chr 10 # itoa (s_pauses s) @ '' pause(s)'' else [])"

section \<open>Files\<close>

text \<open>\<open>move\<close>: a rename, or a copy and a removal when that fails.\<close>

definition move :: "disk \<Rightarrow> path \<Rightarrow> path \<Rightarrow> disk \<times> bool" where
  "move os src dst =
     (let (os1, renamed) = os_rename os src dst in
      if renamed then (os1, True)
      else (let (os2, c) = os_read os1 src in
            case c of
              None \<Rightarrow> (os2, False)
            | Some b \<Rightarrow>
                (let (os3, copied) = os_write os2 dst b in
                 if \<not> copied then (os3, False) else os_remove os3 src)))"

text \<open>\<open>findVideo\<close>, with None for the empty string, and \<open>readCaption\<close>.\<close>

definition find_video :: "disk \<Rightarrow> path \<Rightarrow> disk \<times> path option" where
  "find_video os dir =
     (let (os1, es) = os_read_dir os dir
      in (os1, case es of
                 None \<Rightarrow> None
               | Some l \<Rightarrow> map_option (\<lambda>(n, d). dir @ [n])
                             (find (\<lambda>(n, d). \<not> d \<and> has_suffix n ''.mp4'') l)))"

definition read_caption :: "disk \<Rightarrow> path \<Rightarrow> disk \<times> string" where
  "read_caption os dir =
     (let (os1, c) = os_read os (dir @ [''caption.txt''])
      in (os1, case c of Some (Bytes b) \<Rightarrow> b | _ \<Rightarrow> []))"

text \<open>
  \<open>freeBytes\<close> on what statfs answered, None for an error: the block size and the free blocks; the
  product is a 64-bit one.
\<close>

definition free_bytes :: "(int \<times> nat) option \<Rightarrow> nat option" where
  "free_bytes st =
     map_option (\<lambda>(bsize, avail). if bsize < 0 then 0 else (avail * nat bsize) mod 2 ^ 64) st"

text \<open>
  The same on Windows: the conversion of the path and the question of the volume are calls of
  \<open>golang.org/x/sys/windows\<close>, and the answer is a 64-bit number as it is.
\<close>

definition free_bytes_windows :: "(string \<Rightarrow> 'u option) \<Rightarrow> ('u \<Rightarrow> nat option) \<Rightarrow> string \<Rightarrow> nat option" where
  "free_bytes_windows to_utf16 available p = Option.bind (to_utf16 p) available"

lemma windows_answer:
  assumes "\<And>u n. available u = Some n \<Longrightarrow> n < 2 ^ 64"
  shows "free_bytes (map_option (Pair 1) (free_bytes_windows to_utf16 available p)) = free_bytes_windows to_utf16 available p"
  using assms by (cases "Option.bind (to_utf16 p) available")
    (auto simp: free_bytes_def free_bytes_windows_def bind_eq_Some_conv)

text \<open>A negative block size is said to be treated as unknown; what comes back is a full disk.\<close>

lemma negative_block_size: "bsize < 0 \<Longrightarrow> free_bytes (Some (bsize, avail)) = Some 0"
  by (simp add: free_bytes_def)

text \<open>\<open>stagingWritable\<close>: whether a probe file could be written; an error of its removal is reported
  beside it.\<close>

definition probe_file :: string where "probe_file = ''.preflight''"

definition staging_writable :: "disk \<Rightarrow> path \<Rightarrow> disk \<times> bool \<times> bool" where
  "staging_writable os base =
     (let p = base @ [probe_file]; (os1, ok) = os_write os p (Bytes ''ok'') in
      if \<not> ok then (os1, False, False)
      else (let (os2, removed) = os_remove os1 p in (os2, True, removed)))"

section \<open>Properties\<close>

interpretation cleaned: ascii_filter clean_rune 95
  by unfold_locales (auto simp: clean_rune_def)

lemma clean_rune_char: "clean_rune (byte c) \<Longrightarrow> c \<noteq> CHR ''/'' \<and> c \<noteq> CHR 0x00"
  by (auto simp: clean_rune_def byte_def)

lemma clean_bytes: "c \<in> set (clean s limit) \<Longrightarrow> clean_rune (byte c)"
proof -
  have f: "clean_rune (byte c)" if "c \<in> set fallback_name" for c
    using that by (auto simp: fallback_name_def clean_rune_def byte_def)
  assume "c \<in> set (clean s limit)"
  then have "c \<in> set fallback_name \<or> c \<in> set (filter_runes clean_rune 95 s)"
    using trim_left_subset by (fastforce simp: clean_def Let_def split: if_splits dest: in_set_takeD)
  with f cleaned.all_bytes_ok show ?thesis by blast
qed

lemma clean_length: "5 \<le> limit \<Longrightarrow> length (clean s limit) \<le> limit"
  by (simp add: clean_def Let_def fallback_name_def)

lemma clean_start: "0 < limit \<Longrightarrow> clean s limit \<noteq> [] \<and> hd (clean s limit) \<noteq> CHR ''.''"
proof -
  assume l: "0 < limit"
  let ?t = "trim_left (filter_runes clean_rune 95 s) ''.''"
  have "?t \<noteq> [] \<Longrightarrow> hd ?t \<noteq> CHR ''.''"
    using hd_dropWhile [of "\<lambda>c. c \<in> set ''.''" "filter_runes clean_rune 95 s"]
    by (auto simp: trim_left_def)
  moreover have "hd (take limit ?t) = hd ?t" using l by simp
  ultimately show ?thesis using l
    by (auto simp: clean_def Let_def fallback_name_def)
qed

lemma fmt_0d_chars: "c \<in> set (fmt_0d w n) \<Longrightarrow> is_digit c \<or> c = CHR ''-''"
proof -
  have z: "is_digit (CHR ''0'')" by (simp add: is_digit_def byte_def)
  assume "c \<in> set (fmt_0d w n)"
  then show ?thesis
    using pad_left_chars [of _ "dec (nat (- n))"] pad_left_chars [of _ "dec (nat n)"] dec_digits z
    by (auto simp: fmt_0d_def split: if_splits) blast+
qed

lemma stamp_bytes: "c \<in> set (stamp t) \<Longrightarrow> clean_rune (byte c)"
proof -
  have d: "clean_rune (byte c)" if "is_digit c" for c
    using that by (auto simp: is_digit_def clean_rune_def)
  have o: "clean_rune (byte (CHR ''-''))" "clean_rune (byte (CHR ''T''))"
    by (simp_all add: clean_rune_def byte_def)
  assume "c \<in> set (stamp t)"
  then show ?thesis
    using d o by (auto simp: stamp_def Let_def split: prod.splits dest!: fmt_0d_chars)
qed

lemma plain_componentI:
  assumes "s \<noteq> []" and "hd s \<noteq> CHR ''.''" and "\<forall>c \<in> set s. clean_rune (byte c)"
  shows "plain_component s"
proof -
  have "CHR ''/'' \<notin> set s" "CHR 0x00 \<notin> set s" using assms(3) clean_rune_char by blast+
  with assms(1,2) show ?thesis by (auto simp: plain_component_def)
qed

text \<open>The name a video is published under is one plain component, whatever the printer and the job
  are called: letters, digits, dots, hyphens and underscores only, not hidden, and ending in the
  suffix by which a parked video is found again.\<close>

theorem filename_safe:
  "(\<forall>c \<in> set (filename printer s). clean_rune (byte c)) \<and> plain_component (filename printer s)
   \<and> hd (filename printer s) \<noteq> CHR ''.'' \<and> has_suffix (filename printer s) ''.mp4''"
proof -
  let ?f = "filename printer s" and ?p = "clean printer printer_name_limit"
  have "clean_rune (byte c)" if "c \<in> set ''_.mp4''" for c
    using that by (auto simp: clean_rune_def byte_def)
  then have lit: "\<forall>c \<in> set ''_''. clean_rune (byte c)" "\<forall>c \<in> set ''.mp4''. clean_rune (byte c)"
    by auto
  have parts: "\<forall>c \<in> set (clean x l). clean_rune (byte c)" "\<forall>c \<in> set (stamp t). clean_rune (byte c)" for x l t
    using clean_bytes stamp_bytes by blast+
  have b: "\<forall>c \<in> set ?f. clean_rune (byte c)"
    unfolding filename_def set_append ball_Un by (intro conjI lit parts)
  have p: "?p \<noteq> []" "hd ?p \<noteq> CHR ''.''" using clean_start [of printer_name_limit printer]
    by (simp_all add: printer_name_limit_def)
  then have h: "?f \<noteq> []" "hd ?f \<noteq> CHR ''.''" by (simp_all add: filename_def)
  then have "plain_component ?f" using b by (intro plain_componentI)
  moreover have "has_suffix ?f ''.mp4''"
    unfolding has_suffix_iff filename_def
    by (rule exI [of _ "clean printer printer_name_limit @ ''_'' @ clean (s_job s) job_name_limit @ ''_''
          @ stamp (s_started s)"]) simp
  ultimately show ?thesis using b h by blast
qed

lemma html_char_safe: "c \<in> set (html_char d) \<Longrightarrow> byte c \<notin> {34, 39, 60, 62}"
  by (auto simp: html_char_def byte_def split: if_splits)

lemma byte_eq: "byte c = n \<Longrightarrow> c = chr n"
  using chr_byte by metis

lemma html_char_cases:
  "html_char c = [c] \<and> c \<noteq> CHR ''&'' \<or> (\<exists>e. html_char c = CHR ''&'' # e \<and>
     (c, e) \<in> {(chr 38, ''amp;''), (chr 39, ''#39;''), (chr 60, ''lt;''), (chr 62, ''gt;''), (chr 34, ''#34;'')})"
proof (cases "byte c \<in> {38, 39, 60, 62, 34}")
  case True
  then show ?thesis by (auto simp: html_char_def intro: byte_eq)
next
  case False
  then have "c \<noteq> CHR ''&''" by (auto simp: byte_def)
  with False show ?thesis by (simp add: html_char_def)
qed

lemma html_char_prefix: "html_char a @ xs = html_char b @ ys \<Longrightarrow> a = b \<and> xs = ys"
  using html_char_cases [of a] html_char_cases [of b] by auto

lemma html_char_nonempty: "html_char c \<noteq> []"
  by (simp add: html_char_def)

text \<open>Nothing the slicer let someone type becomes markup in the posted message: escaped text holds
  no angle bracket or quotation mark, and different texts stay different.\<close>

theorem html_escape_safe:
  "(\<forall>c \<in> set (html_escape s). byte c \<notin> {34, 39, 60, 62}) \<and> (html_escape s = html_escape t \<longleftrightarrow> s = t)"
proof
  show "\<forall>c \<in> set (html_escape s). byte c \<notin> {34, 39, 60, 62}"
    using html_char_safe by (fastforce simp: html_escape_def)
  have "html_escape s = html_escape t \<Longrightarrow> s = t"
  proof (induction s arbitrary: t)
    case Nil
    then show ?case using html_char_nonempty by (cases t) (auto simp: html_escape_def)
  next
    case (Cons a s)
    then obtain b t' where t: "t = b # t'" using html_char_nonempty [of a]
      by (cases t) (auto simp: html_escape_def)
    with Cons.prems have "html_char a @ html_escape s = html_char b @ html_escape t'"
      by (simp add: html_escape_def)
    from html_char_prefix [OF this] Cons.IH t show ?case by blast
  qed
  then show "html_escape s = html_escape t \<longleftrightarrow> s = t" by blast
qed

lemma os_read_tick: "os_read os p = (os1, c) \<Longrightarrow> tree os1 = tree os"
  using os_read_tree [of os p] by simp

lemma os_remove_file:
  assumes "os_remove os p = (os', ok)"
  shows "file_at os' q = (if ok \<and> prefix p q then None else file_at os q)"
  using assms
  by (auto simp: os_remove_def syscall_def Let_def file_at_def node_at_def del_tree_lookup
      split: if_splits)

text \<open>Moving a video cannot lose it. However the calls end, the whole file is afterwards at the
  destination, or still where it was; it is at the destination when success is reported, and then
  no longer at the source.\<close>

lemma move_outcome:
  assumes "file_at os src = Some c" and "\<not> prefix dst src" and "\<not> prefix src dst"
    and "move os src dst = (os', ok)"
  shows "(if ok then file_at os' dst = Some c \<and> file_at os' src = None
          else file_at os' src = Some c)"
proof -
  obtain os1 renamed where r: "os_rename os src dst = (os1, renamed)" by fastforce
  have ne: "src \<noteq> dst" using assms(2) by auto
  show ?thesis
  proof (cases renamed)
    case True
    then have "os_rename os src dst = (os1, True)" using r by simp
    note e = os_rename_ok(1) [OF this ne assms(2)]
    have "move os src dst = (os1, True)" using r True by (simp add: move_def)
    with assms e [of dst] e [of src] show ?thesis by simp
  next
    case False
    obtain os2 x where rd: "os_read os1 src = (os2, x)" by fastforce
    have t1: "tree os1 = tree os" using os_rename_failed [of os src dst] r False by simp
    have t2: "tree os2 = tree os" using os_read_tick [OF rd] t1 by simp
    have f2: "file_at os2 q = file_at os q" for q by (rule views_tree(1) [OF t2])
    show ?thesis
    proof (cases x)
      case None
      then have "os' = os2" "\<not> ok" using assms(4) r False rd by (auto simp: move_def)
      then show ?thesis using f2 assms(1) by simp
    next
      case (Some b)
      have "b = c" using os_read_Some [of os1 src b] rd Some assms(1) views_tree(1) [OF t1] by simp
      obtain os3 copied where w: "os_write os2 dst c = (os3, copied)" by fastforce
      have s3: "file_at os3 src = Some c"
        using os_write_other [of src dst os2 c] ne w f2 assms(1) by simp
      show ?thesis
      proof (cases copied)
        case False
        then have "os' = os3" "\<not> ok" using assms(4) r \<open>\<not> renamed\<close> rd Some \<open>b = c\<close> w
          by (auto simp: move_def)
        then show ?thesis using s3 by simp
      next
        case True
        then have rm: "os_remove os3 src = (os', ok)"
          using assms(4) r \<open>\<not> renamed\<close> rd Some \<open>b = c\<close> w by (simp add: move_def)
        have d3: "file_at os3 dst = Some c" using os_write_ok(1) [of os2 dst c os3 dst] w True by simp
        show ?thesis
          using os_remove_file [OF rm, of dst] os_remove_file [OF rm, of src] s3 d3 assms(3) by auto
      qed
    qed
  qed
qed

lemma move_other:
  assumes "\<not> prefix src q" and "\<not> prefix dst q" and "\<not> prefix dst src"
  shows "file_at (fst (move os src dst)) q = file_at os q"
proof -
  obtain os1 renamed where r: "os_rename os src dst = (os1, renamed)" by fastforce
  have ne: "src \<noteq> dst" "q \<noteq> dst" using assms by auto
  show ?thesis
  proof (cases renamed)
    case True
    then have "os_rename os src dst = (os1, True)" using r by simp
    from os_rename_ok(1) [OF this ne(1) assms(3), of q] r True assms show ?thesis
      by (simp add: move_def)
  next
    case False
    obtain os2 x where rd: "os_read os1 src = (os2, x)" by fastforce
    have t1: "tree os1 = tree os" using os_rename_failed [of os src dst] r False by simp
    have f2: "file_at os2 q = file_at os q"
      using views_tree(1) [of os2 os] os_read_tick [OF rd] t1 by simp
    show ?thesis
    proof (cases x)
      case None
      then show ?thesis using r False rd f2 by (simp add: move_def)
    next
      case (Some b)
      obtain os3 copied where w: "os_write os2 dst b = (os3, copied)" by fastforce
      have f3: "file_at os3 q = file_at os q" using os_write_other [of q dst os2 b] ne w f2 by simp
      obtain os4 removed where rm: "os_remove os3 src = (os4, removed)" by fastforce
      show ?thesis
        using r False rd Some w f3 rm os_remove_file [OF rm, of q] assms(1)
        by (cases copied) (simp_all add: move_def)
    qed
  qed
qed

section \<open>Witnesses\<close>

lemma civil_examples:
  "civil 0 = (1970, 1, 1)" "civil 19782 = (2024, 2, 29)" "civil 19783 = (2024, 3, 1)"
  "civil (- 1) = (1969, 12, 31)" "civil 11016 = (2000, 2, 29)"
  by code_simp+

theorem filename_safe_witness:
  "filename ''p2s 01'' (sample_session\<lparr>s_job := ''../etc''\<rparr>) = ''p2s_01__etc_1970-01-01T00-00.mp4''
    \<and> plain_component (filename ''p2s 01'' (sample_session\<lparr>s_job := ''../etc''\<rparr>))"
proof -
  have "filename ''p2s 01'' (sample_session\<lparr>s_job := ''../etc''\<rparr>) = ''p2s_01__etc_1970-01-01T00-00.mp4''"
    by code_simp
  then show ?thesis
    using filename_safe [of "''p2s 01''" "sample_session\<lparr>s_job := ''../etc''\<rparr>"] by simp
qed

theorem html_escape_safe_witness:
  "html_escape ''<a>'' = ''&lt;a&gt;'' \<and> byte (hd (html_escape ''<a>'')) \<notin> {34, 39, 60, 62}"
proof -
  have t: "html_escape ''<a>'' = ''&lt;a&gt;''" by code_simp
  then have "hd (html_escape ''<a>'') \<in> set (html_escape ''<a>'')" by simp
  with html_escape_safe [of "''<a>''" "[]"] t show ?thesis by blast
qed

end
