(* ===== verification/Json.thy ===== *)
theory Json
  imports Go_Float
begin

text \<open>
  The part of \<open>encoding/json\<close> the service decodes reports with: the scanner over the bytes of a
  message, the value tree, and the conversion of a tree to Go's \<open>any\<close> values. Scanning and
  parsing follow Go's pushdown scanner: a list of tokens and an explicit stack, so both are total.
\<close>

datatype 'n json =
    JNull
  | JBool bool
  | JNum 'n
  | JStr string
  | JArr "'n json list"
  | JObj "(string \<times> 'n json) list"

type_synonym raw_json = "string json"
type_synonym any = "f64 json"

section \<open>Tokens\<close>

datatype tok =
    TBraceL | TBraceR | TBrackL | TBrackR | TColon | TComma
  | TTrue | TFalse | TNull
  | TNum string
  | TStr string

definition quote_char :: char where "quote_char = CHR 0x22"
definition backslash :: char where "backslash = CHR 0x5C"

definition is_hex :: "char \<Rightarrow> bool" where
  "is_hex c \<longleftrightarrow> hex_val c \<noteq> None"

text \<open>The bytes of a string literal up to its closing quote, escapes still in place.\<close>

fun scan_string :: "string \<Rightarrow> (string \<times> string) option" where
  "scan_string [] = None"
| "scan_string (c # cs) =
     (if c = quote_char then Some ([], cs)
      else if byte c < 0x20 then None
      else if c = backslash then
        (case cs of
           [] \<Rightarrow> None
         | e # r \<Rightarrow>
             if e \<in> set ''bfnrt/'' \<or> e = backslash \<or> e = quote_char then
               map_option (\<lambda>(a, b). (c # e # a, b)) (scan_string r)
             else if e = CHR ''u'' \<and> length (take 4 r) = 4 \<and> list_all is_hex (take 4 r) then
               map_option (\<lambda>(a, b). (c # e # take 4 r @ a, b)) (scan_string (drop 4 r))
             else None)
      else map_option (\<lambda>(a, b). (c # a, b)) (scan_string cs))"

definition hex4 :: "string \<Rightarrow> nat" where
  "hex4 s = foldl (\<lambda>a c. 16 * a + (case hex_val c of Some d \<Rightarrow> d | None \<Rightarrow> 0)) 0 s"

definition unescape :: "char \<Rightarrow> char" where
  "unescape e =
     (if e = CHR ''b'' then chr 8 else if e = CHR ''f'' then chr 12 else if e = CHR ''n'' then chr 10
      else if e = CHR ''r'' then chr 13 else if e = CHR ''t'' then chr 9 else e)"

text \<open>
  \<open>unquote\<close>: escapes are replaced, a surrogate pair becomes one rune, a lone surrogate and every
  malformed byte the replacement rune.
\<close>

definition is_surrogate :: "nat \<Rightarrow> bool" where
  "is_surrogate r \<longleftrightarrow> 0xD800 \<le> r \<and> r < 0xE000"

definition surrogate_pair :: "nat \<Rightarrow> nat \<Rightarrow> nat option" where
  "surrogate_pair a b =
     (if 0xD800 \<le> a \<and> a < 0xDC00 \<and> 0xDC00 \<le> b \<and> b < 0xE000
      then Some ((a - 0xD800) * 1024 + (b - 0xDC00) + 0x10000) else None)"

fun unquote :: "string \<Rightarrow> string" where
  "unquote [] = []"
| "unquote (c # cs) =
     (if c = backslash then
        (case cs of
           [] \<Rightarrow> []
         | e # r \<Rightarrow>
             if e = CHR ''u'' then
               (let a = hex4 (take 4 r); t = drop 4 r in
                if is_surrogate a then
                  (case surrogate_pair a (hex4 (take 4 (drop 2 t))) of
                     Some x \<Rightarrow>
                       if take 2 t = [backslash, CHR ''u''] then encode_rune x @ unquote (drop 6 t)
                       else encode_rune rune_error @ unquote t
                   | None \<Rightarrow> encode_rune rune_error @ unquote t)
                else encode_rune a @ unquote t)
             else unescape e # unquote r)
      else if byte c < 0x80 then c # unquote cs
      else (let (r, w) = decode_rune (c # cs) in encode_rune r @ unquote (drop (w - 1) cs)))"

text \<open>The number grammar of JSON.\<close>

definition strip_int :: "string \<Rightarrow> string option" where
  "strip_int s =
     (case s of
        [] \<Rightarrow> None
      | c # cs \<Rightarrow> if c = CHR ''0'' then Some cs
                  else if is_digit c then Some (dropWhile is_digit cs) else None)"

definition strip_digits :: "string \<Rightarrow> string option" where
  "strip_digits s =
     (case s of
        [] \<Rightarrow> None
      | c # cs \<Rightarrow> if is_digit c then Some (dropWhile is_digit cs) else None)"

definition strip_frac :: "string \<Rightarrow> string option" where
  "strip_frac s =
     (case s of [] \<Rightarrow> Some [] | c # cs \<Rightarrow> if c = CHR ''.'' then strip_digits cs else Some s)"

definition strip_exp :: "string \<Rightarrow> string option" where
  "strip_exp s =
     (case s of
        [] \<Rightarrow> Some []
      | c # cs \<Rightarrow>
          if c = CHR ''e'' \<or> c = CHR ''E'' then
            strip_digits (case cs of d # ds \<Rightarrow> if d = CHR ''+'' \<or> d = CHR ''-'' then ds else cs | [] \<Rightarrow> [])
          else Some s)"

definition valid_number :: "string \<Rightarrow> bool" where
  "valid_number s \<longleftrightarrow>
     Option.bind (strip_int (if has_prefix s ''-'' then tl s else s))
       (\<lambda>t. Option.bind (strip_frac t) strip_exp) = Some []"

definition number_char :: "char \<Rightarrow> bool" where
  "number_char c \<longleftrightarrow> is_digit c \<or> c \<in> set ''+-.eE''"

definition punctuation :: "char \<Rightarrow> tok option" where
  "punctuation c =
     (if c = CHR ''{'' then Some TBraceL else if c = CHR ''}'' then Some TBraceR
      else if c = CHR ''['' then Some TBrackL else if c = CHR '']'' then Some TBrackR
      else if c = CHR '':'' then Some TColon else if c = CHR '','' then Some TComma else None)"

definition json_space :: "char \<Rightarrow> bool" where
  "json_space c \<longleftrightarrow> byte c = 32 \<or> byte c = 9 \<or> byte c = 10 \<or> byte c = 13"

lemma scan_string_shorter: "scan_string s = Some (a, b) \<Longrightarrow> length b < length s"
proof (induction s arbitrary: a b rule: scan_string.induct)
  case (2 c cs)
  consider (close) "c = quote_char" | (esc) "c \<noteq> quote_char" "c = backslash"
    | (other) "c \<noteq> quote_char" "c \<noteq> backslash" by blast
  then show ?case
  proof cases
    case close
    with "2.prems" show ?thesis by simp
  next
    case esc
    then obtain e r where cs: "cs = e # r" using "2.prems" by (cases cs) (auto split: if_splits)
    have IH1: "scan_string r = Some (x, b) \<Longrightarrow> simple \<Longrightarrow> length b < length r"
      if "simple = (e \<in> set ''bfnrt/'' \<or> e = backslash \<or> e = quote_char)" "\<not> byte c < 0x20" for x simple
      using "2.IH"(1) [OF esc(1) that(2) esc(2) cs] that(1) by blast
    have IH2: "scan_string (drop 4 r) = Some (x, b) \<Longrightarrow> length b < length r"
      if "\<not> (e \<in> set ''bfnrt/'' \<or> e = backslash \<or> e = quote_char)"
        "e = CHR ''u'' \<and> length (take 4 r) = 4 \<and> list_all is_hex (take 4 r)" "\<not> byte c < 0x20" for x
      using "2.IH"(2) [OF esc(1) that(3) esc(2) cs that(1,2)] by fastforce
    show ?thesis
      using "2.prems" esc cs IH1 [OF refl] IH2 by (simp split: if_splits) fastforce+
  next
    case other
    with "2.prems" have "\<not> byte c < 0x20" by (auto split: if_splits)
    with other "2.prems" "2.IH"(3) show ?thesis by fastforce
  qed
qed simp

text \<open>One token off the front of a non-blank input, with the bytes that follow it.\<close>

definition next_tok :: "char \<Rightarrow> string \<Rightarrow> (tok \<times> string) option" where
  "next_tok c cs =
     (case punctuation c of
        Some t \<Rightarrow> Some (t, cs)
      | None \<Rightarrow>
          if c = quote_char then map_option (\<lambda>(a, b). (TStr (unquote a), b)) (scan_string cs)
          else if has_prefix (c # cs) ''true'' then Some (TTrue, drop 3 cs)
          else if has_prefix (c # cs) ''false'' then Some (TFalse, drop 4 cs)
          else if has_prefix (c # cs) ''null'' then Some (TNull, drop 3 cs)
          else if number_char c \<and> valid_number (takeWhile number_char (c # cs)) then
            Some (TNum (takeWhile number_char (c # cs)), dropWhile number_char cs)
          else None)"

lemma length_dropWhile_le': "length (dropWhile P xs) \<le> length xs"
  by (rule length_dropWhile_le)

lemma next_tok_shorter: "next_tok c cs = Some (t, r) \<Longrightarrow> length r \<le> length cs"
  by (auto simp: next_tok_def length_dropWhile_le dest!: scan_string_shorter
      split: option.splits if_splits)

function lex :: "string \<Rightarrow> tok list option" where
  "lex [] = Some []"
| "lex (c # cs) =
     (if json_space c then lex cs
      else (case next_tok c cs of
              None \<Rightarrow> None
            | Some (t, r) \<Rightarrow> map_option (\<lambda>ts. t # ts) (lex r)))"
  by pat_completeness auto
termination
  by (relation "measure length") (auto dest: next_tok_shorter)

section \<open>Parsing\<close>

text \<open>
  A frame is a container still open: the elements read so far, newest first, and for an object
  the key whose value is being read. The mode says what may come next.
\<close>

datatype frame = FArr "raw_json list" | FObj "(string \<times> raw_json) list" "string option"

datatype mode = MValue | MFirstElem | MFirstKey | MKey | MColon | MAfter | MDone raw_json

definition max_depth :: nat where "max_depth = 10000"

fun reduce :: "raw_json \<Rightarrow> frame list \<Rightarrow> (frame list \<times> mode) option" where
  "reduce v [] = Some ([], MDone v)"
| "reduce v (FArr xs # st) = Some (FArr (v # xs) # st, MAfter)"
| "reduce v (FObj kvs (Some k) # st) = Some (FObj ((k, v) # kvs) None # st, MAfter)"
| "reduce v (FObj kvs None # st) = None"

definition push :: "frame \<Rightarrow> mode \<Rightarrow> frame list \<Rightarrow> (frame list \<times> mode) option" where
  "push f m st = (if length st < max_depth then Some (f # st, m) else None)"

fun value_tok :: "tok \<Rightarrow> frame list \<Rightarrow> (frame list \<times> mode) option" where
  "value_tok TTrue st = reduce (JBool True) st"
| "value_tok TFalse st = reduce (JBool False) st"
| "value_tok TNull st = reduce JNull st"
| "value_tok (TNum n) st = reduce (JNum n) st"
| "value_tok (TStr s) st = reduce (JStr s) st"
| "value_tok TBrackL st = push (FArr []) MFirstElem st"
| "value_tok TBraceL st = push (FObj [] None) MFirstKey st"
| "value_tok _ st = None"

fun key_tok :: "tok \<Rightarrow> frame list \<Rightarrow> (frame list \<times> mode) option" where
  "key_tok (TStr k) (FObj kvs None # st) = Some (FObj kvs (Some k) # st, MColon)"
| "key_tok _ _ = None"

fun close_tok :: "tok \<Rightarrow> frame list \<Rightarrow> (frame list \<times> mode) option" where
  "close_tok TBrackR (FArr xs # st) = reduce (JArr (rev xs)) st"
| "close_tok TBraceR (FObj kvs None # st) = reduce (JObj (rev kvs)) st"
| "close_tok _ _ = None"

fun parse_step :: "tok \<Rightarrow> frame list \<times> mode \<Rightarrow> (frame list \<times> mode) option" where
  "parse_step t (st, MValue) = value_tok t st"
| "parse_step t (st, MFirstElem) = (if t = TBrackR then close_tok t st else value_tok t st)"
| "parse_step t (st, MFirstKey) = (if t = TBraceR then close_tok t st else key_tok t st)"
| "parse_step t (st, MKey) = key_tok t st"
| "parse_step t (st, MColon) = (if t = TColon then Some (st, MValue) else None)"
| "parse_step t (st, MAfter) =
     (if t = TComma
      then (case st of
              FArr xs # _ \<Rightarrow> Some (st, MValue)
            | FObj kvs k # _ \<Rightarrow> Some (st, MKey)
            | [] \<Rightarrow> None)
      else close_tok t st)"
| "parse_step t (st, MDone v) = None"

fun parse_toks :: "tok list \<Rightarrow> frame list \<times> mode \<Rightarrow> raw_json option" where
  "parse_toks [] (st, m) = (case m of MDone v \<Rightarrow> Some v | _ \<Rightarrow> None)"
| "parse_toks (t # ts) s = Option.bind (parse_step t s) (parse_toks ts)"

definition json_parse :: "string \<Rightarrow> raw_json option" where
  "json_parse s = Option.bind (lex s) (\<lambda>ts. parse_toks ts ([], MValue))"

section \<open>Go values\<close>

text \<open>
  Decoding a tree into \<open>any\<close>: a number becomes a \<open>float64\<close>, and one out of range makes the
  whole decoding report an error.
\<close>

fun any_of :: "raw_json \<Rightarrow> any option"
  and any_list :: "raw_json list \<Rightarrow> any list option"
  and any_members :: "(string \<times> raw_json) list \<Rightarrow> (string \<times> any) list option"
where
  "any_of JNull = Some JNull"
| "any_of (JBool b) = Some (JBool b)"
| "any_of (JNum n) = map_option JNum (parse_float n)"
| "any_of (JStr s) = Some (JStr s)"
| "any_of (JArr xs) = map_option JArr (any_list xs)"
| "any_of (JObj kvs) = map_option JObj (any_members kvs)"
| "any_list [] = Some []"
| "any_list (x # xs) =
     (case any_of x of None \<Rightarrow> None | Some y \<Rightarrow> map_option (\<lambda>ys. y # ys) (any_list xs))"
| "any_members [] = Some []"
| "any_members ((k, x) # kvs) =
     (case any_of x of None \<Rightarrow> None | Some y \<Rightarrow> map_option (\<lambda>ys. (k, y) # ys) (any_members kvs))"

text \<open>A decoded object as a Go map: of two members with one name the later wins.\<close>

definition go_map :: "(string \<times> 'n json) list \<Rightarrow> (string \<rightharpoonup> 'n json)" where
  "go_map kvs = map_of (rev kvs)"

end
