(* ===== verification/Uploader.thy ===== *)
theory Uploader
  imports Filesystem Json Rune_Filter "HOL-Library.Multiset"
begin

text \<open>
  \<open>internal/uploader/uploader.go\<close>: one multipart POST of a finished video and the verdict on the
  reply. The network and the random source are arguments: what came back, and the boundary.
\<close>

section \<open>Quoting\<close>

text \<open>
  \<open>strconv.Quote\<close>, which the \<open>%q\<close> verb prints: the table of printable runes past ASCII is the
  argument \<open>printable\<close>.
\<close>

definition is_print :: "(rune \<Rightarrow> bool) \<Rightarrow> rune \<Rightarrow> bool" where
  "is_print printable r \<longleftrightarrow> (if r < 0x80 then 32 \<le> r \<and> r \<le> 126 else printable r)"

definition quote_rune :: "(rune \<Rightarrow> bool) \<Rightarrow> rune \<Rightarrow> string" where
  "quote_rune printable r =
     (if r = 34 \<or> r = 92 then [backslash, chr r]
      else if is_print printable r then encode_rune r
      else if r = 7 then [backslash, CHR ''a''] else if r = 8 then [backslash, CHR ''b'']
      else if r = 12 then [backslash, CHR ''f''] else if r = 10 then [backslash, CHR ''n'']
      else if r = 13 then [backslash, CHR ''r''] else if r = 9 then [backslash, CHR ''t'']
      else if r = 11 then [backslash, CHR ''v'']
      else if r < 32 \<or> r = 127 then [backslash, CHR ''x''] @ hex_digits 2 r
      else if r < 0x10000 then [backslash, CHR ''u''] @ hex_digits 4 r
      else [backslash, CHR ''U''] @ hex_digits 8 r)"

definition quote_piece :: "(rune \<Rightarrow> bool) \<Rightarrow> rune \<times> string \<Rightarrow> string" where
  "quote_piece printable p =
     (if fst p = rune_error \<and> length (snd p) = 1
      then [backslash, CHR ''x''] @ hex_digits 2 (byte (hd (snd p)))
      else quote_rune printable (fst p))"

definition quote :: "(rune \<Rightarrow> bool) \<Rightarrow> string \<Rightarrow> string" where
  "quote printable s = [quote_char] @ concat (map (quote_piece printable) (decode s)) @ [quote_char]"

section \<open>The request\<close>

record request =
  rq_video :: path
  rq_cover :: "path option"
  rq_filename :: string
  rq_caption :: string
  rq_duration :: int
  rq_width :: int
  rq_height :: int

text \<open>The configured fields are a Go map: a list of pairs in no particular order.\<close>

record uploader =
  up_url :: string
  up_token :: string
  up_fields :: "(string \<times> string) list"

definition crlf :: string where "crlf = [chr 13, chr 10]"

definition field_part :: "(rune \<Rightarrow> bool) \<Rightarrow> string \<Rightarrow> string \<Rightarrow> string \<Rightarrow> bytes" where
  "field_part printable boundary name value =
     ''--'' @ boundary @ crlf @ ''Content-Disposition: form-data; name='' @ quote printable name
     @ crlf @ crlf @ value @ crlf"

text \<open>\<open>sortedKeys\<close>.\<close>

definition sorted_keys :: "(string \<times> string) list \<Rightarrow> string list" where
  "sorted_keys m = sort (map fst m)"

definition config_parts :: "(rune \<Rightarrow> bool) \<Rightarrow> uploader \<Rightarrow> string \<Rightarrow> bytes" where
  "config_parts printable u boundary =
     concat (map (\<lambda>k. field_part printable boundary k (the (map_of (up_fields u) k)))
               (sorted_keys (up_fields u)))"

definition service_fields :: "request \<Rightarrow> (string \<times> string) list" where
  "service_fields req =
     [(''caption'', rq_caption req), (''filename'', rq_filename req),
      (''duration'', itoa (rq_duration req)), (''width'', itoa (rq_width req)),
      (''height'', itoa (rq_height req)), (''no_audio'', ''true'')]"

definition service_parts :: "(rune \<Rightarrow> bool) \<Rightarrow> request \<Rightarrow> string \<Rightarrow> bytes" where
  "service_parts printable req boundary =
     concat (map (\<lambda>(k, v). field_part printable boundary k v) (service_fields req))"

definition quoted :: "string \<Rightarrow> string" where
  "quoted s = [quote_char] @ s @ [quote_char]"

definition cover_part :: "string \<Rightarrow> bytes \<Rightarrow> bytes" where
  "cover_part boundary cover =
     ''--'' @ boundary @ crlf @ ''Content-Disposition: form-data; name='' @ quoted ''thumbnail''
     @ ''; filename='' @ quoted ''cover.jpg'' @ crlf @ ''Content-Type: image/jpeg'' @ crlf @ crlf
     @ cover @ crlf"

definition video_header :: "(rune \<Rightarrow> bool) \<Rightarrow> request \<Rightarrow> string \<Rightarrow> bytes" where
  "video_header printable req boundary =
     ''--'' @ boundary @ crlf @ ''Content-Disposition: form-data; name='' @ quoted ''video''
     @ ''; filename='' @ quote printable (rq_filename req) @ crlf @ ''Content-Type: video/mp4''
     @ crlf @ crlf"

text \<open>\<open>prologue\<close>, with the bytes of the cover when it can be read and is not empty.\<close>

definition read_cover :: "'d os \<Rightarrow> path option \<Rightarrow> 'd os \<times> bytes" where
  "read_cover os cover =
     (case cover of
        None \<Rightarrow> (os, [])
      | Some p \<Rightarrow> (let (os1, c) = os_read os p in (os1, case c of Some (Bytes b) \<Rightarrow> b | _ \<Rightarrow> [])))"

definition prologue_text :: "(rune \<Rightarrow> bool) \<Rightarrow> uploader \<Rightarrow> string \<Rightarrow> request \<Rightarrow> bytes \<Rightarrow> bytes" where
  "prologue_text printable u boundary req cover =
     config_parts printable u boundary @ service_parts printable req boundary
     @ (if cover \<noteq> [] then cover_part boundary cover else []) @ video_header printable req boundary"

definition epilogue :: "string \<Rightarrow> bytes" where
  "epilogue boundary = crlf @ ''--'' @ boundary @ ''--'' @ crlf"

text \<open>\<open>randomBoundary\<close> from sixteen random bytes.\<close>

definition random_boundary :: "bytes \<Rightarrow> string" where
  "random_boundary b =
     ''----bambu'' @ concat (map (\<lambda>c. [hex_lower (byte c div 16), hex_lower (byte c mod 16)]) b)"

record message =
  ms_body :: bytes
  ms_length :: int
  ms_authorization :: string

section \<open>The verdict\<close>

definition error_body_limit :: nat where "error_body_limit = 65536"
definition server_error_floor :: int where "server_error_floor = 500"

text \<open>What the exchange came to: the URL does not parse, nothing answered, or a status and a body.\<close>

datatype reply = BadUrl | NoAnswer | Reply int bytes

datatype verdict = Posted | Refused bool

text \<open>
  Decoding the reply into the struct with \<open>data.message_ids\<close>: keys match whatever their case, by
  Unicode's simple folding, in which only two runes past ASCII fold to a letter.
\<close>

definition fold_rune :: "rune \<Rightarrow> rune" where
  "fold_rune r = (if r = 0x17F then 115 else if r = 0x212A then 107 else ascii_lower r)"

definition key_matches :: "string \<Rightarrow> string \<Rightarrow> bool" where
  "key_matches k name \<longleftrightarrow> map fold_rune (runes k) = map fold_rune (runes name)"

fun id_value_ok :: "raw_json \<Rightarrow> bool" where
  "id_value_ok JNull = True"
| "id_value_ok (JNum n) = (atoi n \<noteq> None)"
| "id_value_ok _ = False"

fun ids_ok :: "raw_json \<Rightarrow> bool" where
  "ids_ok JNull = True"
| "ids_ok (JArr xs) = list_all id_value_ok xs"
| "ids_ok _ = False"

fun data_ok :: "raw_json \<Rightarrow> bool" where
  "data_ok JNull = True"
| "data_ok (JObj kvs) = list_all (\<lambda>(k, v). key_matches k ''message_ids'' \<longrightarrow> ids_ok v) kvs"
| "data_ok _ = False"

fun reply_ok :: "raw_json \<Rightarrow> bool" where
  "reply_ok JNull = True"
| "reply_ok (JObj kvs) = list_all (\<lambda>(k, v). key_matches k ''data'' \<longrightarrow> data_ok v) kvs"
| "reply_ok _ = False"

definition decodes :: "bytes \<Rightarrow> bool" where
  "decodes payload = (case json_parse payload of Some v \<Rightarrow> reply_ok v | None \<Rightarrow> False)"

definition judge :: "reply \<Rightarrow> verdict" where
  "judge r =
     (case r of
        BadUrl \<Rightarrow> Refused False
      | NoAnswer \<Rightarrow> Refused True
      | Reply status body \<Rightarrow>
          (let payload = take error_body_limit body in
           if status \<noteq> 200 then Refused (server_error_floor \<le> status)
           else if decodes payload then Posted else Refused False))"

text \<open>
  \<open>Post\<close>: the disk after it, the message that was handed to the client, and the verdict. The
  random source may fail, and the video must open.
\<close>

definition post ::
  "(rune \<Rightarrow> bool) \<Rightarrow> uploader \<Rightarrow> 'd os \<Rightarrow> request \<Rightarrow> bytes option \<Rightarrow> reply
   \<Rightarrow> 'd os \<times> message option \<times> verdict" where
  "post printable u os req random r =
     (case random of
        None \<Rightarrow> (os, None, Refused True)
      | Some seed \<Rightarrow>
          (let boundary = random_boundary seed; (os1, video) = os_read os (rq_video req) in
           case video of
             Some (Bytes v) \<Rightarrow>
               (let (os2, cover) = read_cover os1 (rq_cover req);
                    pro = prologue_text printable u boundary req cover; epi = epilogue boundary
                in if r = BadUrl then (os2, None, judge r)
                   else (os2,
                         Some \<lparr>ms_body = pro @ v @ epi,
                               ms_length = int (length pro) + int (length v) + int (length epi),
                               ms_authorization = ''Bearer '' @ up_token u\<rparr>,
                         judge r))
           | _ \<Rightarrow> (os1, None, Refused False)))"

lemma read_cover_tree: "tree (fst (read_cover os c)) = tree os"
  by (simp add: read_cover_def split_beta split: option.split)

lemma post_tree: "tree (fst (post printable u os rq seed r)) = tree os"
  by (simp add: post_def Let_def split_beta read_cover_tree split: option.split content.split)

section \<open>Properties\<close>

text \<open>C36: the request does not depend on the order in which Go happens to walk the map of configured
  fields: any two orders of the same fields give the same bytes.\<close>

theorem prologue_order_independent:
  assumes "distinct (map fst fs)" and "mset fs = mset gs"
  shows "prologue_text printable (u\<lparr>up_fields := fs\<rparr>) boundary req cover
       = prologue_text printable (u\<lparr>up_fields := gs\<rparr>) boundary req cover"
proof -
  have keys: "mset (map fst fs) = mset (map fst gs)" using assms(2) by (metis mset_map)
  then have "sorted_keys fs = sorted_keys gs" by (simp add: sorted_keys_def sort_cong_mset)
  moreover have "map_of fs = map_of gs" using map_of_order [OF assms] .
  ultimately show ?thesis by (simp add: prologue_text_def config_parts_def)
qed

text \<open>The end of a quoted string, as a reader of the header finds it.\<close>

fun skip_quoted :: "string \<Rightarrow> string option" where
  "skip_quoted [] = None"
| "skip_quoted (c # cs) =
     (if c = quote_char then Some cs
      else if c = backslash then (case cs of [] \<Rightarrow> None | d # ds \<Rightarrow> skip_quoted ds)
      else skip_quoted cs)"

definition plain_char :: "char \<Rightarrow> bool" where
  "plain_char c \<longleftrightarrow> c \<noteq> quote_char \<and> c \<noteq> backslash \<and> byte c \<noteq> 10 \<and> byte c \<noteq> 13"

lemma skip_plain: "\<forall>c \<in> set xs. plain_char c \<Longrightarrow> skip_quoted (xs @ t) = skip_quoted t"
  by (induction xs) (auto simp: plain_char_def)

lemma quote_byte: "byte quote_char = 34" "byte backslash = 92"
  by (simp_all add: quote_char_def backslash_def byte_def)

lemma plain_byte: "byte c \<notin> {10, 13, 34, 92} \<Longrightarrow> plain_char c"
  using quote_byte by (auto simp: plain_char_def)

lemma hex_lower_plain: "d < 16 \<Longrightarrow> plain_char (hex_lower d)"
  by (rule plain_byte) (auto simp: hex_lower_def)

lemma hex_digits_plain: "c \<in> set (hex_digits k n) \<Longrightarrow> plain_char c"
  by (induction k arbitrary: n) (auto intro: hex_lower_plain)

text \<open>Every piece is plain text or one escape followed by plain text, without line breaks.\<close>

definition quiet :: "string \<Rightarrow> bool" where
  "quiet s \<longleftrightarrow> (\<forall>c \<in> set s. plain_char c)
     \<or> (\<exists>d t. s = backslash # d # t \<and> byte d \<noteq> 10 \<and> byte d \<noteq> 13 \<and> (\<forall>c \<in> set t. plain_char c))"

lemma quiet_escape:
  "byte d \<noteq> 10 \<Longrightarrow> byte d \<noteq> 13 \<Longrightarrow> \<forall>c \<in> set t. plain_char c \<Longrightarrow> quiet (backslash # d # t)"
  by (auto simp: quiet_def)

lemma quiet_encode:
  assumes "r \<noteq> 34" "r \<noteq> 92" "is_print printable r"
  shows "quiet (encode_rune r)"
proof -
  have "plain_char c" if c: "c \<in> set (encode_rune r)" for c
  proof (cases "byte c < 0x80")
    case True
    with encode_rune_low [OF c] assms show ?thesis by (intro plain_byte) (auto simp: is_print_def)
  qed (auto intro: plain_byte)
  then show ?thesis by (simp add: quiet_def)
qed

lemma quiet_rune: "quiet (quote_rune printable r)"
proof (cases "r = 34 \<or> r = 92")
  case True
  then show ?thesis by (auto simp: quote_rune_def intro!: quiet_escape)
next
  case False
  have esc: "quiet [backslash, d]" if "d \<in> set ''abfnrtv''" for d
    using that by (intro quiet_escape) (auto simp: byte_def)
  have hex: "quiet ([backslash, d] @ hex_digits k r)" if "d \<in> set ''xuU''" for d k
    using that hex_digits_plain by (auto simp: byte_def intro!: quiet_escape)
  show ?thesis
    using False quiet_encode [of r printable] esc hex by (simp add: quote_rune_def)
qed

lemma quiet_piece: "quiet (quote_piece printable p)"
  using hex_digits_plain quiet_rune
  by (auto simp: quote_piece_def byte_def intro!: quiet_escape)

lemma skip_quiet: "quiet s \<Longrightarrow> skip_quoted (s @ t) = skip_quoted t"
proof -
  have "backslash \<noteq> quote_char" using quote_byte by auto
  then show "quiet s \<Longrightarrow> skip_quoted (s @ t) = skip_quoted t"
    by (auto simp: quiet_def skip_plain)
qed

lemma skip_pieces: "\<forall>s \<in> set ss. quiet s \<Longrightarrow> skip_quoted (concat ss @ t) = skip_quoted t"
  by (induction ss) (simp_all add: skip_quiet)

lemma quiet_no_break: "quiet s \<Longrightarrow> c \<in> set s \<Longrightarrow> byte c \<noteq> 10 \<and> byte c \<noteq> 13"
  using quote_byte by (auto simp: quiet_def plain_char_def)

text \<open>A configured field name or a file name cannot break out of the part header it is printed
  in: the quoted text holds no line break, and the first unescaped quotation mark after the
  opening one is its own closing mark, whatever follows.\<close>

theorem quoted_name_contained:
  "(\<forall>c \<in> set (quote printable s). byte c \<noteq> 10 \<and> byte c \<noteq> 13)
   \<and> skip_quoted (tl (quote printable s) @ rest) = Some rest"
proof
  have q: "\<forall>x \<in> set (map (quote_piece printable) (decode s)). quiet x" using quiet_piece by auto
  show "\<forall>c \<in> set (quote printable s). byte c \<noteq> 10 \<and> byte c \<noteq> 13"
    using q quiet_no_break quote_byte by (fastforce simp: quote_def)
  show "skip_quoted (tl (quote printable s) @ rest) = Some rest"
    using skip_pieces [OF q] by (simp add: quote_def)
qed


text \<open>A message that is sent announces its exact length, and the file's bytes come last: after
  the video part's header there is nothing but the whole file and the closing boundary.\<close>

theorem message_shape:
  assumes "post printable u os req (Some seed) r = (os', Some msg, v)"
  shows "ms_length msg = int (length (ms_body msg))
    \<and> (\<exists>pre video. file_at os (rq_video req) = Some (Bytes video)
          \<and> ms_body msg = pre @ video_header printable req (random_boundary seed) @ video
              @ epilogue (random_boundary seed))"
proof -
  obtain os1 video cover where rd: "os_read os (rq_video req) = (os1, Some (Bytes video))"
    and "ms_body msg = prologue_text printable u (random_boundary seed) req cover @ video
            @ epilogue (random_boundary seed)"
    and "ms_length msg = int (length (ms_body msg))"
    using assms
    by (auto simp: post_def Let_def split: prod.splits option.splits content.splits if_splits)
  moreover have "file_at os (rq_video req) = Some (Bytes video)"
    using os_read_Some [of os "rq_video req" "Bytes video"] rd by simp
  ultimately show ?thesis by (auto simp: prologue_text_def)
qed

section \<open>Witnesses\<close>

definition sample_request :: request where
  "sample_request =
     \<lparr>rq_video = [''v.mp4''], rq_cover = None, rq_filename = ''v.mp4'', rq_caption = ''done'',
      rq_duration = 4, rq_width = 0, rq_height = 0\<rparr>"

definition upload_os :: "unit os" where
  "upload_os = \<lparr>tree = [([], Dir 0), ([''v.mp4''], File (Bytes ''video'') 0)], clock = 0, zone = 0,
                tick = 0, outcomes = (\<lambda>n. Works)\<rparr>"

definition sample_uploader :: uploader where
  "sample_uploader = \<lparr>up_url = ''http://x'', up_token = ''t'', up_fields = [(''chat'', ''1''), (''topic'', ''2'')]\<rparr>"

theorem prologue_order_independent_witness:
  "prologue_text (\<lambda>r. False) (sample_uploader\<lparr>up_fields := [(''chat'', ''1''), (''topic'', ''2'')]\<rparr>) ''b'' sample_request []
   = prologue_text (\<lambda>r. False) (sample_uploader\<lparr>up_fields := [(''topic'', ''2''), (''chat'', ''1'')]\<rparr>) ''b'' sample_request []"
  by (rule prologue_order_independent) simp_all

theorem quoted_name_contained_witness:
  "skip_quoted (tl (quote (\<lambda>r. False) (quoted ''x'')) @ ''; rest'') = Some ''; rest''"
  using quoted_name_contained [of "\<lambda>r. False" "quoted ''x''"] by blast

theorem message_shape_witness:
  "\<exists>msg. fst (snd (post (\<lambda>r. False) sample_uploader upload_os sample_request (Some ''0123456789abcdef'') NoAnswer)) = Some msg
    \<and> ms_length msg = int (length (ms_body msg))"
proof -
  let ?p = "post (\<lambda>r. False) sample_uploader upload_os sample_request (Some ''0123456789abcdef'') NoAnswer"
  have "fst (snd ?p) \<noteq> None"
    by (simp add: post_def os_read_def syscall_def file_at_def node_at_def upload_os_def
        sample_request_def read_cover_def Let_def)
  then obtain msg where m: "fst (snd ?p) = Some msg" by blast
  then have "?p = (fst ?p, Some msg, snd (snd ?p))" by (simp add: prod_eq_iff)
  from message_shape [OF this] m show ?thesis by blast
qed

end
