(* ===== verification/Go_Text.thy ===== *)
theory Go_Text
  imports Json "HOL-Library.Char_ord" "HOL-Library.List_Lexorder" "HOL-Library.Code_Target_Numeral"
begin

text \<open>
  Go's text forms beyond the plain strings: the \<open>%v\<close> verb and the JSON encoding of a decoded value,
  and durations and integers as \<open>flag\<close> reads them and \<open>fmt\<close> prints them. A Go map is a list of pairs
  in no particular order; both forms print it sorted by its keys.
\<close>

section \<open>Maps in order\<close>

text \<open>Of two members with one name the later wins, and the keys are sorted.\<close>

fun newest :: "('k \<times> 'v) list \<Rightarrow> ('k \<times> 'v) list" where
  "newest [] = []"
| "newest ((k, v) # kvs) = (if k \<in> fst ` set kvs then newest kvs else (k, v) # newest kvs)"

definition go_entries :: "(string \<times> 'v) list \<Rightarrow> (string \<times> 'v) list" where
  "go_entries kvs = sort_key fst (newest kvs)"

section \<open>Numbers\<close>

text \<open>Scientific notation of a positive number: the decimal and its power of ten.\<close>

definition exponent_of :: "rat \<Rightarrow> int" where
  "exponent_of y = scale10 y"

definition exp_decimal :: "(nat \<Rightarrow> string) \<Rightarrow> rat \<Rightarrow> string" where
  "exp_decimal print_exp y =
     (let e = exponent_of y
      in plain_decimal (y / pow10 e) @ (if e < 0 then ''e-'' else ''e+'') @ print_exp (nat \<bar>e\<bar>))"

text \<open>The verb \<open>%v\<close>, which is \<open>%g\<close> with the fewest digits.\<close>

fun fmt_general :: "f64 \<Rightarrow> string" where
  "fmt_general (Fin r) =
     (if r = 0 then ''0''
      else (let y = shortest 17 1 \<bar>r\<bar>; e = exponent_of y
            in (if r < 0 then ''-'' else [])
               @ (if e < - 4 \<or> 6 \<le> e then exp_decimal (\<lambda>n. fmt_0d 2 (int n)) y else plain_decimal y)))"
| "fmt_general v = fmt_shortest v"

text \<open>JSON: plain notation except for very small and very large numbers.\<close>

fun json_float :: "f64 \<Rightarrow> string" where
  "json_float (Fin r) =
     (if r \<noteq> 0 \<and> (\<bar>r\<bar> < 1 / 10 ^ 6 \<or> 10 ^ 21 \<le> \<bar>r\<bar>)
      then (if r < 0 then ''-'' else []) @ exp_decimal dec (shortest 17 1 \<bar>r\<bar>)
      else fmt_shortest (Fin r))"
| "json_float v = fmt_shortest v"

section \<open>Values\<close>

text \<open>The verb \<open>%v\<close> of a decoded value.\<close>

fun show_any :: "any \<Rightarrow> string"
  and show_list :: "any list \<Rightarrow> string list"
  and show_members :: "(string \<times> any) list \<Rightarrow> (string \<times> string) list"
where
  "show_any JNull = ''<nil>''"
| "show_any (JBool b) = (if b then ''true'' else ''false'')"
| "show_any (JNum f) = fmt_general f"
| "show_any (JStr s) = s"
| "show_any (JArr xs) = ''['' @ join '' '' (show_list xs) @ '']''"
| "show_any (JObj kvs) =
     ''map['' @ join '' '' (map (\<lambda>(k, t). k @ '':'' @ t) (go_entries (show_members kvs))) @ '']''"
| "show_list [] = []"
| "show_list (x # xs) = show_any x # show_list xs"
| "show_members [] = []"
| "show_members ((k, x) # kvs) = (k, show_any x) # show_members kvs"

text \<open>A string literal of \<open>encoding/json\<close>, which also escapes what HTML would read.\<close>

definition json_piece :: "rune \<times> string \<Rightarrow> string" where
  "json_piece p =
     (let r = fst p in
      if r = rune_error \<and> length (snd p) = 1 then [backslash, CHR ''u''] @ hex_digits 4 rune_error
      else if r = 34 \<or> r = 92 then [backslash, chr r]
      else if r = 8 then [backslash, CHR ''b''] else if r = 12 then [backslash, CHR ''f'']
      else if r = 10 then [backslash, CHR ''n''] else if r = 13 then [backslash, CHR ''r'']
      else if r = 9 then [backslash, CHR ''t'']
      else if r < 32 \<or> r \<in> {38, 60, 62, 0x2028, 0x2029} then [backslash, CHR ''u''] @ hex_digits 4 r
      else snd p)"

definition json_string :: "string \<Rightarrow> string" where
  "json_string s = [quote_char] @ concat (map json_piece (decode s)) @ [quote_char]"

text \<open>\<open>MarshalIndent(v, \"\", \"  \")\<close>; a number that is not finite is an error.\<close>

fun json_ok :: "any \<Rightarrow> bool" and json_ok_list :: "any list \<Rightarrow> bool"
  and json_ok_members :: "(string \<times> any) list \<Rightarrow> bool"
where
  "json_ok (JNum f) = is_finite f"
| "json_ok (JArr xs) = json_ok_list xs"
| "json_ok (JObj kvs) = json_ok_members kvs"
| "json_ok v = True"
| "json_ok_list [] = True"
| "json_ok_list (x # xs) = (json_ok x \<and> json_ok_list xs)"
| "json_ok_members [] = True"
| "json_ok_members ((k, x) # kvs) = (json_ok x \<and> json_ok_members kvs)"

definition json_line :: "nat \<Rightarrow> string" where
  "json_line d = chr 10 # concat (replicate d ''  '')"

definition json_block :: "char \<Rightarrow> char \<Rightarrow> nat \<Rightarrow> string list \<Rightarrow> string" where
  "json_block a b d xs =
     (if xs = [] then [a, b]
      else a # json_line (Suc d) @ join (CHR '','' # json_line (Suc d)) xs @ json_line d @ [b])"

fun json_text :: "nat \<Rightarrow> any \<Rightarrow> string"
  and json_texts :: "nat \<Rightarrow> any list \<Rightarrow> string list"
  and json_member_texts :: "nat \<Rightarrow> (string \<times> any) list \<Rightarrow> (string \<times> string) list"
where
  "json_text d JNull = ''null''"
| "json_text d (JBool b) = (if b then ''true'' else ''false'')"
| "json_text d (JNum f) = json_float f"
| "json_text d (JStr s) = json_string s"
| "json_text d (JArr xs) = json_block (CHR ''['') (CHR '']'') d (json_texts (Suc d) xs)"
| "json_text d (JObj kvs) =
     json_block (CHR ''{'') (CHR ''}'') d
       (map (\<lambda>(k, t). json_string k @ '': '' @ t) (go_entries (json_member_texts (Suc d) kvs)))"
| "json_texts d [] = []"
| "json_texts d (x # xs) = json_text d x # json_texts d xs"
| "json_member_texts d [] = []"
| "json_member_texts d ((k, x) # kvs) = (k, json_text d x) # json_member_texts d kvs"

definition marshal_indent :: "any \<Rightarrow> string option" where
  "marshal_indent v = (if json_ok v then Some (json_text 0 v) else None)"

section \<open>Durations\<close>

text \<open>\<open>Duration.String\<close>.\<close>

definition frac_text :: "nat \<Rightarrow> nat \<Rightarrow> string" where
  "frac_text p v =
     (let f = v mod 10 ^ p in
      if f = 0 then [] else CHR ''.'' # rev (dropWhile (\<lambda>c. c = CHR ''0'') (rev (pad_left p (dec f)))))"

definition duration_string :: "nanos \<Rightarrow> string" where
  "duration_string d =
     (let u = nat \<bar>d\<bar>; s = u div 10 ^ 9; m = s div 60; h = m div 60 in
      (if d < 0 then ''-'' else [])
      @ (if u = 0 then ''0s''
         else if u < 10 ^ 3 then dec u @ ''ns''
         else if u < 10 ^ 6 then dec (u div 10 ^ 3) @ frac_text 3 u @ encode [0xB5] @ ''s''
         else if u < 10 ^ 9 then dec (u div 10 ^ 6) @ frac_text 6 u @ ''ms''
         else (if 0 < h then dec h @ ''h'' else []) @ (if 0 < m then dec (m mod 60) @ ''m'' else [])
              @ dec (s mod 60) @ frac_text 9 u @ ''s''))"

text \<open>
  \<open>time.ParseDuration\<close>: numbers with units, added up in 64 bits. The digits of a fraction that do
  not fit are dropped.
\<close>

definition duration_units :: "(string \<times> nat) list" where
  "duration_units =
     [(''ns'', 1), (''us'', 10 ^ 3), (encode [0xB5] @ ''s'', 10 ^ 3), (encode [0x3BC] @ ''s'', 10 ^ 3),
      (''ms'', 10 ^ 6), (''s'', 10 ^ 9), (''m'', 60 * 10 ^ 9), (''h'', 3600 * 10 ^ 9)]"

fun leading_int :: "nat \<Rightarrow> string \<Rightarrow> nat option" where
  "leading_int x [] = Some x"
| "leading_int x (c # cs) =
     (if 2 ^ 63 div 10 < x then None
      else (let y = 10 * x + (byte c - 48) in if 2 ^ 63 < y then None else leading_int y cs))"

fun leading_fraction :: "nat \<Rightarrow> nat \<Rightarrow> string \<Rightarrow> nat \<times> nat" where
  "leading_fraction x scale [] = (x, scale)"
| "leading_fraction x scale (c # cs) =
     (let y = 10 * x + (byte c - 48) in
      if (2 ^ 63 - 1) div 10 < x \<or> 2 ^ 63 < y then (x, scale)
      else leading_fraction y (10 * scale) cs)"

definition fraction_nanos :: "nat \<Rightarrow> nat \<Rightarrow> nat \<Rightarrow> nat" where
  "fraction_nanos f scale unit =
     (case round64 (val (f64_of_int (int f)) * val (f64_div (f64_of_int (int unit)) (f64_of_int (int scale)))) of
        Fin r \<Rightarrow> nat \<lfloor>r\<rfloor> | _ \<Rightarrow> 0)"

text \<open>One number with its unit, and what follows it.\<close>

definition duration_part :: "string \<Rightarrow> (nat \<times> string) option" where
  "duration_part s =
     (let whole = takeWhile is_digit s; s1 = dropWhile is_digit s;
          point = has_prefix s1 ''.''; s2 = (if point then tl s1 else s1);
          frac = (if point then takeWhile is_digit s2 else []);
          s3 = (if point then dropWhile is_digit s2 else s2);
          unit = takeWhile (\<lambda>c. c \<noteq> CHR ''.'' \<and> \<not> is_digit c) s3;
          rest = dropWhile (\<lambda>c. c \<noteq> CHR ''.'' \<and> \<not> is_digit c) s3
      in if whole = [] \<and> frac = [] \<or> unit = [] then None
         else (case (leading_int 0 whole, map_of duration_units unit) of
                 (Some v, Some u) \<Rightarrow>
                   if 2 ^ 63 div u < v then None
                   else (let (f, scale) = leading_fraction 0 1 frac;
                             w = v * u + (if 0 < f then fraction_nanos f scale u else 0)
                         in if 2 ^ 63 < w then None else Some (w, rest))
               | _ \<Rightarrow> None))"

lemma duration_part_shorter: "duration_part s = Some (w, rest) \<Longrightarrow> length rest < length s"
proof -
  assume a: "duration_part s = Some (w, rest)"
  let ?p = "\<lambda>c. c \<noteq> CHR ''.'' \<and> \<not> is_digit c"
  obtain s3 where s3: "rest = dropWhile ?p s3" "takeWhile ?p s3 \<noteq> []" "length s3 \<le> length s"
  proof -
    let ?s1 = "dropWhile is_digit s"
    let ?s2 = "if has_prefix ?s1 ''.'' then tl ?s1 else ?s1"
    let ?s3 = "if has_prefix ?s1 ''.'' then dropWhile is_digit ?s2 else ?s2"
    have "length ?s3 \<le> length s"
      using length_dropWhile_le [of is_digit s] length_dropWhile_le [of is_digit ?s2] by (auto simp: le_diff_conv)
    then show ?thesis
      using that [of ?s3] a by (auto simp: duration_part_def Let_def split: if_splits option.splits prod.splits)
  qed
  have "length (takeWhile ?p s3) + length (dropWhile ?p s3) = length s3"
    by (metis length_append takeWhile_dropWhile_id)
  with s3 show ?thesis by (cases "takeWhile ?p s3") simp_all
qed

function duration_parts :: "nat \<Rightarrow> string \<Rightarrow> nat option" where
  "duration_parts d s =
     (if s = [] then Some d
      else (case duration_part s of
              None \<Rightarrow> None
            | Some (v, rest) \<Rightarrow>
                (let e = (d + v) mod 2 ^ 64 in if 2 ^ 63 < e then None else duration_parts e rest)))"
  by pat_completeness auto
termination
  by (relation "measure (\<lambda>(d, s). length s)") (auto dest: duration_part_shorter)

declare duration_parts.simps [simp del]

definition parse_duration :: "string \<Rightarrow> nanos option" where
  "parse_duration s =
     (let neg = has_prefix s ''-''; t = (if neg \<or> has_prefix s ''+'' then tl s else s) in
      if t = ''0'' then Some 0
      else if t = [] then None
      else (case duration_parts 0 t of
              None \<Rightarrow> None
            | Some d \<Rightarrow> if neg then Some (- int d) else if 2 ^ 63 \<le> d then None else Some (int d)))"

section \<open>Integers with a base\<close>

text \<open>\<open>strconv.ParseInt(s, 0, 64)\<close>: the prefix says the base, underscores may stand between digits.\<close>

definition lower_byte :: "char \<Rightarrow> nat" where
  "lower_byte c = (if 65 \<le> byte c \<and> byte c \<le> 90 then byte c + 32 else byte c)"

definition base_digit :: "char \<Rightarrow> nat option" where
  "base_digit c =
     (if is_digit c then Some (byte c - 48)
      else if 97 \<le> lower_byte c \<and> lower_byte c \<le> 122 then Some (lower_byte c - 87) else None)"

fun base_digits :: "nat \<Rightarrow> nat \<Rightarrow> string \<Rightarrow> nat option" where
  "base_digits b n [] = Some n"
| "base_digits b n (c # cs) =
     (if c = CHR ''_'' then base_digits b n cs
      else (case base_digit c of
              None \<Rightarrow> None
            | Some d \<Rightarrow> if d < b then base_digits b (b * n + d) cs else None))"

definition base_prefix :: "string \<Rightarrow> nat option" where
  "base_prefix s =
     (case s of
        z # c # cs \<Rightarrow>
          if z \<noteq> CHR ''0'' then None
          else if lower_byte c = 98 then Some 2 else if lower_byte c = 111 then Some 8
          else if lower_byte c = 120 then Some 16 else None
      | _ \<Rightarrow> None)"

definition parse_int0 :: "string \<Rightarrow> int option" where
  "parse_int0 s =
     (let neg = has_prefix s ''-''; t = (if neg \<or> has_prefix s ''+'' then tl s else s);
          p = base_prefix t;
          (b, ds) = (case p of
                       Some base \<Rightarrow> if 3 \<le> length t then (base, drop 2 t) else (8, tl t)
                     | None \<Rightarrow> if has_prefix t ''0'' then (8, tl t) else (10, t))
      in if t = [] then None
         else if CHR ''_'' \<in> set ds
                 \<and> \<not> (if p = None then underscores_ok False (CHR ''^'') t
                      else underscores_ok (p = Some 16) (CHR ''0'') (drop 2 t)) then None
         else (case base_digits b 0 ds of
                 None \<Rightarrow> None
               | Some n \<Rightarrow> (let v = (if neg then - int n else int n)
                            in if in_int64 v then Some v else None)))"

end
