(* ===== verification/Config.thy ===== *)
theory Config
  imports Go_Text "HOL-Library.Code_Target_Numeral"
begin

text \<open>
  \<open>internal/config/config.go\<close>: the configuration read from the environment. Every problem is an
  entry of the error list; the environment, after \<open>.env\<close> has been folded into it, is a function
  from names to values, the empty string for a variable that is not set.
\<close>

section \<open>Values\<close>

type_synonym env = "string \<Rightarrow> string"

datatype problem =
    Missing string
  | NotNumber string
  | NotBool string
  | BadFields
  | BadFps
  | NegativeDelay
  | NegativeHold
  | BadCrop

record config =
  c_host :: string
  c_serial :: string
  c_code :: string
  c_printer :: string
  c_api_url :: string
  c_api_token :: string
  c_api_fields :: "(string \<times> string) list"
  c_staging :: string
  c_output :: string
  c_once :: bool
  c_fps :: int
  c_capture_delay :: nanos
  c_crop :: string
  c_overlay :: bool
  c_overlay_font :: string
  c_ffmpeg :: string
  c_ffprobe :: string
  c_preview_timeout :: nanos
  c_intro :: nanos
  c_tail :: nanos
  c_min_frames :: int
  c_final_delay :: nanos
  c_capture_timeout :: nanos
  c_min_free :: nat
  c_failed_ttl :: nanos
  c_listen :: string

definition second :: int where "second = 10 ^ 9"
definition hour :: int where "hour = 3600 * 10 ^ 9"

text \<open>\<open>megabytes\<close>: the product is a 64-bit one.\<close>

definition megabytes :: "int \<Rightarrow> nat" where
  "megabytes n = (if n \<le> 0 then 0 else (nat n * 1048576) mod 2 ^ 64)"

text \<open>\<open>cropSpec\<close>: four runs of digits with colons between them.\<close>

definition crop_spec :: "string \<Rightarrow> bool" where
  "crop_spec s \<longleftrightarrow>
     (case split_on (CHR '':'') s of
        [a, b, c, d] \<Rightarrow> list_all (\<lambda>x. x \<noteq> [] \<and> list_all is_digit x) [a, b, c, d]
      | _ \<Rightarrow> False)"

text \<open>\<open>strconv.ParseBool\<close>.\<close>

definition parse_bool :: "string \<Rightarrow> bool option" where
  "parse_bool s =
     (if s \<in> set [''1'', ''t'', ''T'', ''TRUE'', ''true'', ''True''] then Some True
      else if s \<in> set [''0'', ''f'', ''F'', ''FALSE'', ''false'', ''False''] then Some False
      else None)"

section \<open>Reading\<close>

definition raw :: "env \<Rightarrow> string \<Rightarrow> string" where
  "raw e key = trim_space (e key)"

definition req :: "env \<Rightarrow> string \<Rightarrow> string \<times> problem list" where
  "req e key = (let v = raw e key in (v, if v = [] then [Missing key] else []))"

definition num :: "env \<Rightarrow> string \<Rightarrow> int \<Rightarrow> int \<times> problem list" where
  "num e key def =
     (let v = raw e key in
      if v = [] then (def, [])
      else (case atoi v of None \<Rightarrow> (def, [NotNumber key]) | Some n \<Rightarrow> (n, [])))"

definition sink :: "bool \<Rightarrow> env \<Rightarrow> string \<Rightarrow> string \<times> problem list" where
  "sink need e key = (if need then req e key else (raw e key, []))"

definition flag :: "env \<Rightarrow> string \<Rightarrow> bool \<Rightarrow> bool \<times> problem list" where
  "flag e key def =
     (let v = raw e key in
      if v = [] then (def, [])
      else (case parse_bool v of None \<Rightarrow> (def, [NotBool key]) | Some b \<Rightarrow> (b, [])))"

definition str :: "env \<Rightarrow> string \<Rightarrow> string \<Rightarrow> string" where
  "str e key def = (let v = raw e key in if v \<noteq> [] then v else def)"

section \<open>Validation\<close>

text \<open>\<open>MEDIA_API_FIELDS\<close> into a map of strings: a null value reads as the empty string.\<close>

fun string_member :: "string \<times> raw_json \<Rightarrow> (string \<times> string) option" where
  "string_member (k, JStr v) = Some (k, v)"
| "string_member (k, JNull) = Some (k, [])"
| "string_member _ = None"

text \<open>None for an error: the fields are not used then, as the service does not start.\<close>

definition api_fields :: "string \<Rightarrow> (string \<times> string) list option" where
  "api_fields s =
     (case json_parse s of
        Some JNull \<Rightarrow> Some []
      | Some (JObj kvs) \<Rightarrow>
          (if list_all (\<lambda>m. string_member m \<noteq> None) kvs
           then Some (newest (List.map_filter string_member kvs)) else None)
      | _ \<Rightarrow> None)"

definition validate :: "env \<Rightarrow> config \<Rightarrow> config \<times> problem list" where
  "validate e c =
     (let fs = raw e ''MEDIA_API_FIELDS'';
          (c', errs) = (if fs = [] then (c, [])
                        else (case api_fields fs of
                                None \<Rightarrow> (c, [BadFields]) | Some m \<Rightarrow> (c\<lparr>c_api_fields := m\<rparr>, [])))
      in (c', errs
          @ (if c_fps c \<le> 0 then [BadFps] else [])
          @ (if c_capture_delay c < 0 then [NegativeDelay] else [])
          @ (if c_intro c < 0 \<or> c_tail c < 0 then [NegativeHold] else [])
          @ (if c_crop c \<noteq> [] \<and> \<not> crop_spec (c_crop c) then [BadCrop] else [])))"

section \<open>Loading\<close>

text \<open>\<open>load\<close>, in the order of the struct literal.\<close>

definition read_config :: "bool \<Rightarrow> env \<Rightarrow> config \<times> problem list" where
  "read_config need e =
     (let (host, e1) = req e ''PRINTER_HOST'';
          (serial, e2) = req e ''PRINTER_SERIAL'';
          (code, e3) = req e ''PRINTER_ACCESS_CODE'';
          (url, e4) = sink need e ''MEDIA_API_URL'';
          (token, e5) = sink need e ''MEDIA_API_TOKEN'';
          (fps, e6) = num e ''TIMELAPSE_FPS'' 20;
          (delay, e7) = num e ''CAPTURE_DELAY'' 0;
          (ov, e8) = flag e ''OVERLAY'' True;
          (pre, e9) = num e ''PREVIEW_TIMEOUT'' 20;
          (intro, e10) = num e ''INTRO_HOLD'' 2;
          (tail, e11) = num e ''TAIL_HOLD'' 2;
          (frames, e12) = num e ''MIN_FRAMES'' 30;
          (final, e13) = num e ''FINAL_FRAME_DELAY'' 45;
          (capt, e14) = num e ''CAPTURE_TIMEOUT'' 25;
          (free, e15) = num e ''MIN_FREE_MB'' 2048;
          (ttl, e16) = num e ''FAILED_TTL_DAYS'' 7
      in (\<lparr>c_host = host, c_serial = serial, c_code = code, c_printer = str e ''PRINTER_NAME'' ''printer'',
           c_api_url = url, c_api_token = token, c_api_fields = [],
           c_staging = str e ''STAGING_DIR'' ''/staging'', c_output = str e ''OUTPUT_DIR'' [],
           c_once = False, c_fps = fps, c_capture_delay = wrap64 (delay * second),
           c_crop = str e ''CROP'' [], c_overlay = ov, c_overlay_font = str e ''OVERLAY_FONT'' [],
           c_ffmpeg = str e ''FFMPEG_BIN'' ''ffmpeg'', c_ffprobe = str e ''FFPROBE_BIN'' ''ffprobe'',
           c_preview_timeout = wrap64 (pre * second), c_intro = wrap64 (intro * second),
           c_tail = wrap64 (tail * second), c_min_frames = frames,
           c_final_delay = wrap64 (final * second), c_capture_timeout = wrap64 (capt * second),
           c_min_free = megabytes free, c_failed_ttl = wrap64 (wrap64 (ttl * 24) * hour),
           c_listen = str e ''LISTEN_ADDR'' '':8092''\<rparr>,
          concat [e1, e2, e3, e4, e5, e6, e7, e8, e9, e10, e11, e12, e13, e14, e15, e16]))"

definition load_config :: "bool \<Rightarrow> env \<Rightarrow> config \<times> problem list" where
  "load_config need e =
     (let (c, errs) = read_config need e; (c', more) = validate e c in (c', errs @ more))"

section \<open>Properties\<close>

definition required_keys :: "bool \<Rightarrow> string list" where
  "required_keys need =
     [''PRINTER_HOST'', ''PRINTER_SERIAL'', ''PRINTER_ACCESS_CODE'']
     @ (if need then [''MEDIA_API_URL'', ''MEDIA_API_TOKEN''] else [])"

definition number_keys :: "string list" where
  "number_keys =
     [''TIMELAPSE_FPS'', ''CAPTURE_DELAY'', ''PREVIEW_TIMEOUT'', ''INTRO_HOLD'', ''TAIL_HOLD'', ''MIN_FRAMES'',
      ''FINAL_FRAME_DELAY'', ''CAPTURE_TIMEOUT'', ''MIN_FREE_MB'', ''FAILED_TTL_DAYS'']"

lemma read_errors:
  "snd (read_config need e) =
     concat (map (\<lambda>k. snd (req e k)) [''PRINTER_HOST'', ''PRINTER_SERIAL'', ''PRINTER_ACCESS_CODE''])
     @ concat (map (\<lambda>k. snd (sink need e k)) [''MEDIA_API_URL'', ''MEDIA_API_TOKEN''])
     @ snd (num e ''TIMELAPSE_FPS'' 20) @ snd (num e ''CAPTURE_DELAY'' 0) @ snd (flag e ''OVERLAY'' True)
     @ snd (num e ''PREVIEW_TIMEOUT'' 20) @ snd (num e ''INTRO_HOLD'' 2) @ snd (num e ''TAIL_HOLD'' 2)
     @ snd (num e ''MIN_FRAMES'' 30) @ snd (num e ''FINAL_FRAME_DELAY'' 45) @ snd (num e ''CAPTURE_TIMEOUT'' 25)
     @ snd (num e ''MIN_FREE_MB'' 2048) @ snd (num e ''FAILED_TTL_DAYS'' 7)"
  by (simp add: read_config_def split_beta Let_def)

lemma req_errors: "set (snd (req e k)) = (if raw e k = [] then {Missing k} else {})"
  by (simp add: req_def Let_def)

lemma sink_errors: "set (snd (sink need e k)) = (if need \<and> raw e k = [] then {Missing k} else {})"
  by (simp add: sink_def req_def Let_def)

lemma num_errors:
  "set (snd (num e k d)) = (if raw e k \<noteq> [] \<and> atoi (raw e k) = None then {NotNumber k} else {})"
  by (auto simp: num_def Let_def split: option.split)

lemma flag_errors:
  "set (snd (flag e k d)) = (if raw e k \<noteq> [] \<and> parse_bool (raw e k) = None then {NotBool k} else {})"
  by (auto simp: flag_def Let_def split: option.split)

lemma read_error_set:
  "set (snd (read_config need e)) =
     Missing ` {k \<in> set (required_keys need). raw e k = []}
     \<union> NotNumber ` {k \<in> set number_keys. raw e k \<noteq> [] \<and> atoi (raw e k) = None}
     \<union> NotBool ` {k \<in> {''OVERLAY''}. raw e k \<noteq> [] \<and> parse_bool (raw e k) = None}"
proof -
  define M where "M = (\<lambda>k. if raw e k = [] then {Missing k} else {})"
  define N where "N = (\<lambda>k. if raw e k \<noteq> [] \<and> atoi (raw e k) = None then {NotNumber k} else {})"
  define B where "B = (\<lambda>k. if raw e k \<noteq> [] \<and> parse_bool (raw e k) = None then {NotBool k} else {})"
  have folds: "set (snd (req e k)) = M k" "set (snd (sink need e k)) = (if need then M k else {})"
    "set (snd (num e k d)) = N k" "set (snd (flag e k f)) = B k" for k d f
    by (simp_all add: M_def N_def B_def req_errors sink_errors num_errors flag_errors)
  have "set (snd (read_config need e)) =
      (\<Union>k \<in> set (required_keys need). M k) \<union> (\<Union>k \<in> set number_keys. N k) \<union> B ''OVERLAY''"
    unfolding read_errors set_append set_concat set_map image_image folds required_keys_def number_keys_def
    by (cases need) (simp_all only: if_True if_False list.set set_append append.simps UN_insert UN_empty
        Un_empty_right Un_empty_left Un_ac image_Un Union_Un_distrib image_insert image_empty Union_insert Union_empty)
  also have "\<dots> = Missing ` {k \<in> set (required_keys need). raw e k = []}
     \<union> NotNumber ` {k \<in> set number_keys. raw e k \<noteq> [] \<and> atoi (raw e k) = None}
     \<union> NotBool ` {k \<in> {''OVERLAY''}. raw e k \<noteq> [] \<and> parse_bool (raw e k) = None}"
    unfolding M_def N_def B_def by (intro arg_cong2 [where f = "(\<union>)"]) auto
  finally show ?thesis .
qed

definition rule_problems :: "problem set" where
  "rule_problems = {BadFields, BadFps, NegativeDelay, NegativeHold, BadCrop}"

lemma validate_problems: "set (snd (validate e c)) \<subseteq> rule_problems"
  by (auto simp: validate_def rule_problems_def Let_def split: option.splits if_splits)


lemma validate_keeps:
  "fst (validate e c) = c\<lparr>c_api_fields := c_api_fields (fst (validate e c))\<rparr>"
  by (auto simp: validate_def Let_def split: option.splits)

lemma validate_clean:
  assumes "snd (validate e c) = []"
  shows "0 < c_fps c \<and> 0 \<le> c_capture_delay c \<and> 0 \<le> c_intro c \<and> 0 \<le> c_tail c
    \<and> (c_crop c = [] \<or> crop_spec (c_crop c))"
  using assms by (auto simp: validate_def Let_def split: option.splits if_splits)

lemma read_required:
  assumes "snd (read_config need e) = []"
  shows "c_host (fst (read_config need e)) \<noteq> [] \<and> c_serial (fst (read_config need e)) \<noteq> []
    \<and> c_code (fst (read_config need e)) \<noteq> []
    \<and> (need \<longrightarrow> c_api_url (fst (read_config need e)) \<noteq> [] \<and> c_api_token (fst (read_config need e)) \<noteq> [])"
proof -
  have "set (snd (read_config need e)) = {}" using assms by simp
  then have "\<forall>k \<in> set (required_keys need). raw e k \<noteq> []" unfolding read_error_set by auto
  then show ?thesis
    by (auto simp: read_config_def split_beta Let_def req_def sink_def required_keys_def)
qed

text \<open>A configuration that is accepted is usable: the frame rate is positive, no delay or hold is
  negative, the crop is absent or numeric, the printer's address and credentials are there, and
  so is the destination when the service is to publish.\<close>

theorem accepted_config_usable:
  assumes "load_config need e = (c, [])"
  shows "0 < c_fps c \<and> 0 \<le> c_capture_delay c \<and> 0 \<le> c_intro c \<and> 0 \<le> c_tail c
    \<and> (c_crop c = [] \<or> crop_spec (c_crop c))
    \<and> c_host c \<noteq> [] \<and> c_serial c \<noteq> [] \<and> c_code c \<noteq> []
    \<and> (need \<longrightarrow> c_api_url c \<noteq> [] \<and> c_api_token c \<noteq> [])"
proof -
  let ?r = "read_config need e"
  have v: "snd ?r = []" "snd (validate e (fst ?r)) = []" "c = fst (validate e (fst ?r))"
    using assms by (auto simp: load_config_def split_beta Let_def)
  have "c = (fst ?r)\<lparr>c_api_fields := c_api_fields c\<rparr>"
    using validate_keeps [of e "fst ?r"] v(3) by simp
  then obtain m where "c = (fst ?r)\<lparr>c_api_fields := m\<rparr>" by blast
  with validate_clean [OF v(2)] read_required [OF v(1)] show ?thesis by simp
qed

text \<open>The free-space floor: a negative or zero setting is no floor, and below 2 ^ 44 megabytes the
  floor is the setting in bytes; at 2 ^ 44 the 64-bit product wraps and the floor is gone.\<close>

theorem megabytes_exact:
  "megabytes n = (if n \<le> 0 then 0 else if n < 2 ^ 44 then nat n * 2 ^ 20 else nat n * 2 ^ 20 mod 2 ^ 64)
   \<and> megabytes (2 ^ 44) = 0"
proof -
  have "nat n * 1048576 < 2 ^ 64" if "n < 2 ^ 44"
    using that by (simp add: nat_less_iff)
  then show ?thesis by (simp add: megabytes_def)
qed

lemma raw_upd: "raw (e(k := v)) j = (if j = k then trim_space v else raw e j)"
  by (simp add: raw_def)

text \<open>The lifetime of parked jobs is not validated: whatever environment is accepted, it is accepted
  with a lifetime of minus one day as well, which puts the sweep's cut-off in the future.\<close>

theorem negative_ttl_accepted:
  assumes "snd (load_config need e) = []"
  shows "snd (load_config need (e(''FAILED_TTL_DAYS'' := ''-1''))) = []
    \<and> c_failed_ttl (fst (load_config need (e(''FAILED_TTL_DAYS'' := ''-1'')))) = - (24 * hour)"
proof -
  let ?e = "e(''FAILED_TTL_DAYS'' := ''-1'')"
  have t: "trim_space ''-1'' = ''-1''" and a: "atoi ''-1'' = Some (- 1)" by code_simp+
  have keep: "j \<noteq> ''FAILED_TTL_DAYS'' \<Longrightarrow> raw ?e j = raw e j" for j by (simp add: raw_upd)
  have n: "num ?e ''FAILED_TTL_DAYS'' 7 = (- 1, [])" by (simp add: num_def raw_upd t a)
  have o: "req ?e k = req e k" "num ?e k d = num e k d" "sink need ?e k = sink need e k"
    "flag ?e k b = flag e k b" "str ?e k v = str e k v" if "k \<noteq> ''FAILED_TTL_DAYS''" for k d b v
    using keep [OF that] by (simp_all add: req_def num_def sink_def flag_def str_def)
  have r: "fst (read_config need ?e) = (fst (read_config need e))\<lparr>c_failed_ttl := - (24 * hour)\<rparr>"
    by (simp add: read_config_def o n split_beta Let_def hour_def wrap64_def)
  have s: "snd (read_config need e) = [] \<Longrightarrow> snd (read_config need ?e) = []"
    by (simp add: read_errors o n)
  have v: "snd (validate ?e (c\<lparr>c_failed_ttl := x\<rparr>)) = snd (validate e c)
      \<and> c_failed_ttl (fst (validate ?e (c\<lparr>c_failed_ttl := x\<rparr>))) = x" for c x
    by (simp add: validate_def keep Let_def split: option.split)
  show ?thesis using assms s v [where c = "fst (read_config need e)" and x = "- (24 * hour)"]
    by (simp add: load_config_def split_beta r)
qed

section \<open>Witnesses\<close>

definition sample_env :: env where
  "sample_env = (\<lambda>k. if k \<in> set (required_keys True) then ''x'' else [])"

theorem accepted_config_usable_witness: "0 < c_fps (fst (load_config True sample_env))"
proof -
  have "load_config True sample_env = (fst (load_config True sample_env), [])"
    by (rule result_pair) code_simp
  from accepted_config_usable [OF this] show ?thesis by blast
qed

theorem negative_ttl_accepted_witness:
  "snd (load_config True (sample_env(''FAILED_TTL_DAYS'' := ''-1''))) = []"
proof -
  have "snd (load_config True sample_env) = []" by code_simp
  from negative_ttl_accepted [OF this] show ?thesis by blast
qed

end
