(* ===== verification/Telemetry.thy ===== *)
theory Telemetry
  imports Json "HOL-Library.Code_Target_Numeral"
begin

text \<open>
  \<open>internal/telemetry/report.go\<close>: the merged view of the printer's reports. Reports are deltas;
  the view is a map, a report overrides the keys it carries, and a report that announces another
  job first drops the fields that describe the previous one.
\<close>

section \<open>State and accessors\<close>

definition state_running :: string where "state_running = ''RUNNING''"
definition state_pause :: string where "state_pause = ''PAUSE''"
definition state_finish :: string where "state_finish = ''FINISH''"
definition state_failed :: string where "state_failed = ''FAILED''"
definition state_idle :: string where "state_idle = ''IDLE''"

lemmas gcode_states =
  state_running_def state_pause_def state_finish_def state_failed_def state_idle_def

definition colour_hex_len :: nat where "colour_hex_len = 6"
definition max_filaments :: nat where "max_filaments = 4"

definition job_scoped :: "string list" where
  "job_scoped =
     [''layer_num'', ''total_layer_num'', ''mc_percent'', ''mc_remaining_time'', ''subtask_name'',
      ''gcode_file'']"

type_synonym view = "string \<rightharpoonup> any"

record tstate =
  tfields :: view

definition new_state :: tstate where
  "new_state = \<lparr>tfields = Map.empty\<rparr>"

definition has_key :: "tstate \<Rightarrow> string \<Rightarrow> bool" where
  "has_key s key = (tfields s key \<noteq> None)"

definition string_field :: "tstate \<Rightarrow> string \<Rightarrow> string" where
  "string_field s key =
     (case tfields s key of
        Some (JStr v) \<Rightarrow> v
      | Some (JNum v) \<Rightarrow> fmt_shortest v
      | _ \<Rightarrow> [])"

definition int_field :: "tstate \<Rightarrow> string \<Rightarrow> int" where
  "int_field s key =
     (case tfields s key of
        Some (JNum v) \<Rightarrow> int_of_f64 v
      | Some (JStr v) \<Rightarrow> (case atoi v of None \<Rightarrow> 0 | Some n \<Rightarrow> n)
      | _ \<Rightarrow> 0)"

definition float_field :: "tstate \<Rightarrow> string \<Rightarrow> f64" where
  "float_field s key =
     (case tfields s key of
        Some (JNum v) \<Rightarrow> v
      | Some (JStr v) \<Rightarrow> (case parse_float v of None \<Rightarrow> Fin 0 | Some f \<Rightarrow> f)
      | _ \<Rightarrow> Fin 0)"

definition gcode_state :: "tstate \<Rightarrow> string" where
  "gcode_state s = string_field s ''gcode_state''"

definition layer :: "tstate \<Rightarrow> int" where
  "layer s = int_field s ''layer_num''"

definition total_layers :: "tstate \<Rightarrow> int" where
  "total_layers s = int_field s ''total_layer_num''"

definition gcode_file :: "tstate \<Rightarrow> string" where
  "gcode_file s = string_field s ''gcode_file''"

definition job_name :: "tstate \<Rightarrow> string" where
  "job_name s = string_field s ''subtask_name''"

definition nozzle :: "tstate \<Rightarrow> f64" where
  "nozzle s = float_field s ''nozzle_temper''"

definition bed :: "tstate \<Rightarrow> f64" where
  "bed s = float_field s ''bed_temper''"

definition progress :: "tstate \<Rightarrow> int" where
  "progress s = int_field s ''mc_percent''"

text \<open>\<open>TaskID\<close>: the first of the four identities that is neither empty nor zero.\<close>

definition id_keys :: "string list" where
  "id_keys = [''task_id'', ''subtask_id'', ''lan_task_id'', ''job_id'']"

fun first_id :: "tstate \<Rightarrow> string list \<Rightarrow> string" where
  "first_id s [] = []"
| "first_id s (key # keys) =
     (let v = string_field s key in if v \<noteq> [] \<and> v \<noteq> ''0'' then v else first_id s keys)"

definition task_id :: "tstate \<Rightarrow> string" where
  "task_id s = first_id s id_keys"

section \<open>Merging a report\<close>

text \<open>\<open>forgetPreviousJob\<close>, on the section of the incoming report.\<close>

definition announces_new_job :: "tstate \<Rightarrow> view \<Rightarrow> bool" where
  "announces_new_job s sec =
     (let current = task_id s; incoming = task_id \<lparr>tfields = sec\<rparr>
      in current \<noteq> [] \<and> incoming \<noteq> [] \<and> incoming \<noteq> current)"

definition forget_previous_job :: "tstate \<Rightarrow> view \<Rightarrow> tstate" where
  "forget_previous_job s sec =
     (if announces_new_job s sec
      then s\<lparr>tfields := (\<lambda>k. if k \<in> set job_scoped then None else tfields s k)\<rparr>
      else s)"

definition merge_section :: "tstate \<Rightarrow> view \<Rightarrow> tstate" where
  "merge_section s sec =
     (let s' = forget_previous_job s sec in s'\<lparr>tfields := tfields s' ++ sec\<rparr>)"

text \<open>
  The section a payload carries: None when it is not a report. A null section decodes into an
  empty map without an error.
\<close>

definition report_section :: "bytes \<Rightarrow> view option" where
  "report_section payload =
     (case json_parse payload of
        Some (JObj kvs) \<Rightarrow>
          (case go_map kvs ''print'' of
             None \<Rightarrow> None
           | Some JNull \<Rightarrow> Some Map.empty
           | Some (JObj sec) \<Rightarrow> map_option go_map (any_members sec)
           | Some _ \<Rightarrow> None)
      | _ \<Rightarrow> None)"

definition merge :: "tstate \<Rightarrow> bytes \<Rightarrow> tstate \<times> bool" where
  "merge s payload =
     (case report_section payload of
        None \<Rightarrow> (s, False)
      | Some sec \<Rightarrow> (merge_section s sec, True))"

fun merge_all :: "tstate \<Rightarrow> bytes list \<Rightarrow> tstate" where
  "merge_all s [] = s"
| "merge_all s (p # ps) = merge_all (fst (merge s p)) ps"

section \<open>The filament summary\<close>

definition obj_member :: "any \<Rightarrow> string \<Rightarrow> any option" where
  "obj_member v key = (case v of JObj kvs \<Rightarrow> go_map kvs key | _ \<Rightarrow> None)"

fun as_string :: "any option \<Rightarrow> string" where
  "as_string (Some (JStr s)) = s"
| "as_string _ = []"

fun as_array :: "any option \<Rightarrow> any list" where
  "as_array (Some (JArr xs)) = xs"
| "as_array _ = []"

text \<open>One tray's entry: nothing for a slot that is not an object or names no material.\<close>

definition tray_entry :: "any \<Rightarrow> string option" where
  "tray_entry tray =
     (let kind = as_string (obj_member tray ''tray_type'');
          colour = take colour_hex_len (as_string (obj_member tray ''tray_color''))
      in if kind = [] then None
         else Some (kind @ (if colour \<noteq> [] then '' #'' @ colour else [])))"

definition unit_entries :: "any \<Rightarrow> string list" where
  "unit_entries u = List.map_filter tray_entry (as_array (obj_member u ''tray''))"

definition filament_entries :: "tstate \<Rightarrow> string list" where
  "filament_entries s =
     (case tfields s ''ams'' of
        Some ams \<Rightarrow>
          take max_filaments
            (dedup [] (concat (map unit_entries (as_array (obj_member ams ''ams'')))))
      | None \<Rightarrow> [])"

definition filament :: "tstate \<Rightarrow> string" where
  "filament s = join '', '' (filament_entries s)"

section \<open>The view as a fold of deltas\<close>

text \<open>
  What a client of the view relies on: a delta's own keys win, and any other key keeps its
  value unless the delta drops it.
\<close>

locale delta_view =
  fixes get :: "'s \<Rightarrow> 'k \<Rightarrow> 'v option"
    and apply_delta :: "'s \<Rightarrow> ('k \<rightharpoonup> 'v) \<Rightarrow> 's"
    and drops :: "'s \<Rightarrow> ('k \<rightharpoonup> 'v) \<Rightarrow> 'k \<Rightarrow> bool"
  assumes get_apply:
    "get (apply_delta s d) k =
       (case d k of Some v \<Rightarrow> Some v | None \<Rightarrow> if drops s d k then None else get s k)"
begin

lemma get_own: "d k = Some v \<Longrightarrow> get (apply_delta s d) k = Some v"
  by (simp add: get_apply)

lemma get_other: "d k = None \<Longrightarrow> \<not> drops s d k \<Longrightarrow> get (apply_delta s d) k = get s k"
  by (simp add: get_apply)

lemma get_dropped: "d k = None \<Longrightarrow> drops s d k \<Longrightarrow> get (apply_delta s d) k = None"
  by (simp add: get_apply)

text \<open>A key no delta ever drops holds the value most recently reported for it.\<close>

lemma get_unmentioned:
  assumes "\<And>s d. \<not> drops s d k" and "\<forall>d \<in> set ds. d k = None"
  shows "get (foldl apply_delta s ds) k = get s k"
  using assms(2) by (induction ds arbitrary: s) (simp_all add: get_other assms(1))

lemma get_latest:
  assumes "\<And>s d. \<not> drops s d k" and "d k = Some v" and "\<forall>d' \<in> set later. d' k = None"
  shows "get (foldl apply_delta s (earlier @ d # later)) k = Some v"
  using assms by (simp add: get_unmentioned get_own)

end

definition drops_key :: "tstate \<Rightarrow> view \<Rightarrow> string \<Rightarrow> bool" where
  "drops_key s sec k \<longleftrightarrow> announces_new_job s sec \<and> k \<in> set job_scoped"

interpretation report: delta_view tfields merge_section drops_key
  by unfold_locales
    (auto simp: merge_section_def forget_previous_job_def drops_key_def Let_def map_add_def
      split: option.splits)

lemma merge_all_sections:
  assumes "map report_section ps = map Some secs"
  shows "merge_all s ps = foldl merge_section s secs"
  using assms
proof (induction ps arbitrary: s secs)
  case (Cons p ps)
  then obtain sec rest where "secs = sec # rest" "report_section p = Some sec"
    "map report_section ps = map Some rest" by (cases secs) auto
  with Cons.IH show ?case by (simp add: merge_def)
qed simp

lemma merge_True_iff: "snd (merge s p) \<longleftrightarrow> report_section p \<noteq> None"
  by (auto simp: merge_def split: option.splits)

lemma first_id_nonzero: "first_id s keys \<noteq> ''0''"
  by (induction keys) (auto simp: Let_def)

lemma first_id_cong:
  "\<forall>k \<in> set keys. tfields s k = tfields t k \<Longrightarrow> first_id s keys = first_id t keys"
  by (induction keys) (auto simp: Let_def string_field_def)

section \<open>What the view promises\<close>

text \<open>C25: device-scoped fields survive. Whatever sequence of reports arrives, a key that is not one of
  the six job-scoped ones holds the value of the last report that carried it: deltas that do not
  mention it, and new jobs, leave it alone.\<close>

theorem device_value_latest:
  assumes "map report_section ps = map Some (earlier @ sec # later)"
    and "k \<notin> set job_scoped" and "sec k = Some v" and "\<forall>sec' \<in> set later. sec' k = None"
  shows "tfields (merge_all s ps) k = Some v"
  unfolding merge_all_sections [OF assms(1)]
  by (rule report.get_latest) (use assms(2-4) in \<open>simp_all add: drops_key_def\<close>)

lemma merge_section_field:
  "tfields (merge_section s sec) k =
     (case sec k of Some v \<Rightarrow> Some v | None \<Rightarrow> if drops_key s sec k then None else tfields s k)"
  by (rule report.get_apply)

lemma int_field_None: "tfields s k = None \<Longrightarrow> int_field s k = 0"
  by (simp add: int_field_def)

lemma string_field_None: "tfields s k = None \<Longrightarrow> string_field s k = []"
  by (simp add: string_field_def)

lemma job_scoped_mem:
  "''layer_num'' \<in> set job_scoped" "''total_layer_num'' \<in> set job_scoped"
  "''subtask_name'' \<in> set job_scoped" "''gcode_file'' \<in> set job_scoped"
  by (simp_all add: job_scoped_def)

text \<open>C26: no job inherits the previous one's progress. When a report names another job than the view
  holds, each job-scoped field is afterwards what the report says of it, and where the report is
  silent the layer and the layer count read 0 and the title and the file read empty.\<close>

theorem new_job_forgets:
  assumes "report_section p = Some sec" and "task_id s \<noteq> []"
    and "task_id \<lparr>tfields = sec\<rparr> \<noteq> []" and "task_id \<lparr>tfields = sec\<rparr> \<noteq> task_id s"
  shows "(\<forall>k \<in> set job_scoped. tfields (fst (merge s p)) k = sec k)
    \<and> (sec ''layer_num'' = None \<longrightarrow> layer (fst (merge s p)) = 0)
    \<and> (sec ''total_layer_num'' = None \<longrightarrow> total_layers (fst (merge s p)) = 0)
    \<and> (sec ''subtask_name'' = None \<longrightarrow> job_name (fst (merge s p)) = [])
    \<and> (sec ''gcode_file'' = None \<longrightarrow> gcode_file (fst (merge s p)) = [])"
proof -
  have "announces_new_job s sec" using assms(2-4) by (simp add: announces_new_job_def)
  then have f: "tfields (fst (merge s p)) k = sec k" if "k \<in> set job_scoped" for k
    using that assms(1)
    by (simp add: merge_def merge_section_field drops_key_def split: option.split)
  show ?thesis
    using f job_scoped_mem
    by (simp add: layer_def total_layers_def job_name_def gcode_file_def int_field_None
        string_field_None)
qed

text \<open>A delta that carries a secondary identity alone passes for a new job. With a task id in the
  view, a report of the very same print that mentions only its (different) subtask id leaves the
  identity as it was and yet drops the layer number, so the layer reads 0 until it is next sent.\<close>

theorem secondary_identity_drops_layer:
  assumes "tfields s ''task_id'' = Some (JStr a)" and "a \<noteq> []" and "a \<noteq> ''0''"
    and "b \<noteq> []" and "b \<noteq> ''0''" and "b \<noteq> a"
  shows "task_id (merge_section s [''subtask_id'' \<mapsto> JStr b]) = a
    \<and> layer (merge_section s [''subtask_id'' \<mapsto> JStr b]) = 0"
proof -
  let ?sec = "[''subtask_id'' \<mapsto> JStr b]"
  have t: "task_id s = a" using assms by (simp add: task_id_def id_keys_def string_field_def)
  have "task_id \<lparr>tfields = ?sec\<rparr> = b" using assms by (simp add: task_id_def id_keys_def string_field_def)
  with t assms have "announces_new_job s ?sec" by (simp add: announces_new_job_def)
  moreover have "tfields (merge_section s ?sec) ''task_id'' = Some (JStr a)"
    using assms(1) by (simp add: merge_section_field drops_key_def job_scoped_def)
  ultimately show ?thesis using assms
    by (simp add: task_id_def id_keys_def string_field_def layer_def int_field_def
        merge_section_field drops_key_def job_scoped_def)
qed

text \<open>The job's identity is the first of the four keys that is neither missing, empty nor zero,
  and it is never the printer's placeholder zero.\<close>

theorem task_id_first_nonzero:
  "task_id s = (case find (\<lambda>v. v \<noteq> [] \<and> v \<noteq> ''0'') (map (string_field s) id_keys) of
                  None \<Rightarrow> [] | Some v \<Rightarrow> v)
   \<and> task_id s \<noteq> ''0''"
  unfolding task_id_def using first_id_nonzero by (simp add: id_keys_def Let_def)

text \<open>Numbers may be spelt as numbers or as strings: both spellings of an integer of at most 53
  bits read as that integer.\<close>

theorem integer_spelling_irrelevant:
  assumes "\<bar>n\<bar> \<le> 2 ^ 53" and "tfields s k = Some (JNum (f64_of_int n)) \<or> tfields s k = Some (JStr (itoa n))"
  shows "int_field s k = n"
proof -
  have "in_int64 n" using assms(1) by (auto simp: in_int64_def abs_le_iff)
  with assms show ?thesis
    by (auto simp: int_field_def f64_of_int_exact int_of_f64_int atoi_itoa simp del: int_of_f64.simps)
qed

lemma set_filament_entries:
  "set (filament_entries s) \<subseteq>
     (case tfields s ''ams'' of
        Some ams \<Rightarrow> (\<Union>u \<in> set (as_array (obj_member ams ''ams'')).
                      {e. \<exists>t \<in> set (as_array (obj_member u ''tray'')). tray_entry t = Some e})
      | None \<Rightarrow> {})"
  by (auto simp: filament_entries_def unit_entries_def List.map_filter_def dest!: in_set_takeD
      split: option.split intro!: rev_bexI)

text \<open>The filament summary lists at most four entries, all different, each one the material and
  colour of a tray that is loaded.\<close>

theorem filament_bounded:
  "filament s = join '', '' (filament_entries s) \<and> length (filament_entries s) \<le> 4
    \<and> distinct (filament_entries s)
    \<and> set (filament_entries s) \<subseteq>
        (case tfields s ''ams'' of
           Some ams \<Rightarrow> (\<Union>u \<in> set (as_array (obj_member ams ''ams'')).
                         {e. \<exists>t \<in> set (as_array (obj_member u ''tray'')). tray_entry t = Some e})
         | None \<Rightarrow> {})"
  using set_filament_entries [of s]
  by (auto simp: filament_def filament_entries_def max_filaments_def distinct_dedup distinct_take
      split: option.splits)

section \<open>Witnesses\<close>

definition report_a :: bytes where
  \<open>report_a = ''{"print":{"task_id":"11","layer_num":"60","bed_temper":"65"}}''\<close>

definition report_b :: bytes where
  \<open>report_b = ''{"print":{"task_id":"21"}}''\<close>

definition section_a :: view where
  "section_a = go_map [(''task_id'', JStr ''11''), (''layer_num'', JStr ''60''), (''bed_temper'', JStr ''65'')]"

definition section_b :: view where
  "section_b = go_map [(''task_id'', JStr ''21'')]"

definition print_members :: "bytes \<Rightarrow> (string \<times> any) list option" where
  "print_members p =
     (case json_parse p of
        Some (JObj kvs) \<Rightarrow> (case go_map kvs ''print'' of Some (JObj sec) \<Rightarrow> any_members sec | _ \<Rightarrow> None)
      | _ \<Rightarrow> None)"

lemma report_section_members: "print_members p = Some ms \<Longrightarrow> report_section p = Some (go_map ms)"
  by (auto simp: print_members_def report_section_def split: option.splits json.splits)

lemma section_a: "report_section report_a = Some section_a"
  unfolding section_a_def by (rule report_section_members) code_simp

lemma section_b: "report_section report_b = Some section_b"
  unfolding section_b_def by (rule report_section_members) code_simp

theorem device_value_latest_witness:
  "tfields (merge_all new_state [report_a, report_b]) ''bed_temper'' = Some (JStr ''65'')"
  by (rule device_value_latest [where earlier = "[]" and sec = section_a and later = "[section_b]"])
    (simp_all add: section_a section_b section_a_def section_b_def go_map_def job_scoped_def)

theorem new_job_forgets_witness: "layer (fst (merge (fst (merge new_state report_a)) report_b)) = 0"
proof -
  let ?s = "fst (merge new_state report_a)"
  have "task_id ?s = ''11''"
    by (simp add: merge_def section_a merge_section_field drops_key_def announces_new_job_def
        section_a_def go_map_def task_id_def id_keys_def string_field_def new_state_def)
  moreover have "task_id \<lparr>tfields = section_b\<rparr> = ''21''"
    by (simp add: section_b_def go_map_def task_id_def id_keys_def string_field_def)
  moreover have "section_b ''layer_num'' = None" by (simp add: section_b_def go_map_def)
  ultimately show ?thesis using new_job_forgets [OF section_b, of ?s] by simp
qed

theorem secondary_identity_drops_layer_witness:
  "layer (merge_section \<lparr>tfields = section_a\<rparr> [''subtask_id'' \<mapsto> JStr ''12'']) = 0
    \<and> layer \<lparr>tfields = section_a\<rparr> = 60"
  using secondary_identity_drops_layer [of "\<lparr>tfields = section_a\<rparr>" "''11''" "''12''"]
  by (simp add: section_a_def go_map_def layer_def int_field_def atoi_def parse_nat_def is_digit_def
      byte_def in_int64_def)

theorem integer_spelling_irrelevant_witness: "layer \<lparr>tfields = [''layer_num'' \<mapsto> JStr ''60'']\<rparr> = 60"
proof -
  have "itoa 60 = ''60''" by code_simp
  then show ?thesis
    unfolding layer_def by (intro integer_spelling_irrelevant) simp_all
qed

theorem filament_bounded_witness:
  "length (filament_entries \<lparr>tfields = section_a\<rparr>) \<le> 4"
  using filament_bounded [of "\<lparr>tfields = section_a\<rparr>"] by blast

end
