(* ===== verification/Metrics.thy ===== *)
theory Metrics
  imports Telemetry
begin

text \<open>
  \<open>internal/service/metrics.go\<close> and the health rule of \<open>http.go\<close>. A labelled metric is a map from
  its label values to numbers: a series that was never touched is not exported.
\<close>

record metrics =
  m_mqtt_up :: bool
  m_frames :: nat
  m_capture_failures :: nat
  m_uploads :: "string \<rightharpoonup> nat"
  m_last_upload :: "nanos option"
  m_layer :: int
  m_total :: int
  m_progress :: int
  m_nozzle :: f64
  m_bed :: f64
  m_session_frames :: int
  m_state :: "string \<rightharpoonup> nat"

definition known_states :: "string list" where
  "known_states = [state_running, state_pause, state_finish, state_failed, state_idle]"

definition upload_results :: "string list" where
  "upload_results = [''ok'', ''failed'', ''skipped'']"

definition new_metrics :: metrics where
  "new_metrics =
     \<lparr>m_mqtt_up = False, m_frames = 0, m_capture_failures = 0,
      m_uploads = map_of (map (\<lambda>r. (r, 0)) upload_results), m_last_upload = None,
      m_layer = 0, m_total = 0, m_progress = 0, m_nozzle = Fin 0, m_bed = Fin 0,
      m_session_frames = 0, m_state = map_of (map (\<lambda>st. (st, 0)) known_states)\<rparr>"

definition count_upload :: "string \<Rightarrow> metrics \<Rightarrow> metrics" where
  "count_upload r m = m\<lparr>m_uploads := (m_uploads m)(r \<mapsto> Suc (case m_uploads m r of None \<Rightarrow> 0 | Some n \<Rightarrow> n))\<rparr>"

text \<open>\<open>SetState\<close>: one gauge after the other.\<close>

definition set_state :: "string \<Rightarrow> metrics \<Rightarrow> metrics" where
  "set_state state m =
     foldl (\<lambda>m st. m\<lparr>m_state := (m_state m)(st \<mapsto> if st = state then 1 else 0)\<rparr>) m known_states"

text \<open>\<open>observe\<close> of the service: the gauges that mirror the printer.\<close>

definition observe_metrics :: "tstate \<Rightarrow> metrics \<Rightarrow> metrics" where
  "observe_metrics t m =
     set_state (gcode_state t)
       (m\<lparr>m_layer := layer t, m_total := total_layers t, m_progress := progress t,
          m_nozzle := nozzle t, m_bed := bed t\<rparr>)"

section \<open>Health\<close>

definition report_stale_after :: nanos where "report_stale_after = 5 * 60 * 10 ^ 9"

text \<open>
  The health handler: the status, and the age of the last report in whole seconds when there was
  one. \<open>seen\<close> is in seconds since the epoch, zero before the first report.
\<close>

definition health :: "bool \<Rightarrow> int \<Rightarrow> nanos \<Rightarrow> nat \<times> int option" where
  "health mqtt_up seen now =
     (let age = (if 0 < seen then now - seen * 10 ^ 9 else 0);
          ok = mqtt_up \<and> (seen = 0 \<or> age < report_stale_after)
      in (if ok then 200 else 503, if 0 < seen then Some (int_of_f64 (duration_seconds age)) else None))"

section \<open>Properties\<close>

lemma set_state_lookup:
  "m_state (set_state state m) st =
     (if st \<in> set known_states then Some (if st = state then 1 else 0) else m_state m st)"
  by (simp add: set_state_def known_states_def)

lemma known_states_distinct: "distinct known_states"
  by (simp add: known_states_def gcode_states)

text \<open>The state gauges agree with the printer: after every report exactly the gauge of the state
  it is in is up, all others of the known states are down, and none is up in a state that is not
  one of them.\<close>

theorem one_state_raised:
  "{st \<in> set known_states. m_state (observe_metrics t m) st = Some 1}
     = (if gcode_state t \<in> set known_states then {gcode_state t} else {})
   \<and> {st \<in> set known_states. m_state (observe_metrics t m) st = Some 0} = set known_states - {gcode_state t}"
  by (auto simp: observe_metrics_def set_state_lookup)

text \<open>The health answer: it is an error exactly when the printer's session is down, or a report
  has been seen and the last one is five minutes old or older; before the first report only the
  session counts.\<close>

theorem health_exact:
  "fst (health up seen now) = 200 \<longleftrightarrow> up \<and> (seen \<le> 0 \<or> now < (seen + 300) * 10 ^ 9)"
  by (auto simp: health_def report_stale_after_def Let_def)

end
