(* ===== verification/Job_End.thy ===== *)
theory Job_End
  imports Helpers Uploader Config Metrics
begin

text \<open>
  The end of a job in \<open>internal/service/service.go\<close>: the cover, the captions, the encode and its
  second attempt, the delivery to a local directory, and the uploads parked by an earlier run.
  Everything here is one goroutine's straight-line work on the disk and the tools.
\<close>

section \<open>The cover\<close>

definition last_frame_path :: "session \<Rightarrow> path" where
  "last_frame_path s = s_dir s @ [frame_name (s_frames s)]"

definition cover_candidate ::
  "session world \<Rightarrow> camera \<Rightarrow> session \<Rightarrow> path \<Rightarrow> bool \<Rightarrow> session world \<times> path" where
  "cover_candidate w cam s last_frame skip =
     (if skip then (w, last_frame)
      else (let (w1, ok) = grab w cam (s_dir s @ [''cover.jpg''])
            in (w1, if ok then s_dir s @ [''cover.jpg''] else last_frame)))"

text \<open>
  \<open>coverFrame\<close>, after its delay, with the last frame named before it; None for the empty string.
\<close>

definition cover_frame ::
  "session world \<Rightarrow> camera \<Rightarrow> tools \<Rightarrow> string \<Rightarrow> session \<Rightarrow> path \<Rightarrow> bool \<Rightarrow>
     session world \<times> path option" where
  "cover_frame w cam t crop s last_frame skip =
     (let (w1, cover) = cover_candidate w cam s last_frame skip;
          (w2, info) = on_os (\<lambda>os. os_stat os cover) w1
      in if info = None then (w2, None)
         else if crop = [] then (w2, Some cover)
         else (let dst = s_dir s @ [''cover-cropped.jpg'']; (w3, ok) = crop_image w2 t cover dst crop
               in (w3, Some (if ok then dst else cover))))"

section \<open>The caption in the footage\<close>

definition layer_line :: "int \<Rightarrow> int \<Rightarrow> string" where
  "layer_line tot n =
     (if 0 < tot then ''Layer '' @ itoa n @ ''/'' @ itoa tot else ''Layer '' @ itoa n)"

definition title_text :: "string \<Rightarrow> session \<Rightarrow> string" where
  "title_text printer s =
     printer @ (if s_job s \<noteq> [] then '' '' @ middle_dot @ '' '' @ s_job s else [])"

definition job_overlay :: "config \<Rightarrow> string \<Rightarrow> session \<Rightarrow> overlay option" where
  "job_overlay c font s =
     (if \<not> c_overlay c \<or> font = [] then None
      else Some \<lparr>ov_font = font, ov_title = title_text (c_printer c) s,
                 ov_lines = (if int (length (s_layers s)) \<noteq> s_frames s then []
                             else map (layer_line (s_total s)) (s_layers s))\<rparr>)"

section \<open>The encode\<close>

definition job_options :: "config \<Rightarrow> string \<Rightarrow> session \<Rightarrow> path option \<Rightarrow> path option \<Rightarrow> encode_options" where
  "job_options c font s preview cover =
     \<lparr>eo_fps = c_fps c, eo_crop = c_crop c,
      eo_intro = \<lparr>still_path = preview, still_hold = c_intro c\<rparr>,
      eo_outro = \<lparr>still_path = cover, still_hold = c_tail c\<rparr>,
      eo_tail = c_tail c, eo_overlay = job_overlay c font s\<rparr>"

definition encode_job ::
  "session world \<Rightarrow> tools \<Rightarrow> config \<Rightarrow> string \<Rightarrow> session \<Rightarrow> path \<Rightarrow> path option \<Rightarrow> session world \<times> bool" where
  "encode_job w t c font s video cover =
     (let (w1, preview) = on_os (\<lambda>os. preview_path os s) w;
          opts = job_options c font s preview cover;
          (w2, ok) = encode_video w1 t (s_dir s) video opts
      in if ok \<or> eo_overlay opts = None then (w2, ok)
         else encode_video w2 t (s_dir s) video (opts\<lparr>eo_overlay := None\<rparr>))"

text \<open>\<open>duration\<close>, with whether there is a preview to open on.\<close>

definition job_duration :: "config \<Rightarrow> session \<Rightarrow> bool \<Rightarrow> int" where
  "job_duration c s has_preview =
     (let footage = go_quot (wrap64 (s_frames s * second)) (c_fps c);
          held = wrap64 (footage + c_tail c);
          whole = (if has_preview then wrap64 (held + c_intro c) else held)
      in max 1 (int_of_f64 (duration_seconds whole)))"

section \<open>Local delivery\<close>

text \<open>
  \<open>deliverLocally\<close>: whether the video was delivered; when it was not, the caller parks the job. The
  cover and the caption may be lost without that being a failure.
\<close>

definition stem :: "string \<Rightarrow> string" where
  "stem name = take (length name - 4) name"

definition deliver_files ::
  "disk \<Rightarrow> path \<Rightarrow> path \<Rightarrow> path option \<Rightarrow> string \<Rightarrow> string \<Rightarrow> disk \<times> bool" where
  "deliver_files os out video cover text name =
     (let (os1, made) = os_mkdir_all os out in
      if \<not> made then (os1, False)
      else (let (os2, moved) = move os1 video (out @ [name]) in
            if \<not> moved then (os2, False)
            else (let os3 = (case cover of None \<Rightarrow> os2
                             | Some p \<Rightarrow> fst (move os2 p (out @ [stem name @ ''-cover.jpg''])));
                      os4 = fst (os_write os3 (out @ [stem name @ ''.txt'']) (Bytes text))
                  in (os4, True))))"

section \<open>Uploads parked by an earlier run\<close>

text \<open>What the network does for the n-th upload: the random seed and the reply.\<close>

type_synonym network = "nat \<Rightarrow> bytes option \<times> reply"

text \<open>
  \<open>retryParked\<close> over the entries of \<open>failed/\<close>: each parked upload with a video in it is posted once
  and removed when it was accepted.
\<close>

definition retry_entry ::
  "(rune \<Rightarrow> bool) \<Rightarrow> uploader \<Rightarrow> tools \<Rightarrow> session world \<Rightarrow> path \<Rightarrow> bytes option \<times> reply
   \<Rightarrow> session world \<times> verdict option" where
  "retry_entry printable u t w dir net =
     (let (w1, video) = on_os (\<lambda>os. find_video os dir) w in
      case video of
        None \<Rightarrow> (w1, None)
      | Some v \<Rightarrow>
          (let cover = dir @ [''cover.jpg''];
               (w2, info) = on_os (\<lambda>os. os_stat os cover) w1;
               (w3, width, height) = dimensions w2 t v;
               (w4, text) = on_os (\<lambda>os. read_caption os dir) w3;
               rq = \<lparr>rq_video = v, rq_cover = (if info = None then None else Some cover),
                     rq_filename = last v, rq_caption = text, rq_duration = 0,
                     rq_width = width, rq_height = height\<rparr>;
               (w5, verdict) = on_os (\<lambda>os. let (os', m, v) = post printable u os rq (fst net) (snd net)
                                            in (os', v)) w4
           in if verdict = Posted
              then (fst (on_os (\<lambda>os. os_remove_all os dir) w5), Some Posted)
              else (w5, Some verdict)))"

fun retry_entries ::
  "(rune \<Rightarrow> bool) \<Rightarrow> uploader \<Rightarrow> tools \<Rightarrow> session world \<Rightarrow> metrics \<Rightarrow> path \<Rightarrow> (string \<times> bool) list
   \<Rightarrow> network \<Rightarrow> nat \<Rightarrow> session world \<times> metrics" where
  "retry_entries printable u t w m failed [] net k = (w, m)"
| "retry_entries printable u t w m failed ((name, d) # es) net k =
     (if \<not> d \<or> \<not> has_prefix name ''upload-failed-'' then retry_entries printable u t w m failed es net k
      else (let (w1, v) = retry_entry printable u t w (failed @ [name]) (net k);
                m1 = (if v = Some Posted then count_upload ''ok'' m else m)
            in retry_entries printable u t w1 m1 failed es net (if v = None then k else Suc k)))"

definition retry_parked ::
  "(rune \<Rightarrow> bool) \<Rightarrow> uploader \<Rightarrow> tools \<Rightarrow> session world \<Rightarrow> metrics \<Rightarrow> path \<Rightarrow> network
   \<Rightarrow> session world \<times> metrics" where
  "retry_parked printable u t w m failed net =
     (let (w1, es) = on_os (\<lambda>os. os_read_dir os failed) w in
      case es of None \<Rightarrow> (w1, m) | Some l \<Rightarrow> retry_entries printable u t w1 m failed l net 0)"

section \<open>Properties\<close>

text \<open>Every frame is captioned with the layer it was captured on. When the list of layers is as long
  as the counter of frames, the overlay has one line per frame and line n names the n-th entry of
  that list; when it is not, the footage carries the title alone.\<close>

theorem overlay_names_layers:
  assumes "job_overlay c font s = Some ov"
  shows "(if int (length (s_layers s)) = s_frames s
          then length (ov_lines ov) = nat (s_frames s)
            \<and> (\<forall>n < length (s_layers s). ov_lines ov ! n = layer_line (s_total s) (s_layers s ! n))
          else ov_lines ov = [])
     \<and> ov_font ov = font \<and> font \<noteq> []"
  using assms by (auto simp: job_overlay_def split: if_splits)

lemma mkdirs_content: "content_of (map_of (mkdirs now ps t) q) = content_of (map_of t q)"
  by (induction now ps t rule: mkdirs.induct) auto

lemma os_mkdir_all_file: "file_at (fst (os_mkdir_all os p)) q = file_at os q"
  by (simp add: os_mkdir_all_def syscall_def Let_def file_at_def node_at_def mkdirs_content
      split: outcome.split)

lemma stem_mp4: "has_suffix name ''.mp4'' \<Longrightarrow> name = stem name @ ''.mp4''"
  by (auto simp: has_suffix_iff stem_def)


section \<open>Witnesses\<close>

definition sample_config :: config where
  "sample_config =
     \<lparr>c_host = ''p'', c_serial = ''s'', c_code = ''1'', c_printer = ''p2s'', c_api_url = ''http://x'',
      c_api_token = ''t'', c_api_fields = [], c_staging = ''/staging'', c_output = [], c_once = False,
      c_fps = 10, c_capture_delay = 0, c_crop = [], c_overlay = True, c_overlay_font = [],
      c_ffmpeg = ''ffmpeg'', c_ffprobe = ''ffprobe'', c_preview_timeout = 0, c_intro = 0, c_tail = 0,
      c_min_frames = 2, c_final_delay = 0, c_capture_timeout = 0, c_min_free = 0, c_failed_ttl = 0,
      c_listen = []\<rparr>"

theorem overlay_names_layers_witness:
  "\<exists>ov. job_overlay sample_config ''f.ttf'' sample_session = Some ov \<and> ov_lines ov ! 1 = ''Layer 9/120''"
proof -
  obtain ov where ov: "job_overlay sample_config ''f.ttf'' sample_session = Some ov"
    by (simp add: job_overlay_def sample_config_def)
  have "layer_line 120 9 = ''Layer 9/120''" by code_simp
  with overlay_names_layers [OF ov] ov show ?thesis by (simp add: sample_session_def)
qed


end
