(* ===== verification/Service.thy ===== *)
theory Service
  imports Job_End
begin

text \<open>
  The running daemon, \<open>internal/service/service.go\<close>. Its state is a record; sessions are objects in
  a heap, because the callback, the capture goroutine and the finalisation goroutines share them
  by pointer. One callback of the MQTT client is one step. The capture goroutine is three steps:
  it is started, it asks ffmpeg for a frame after its delay, and it records what came back. A
  finalisation is a task with a phase, and moves on only when the code's wait is over.
\<close>

section \<open>State\<close>

record capture_task =
  cp_ref :: nat
  cp_layer :: int
  cp_dest :: "path option"

datatype phase =
    Draining nanos
  | Covering nanos path nanos
  | Rendering nanos "path option"
  | Posting request nat
  | Waiting request nat nanos
  | Finished

record final_task =
  f_ref :: nat
  f_end :: string
  f_skip :: bool
  f_phase :: phase

record svc =
  v_cfg :: config
  v_font :: string
  v_output :: path
  v_printable :: "rune \<Rightarrow> bool"
  v_store :: store
  v_world :: "session world"
  v_tel :: tstate
  v_heap :: "session list"
  v_current :: "nat option"
  v_reconciled :: bool
  v_idle_state :: string
  v_idle_logged :: "nanos option"
  v_idle_notes :: nat
  v_capture :: "capture_task option"
  v_previews :: "nat list"
  v_finals :: "final_task list"
  v_parked :: "(string \<times> bool) list"
  v_metrics :: metrics
  v_last_report :: int
  v_stopping :: bool
  v_statfs :: "(int \<times> nat) option"

definition now :: "svc \<Rightarrow> nanos" where
  "now s = clock (w_os (v_world s))"

definition on_disk :: "(disk \<Rightarrow> disk \<times> 'a) \<Rightarrow> svc \<Rightarrow> svc \<times> 'a" where
  "on_disk f s = (let (w, x) = on_os f (v_world s) in (s\<lparr>v_world := w\<rparr>, x))"

definition obj :: "svc \<Rightarrow> nat \<Rightarrow> session" where
  "obj s i = v_heap s ! i"

definition upd_obj :: "nat \<Rightarrow> (session \<Rightarrow> session) \<Rightarrow> svc \<Rightarrow> svc" where
  "upd_obj i f s = s\<lparr>v_heap := (v_heap s)[i := f (obj s i)]\<rparr>"

definition count :: "(metrics \<Rightarrow> metrics) \<Rightarrow> svc \<Rightarrow> svc" where
  "count f s = s\<lparr>v_metrics := f (v_metrics s)\<rparr>"

definition svc_tools :: "svc \<Rightarrow> tools" where
  "svc_tools s = new_tools (c_ffmpeg (v_cfg s)) (c_ffprobe (v_cfg s))"

definition svc_camera :: "svc \<Rightarrow> camera" where
  "svc_camera s =
     new_camera (c_host (v_cfg s)) (c_code (v_cfg s)) (c_capture_timeout (v_cfg s)) (svc_tools s)"

definition svc_uploader :: "svc \<Rightarrow> uploader" where
  "svc_uploader s =
     \<lparr>up_url = c_api_url (v_cfg s), up_token = c_api_token (v_cfg s), up_fields = c_api_fields (v_cfg s)\<rparr>"

definition save_obj :: "nat \<Rightarrow> svc \<Rightarrow> svc" where
  "save_obj i s = fst (on_disk (\<lambda>os. save os (obj s i)) s)"

section \<open>Handing a session over\<close>

definition capture_drain_limit :: nanos where "capture_drain_limit = 10 * second"
definition idle_reminder :: nanos where "idle_reminder = 5 * 60 * second"
definition upload_attempts :: nat where "upload_attempts = 3"

definition start_finalize :: "nat \<Rightarrow> string \<Rightarrow> bool \<Rightarrow> svc \<Rightarrow> svc" where
  "start_finalize i end_state skip s =
     s\<lparr>v_finals := v_finals s @
         [\<lparr>f_ref = i, f_end = end_state, f_skip = skip, f_phase = Draining (now s + capture_drain_limit)\<rparr>]\<rparr>"

text \<open>\<open>reconcile\<close> over the sessions found on disk; each becomes an object of its own.\<close>

fun settle :: "bool \<Rightarrow> string \<Rightarrow> session list \<Rightarrow> svc \<Rightarrow> svc" where
  "settle running live [] s = s"
| "settle running live (x # xs) s =
     (let i = length (v_heap s); s1 = s\<lparr>v_heap := v_heap s @ [x]\<rparr> in
      settle running live xs
        (if running \<and> s_task x = live
         then count (\<lambda>m. m\<lparr>m_session_frames := s_frames x\<rparr>) (s1\<lparr>v_current := Some i\<rparr>)
         else start_finalize i state_finish True s1))"

definition reconcile :: "svc \<Rightarrow> svc" where
  "reconcile s =
     (let live = task_id (v_tel s);
          running = (gcode_state (v_tel s) = state_running \<or> gcode_state (v_tel s) = state_pause);
          (s1, found) = on_disk (\<lambda>os. list_sessions os (v_store s)) s
      in case found of None \<Rightarrow> s1 | Some xs \<Rightarrow> settle running live xs s1)"

section \<open>The job's lifecycle\<close>

definition changed_layer :: "int \<Rightarrow> int \<Rightarrow> bool" where
  "changed_layer ly lst \<longleftrightarrow> ly \<noteq> lst \<and> 0 < ly"

definition note_idle :: "string \<Rightarrow> svc \<Rightarrow> svc" where
  "note_idle state s =
     (if state = v_idle_state s
         \<and> (case v_idle_logged s of None \<Rightarrow> False | Some t \<Rightarrow> now s - t < idle_reminder) then s
      else s\<lparr>v_idle_state := state, v_idle_logged := Some (now s), v_idle_notes := Suc (v_idle_notes s)\<rparr>)"

definition begin_job :: "svc \<Rightarrow> svc \<times> nat option" where
  "begin_job s =
     (let tid = task_id (v_tel s) in
      if tid = [] then (s, None)
      else (let (s1, r) = on_disk (\<lambda>os. create os (v_store s) tid (job_name (v_tel s))
                                         (total_layers (v_tel s)) (layer (v_tel s))) s
            in case r of
                 None \<Rightarrow> (s1, None)
               | Some (x, resumed) \<Rightarrow>
                   (let i = length (v_heap s1);
                        s2 = s1\<lparr>v_heap := v_heap s1 @ [x], v_current := Some i, v_idle_state := [],
                                v_previews := v_previews s1
                                  @ (if \<not> resumed \<and> 0 < c_intro (v_cfg s1) then [i] else [])\<rparr>
                    in (s2, Some i))))"

definition record_report :: "tstate \<Rightarrow> session \<Rightarrow> session" where
  "record_report t x =
     (let x1 = x\<lparr>s_nozzle := temps_add (s_nozzle x) (nozzle t), s_bed := temps_add (s_bed x) (bed t)\<rparr>;
          x2 = (if s_filament x1 = [] then x1\<lparr>s_filament := filament t\<rparr> else x1)
      in if s_total x2 = 0 then x2\<lparr>s_total := total_layers t\<rparr> else x2)"

definition low_space :: "svc \<Rightarrow> bool" where
  "low_space s = (case free_bytes (v_statfs s) of None \<Rightarrow> False | Some f \<Rightarrow> f < c_min_free (v_cfg s))"

definition start_capture :: "nat \<Rightarrow> int \<Rightarrow> svc \<Rightarrow> svc" where
  "start_capture i ly s =
     (if v_capture s \<noteq> None \<or> low_space s then s
      else s\<lparr>v_capture := Some \<lparr>cp_ref = i, cp_layer = ly, cp_dest = None\<rparr>\<rparr>)"

text \<open>\<open>handle\<close>: a session of another job is handed over first.\<close>

definition switch_job :: "svc \<Rightarrow> svc" where
  "switch_job s =
     (case v_current s of
        None \<Rightarrow> s
      | Some i \<Rightarrow>
          if s_task (obj s i) \<noteq> task_id (v_tel s) \<and> task_id (v_tel s) \<noteq> []
          then start_finalize i state_finish True (s\<lparr>v_current := None\<rparr>) else s)"

definition open_job :: "svc \<Rightarrow> svc \<times> nat option" where
  "open_job s = (case v_current s of Some i \<Rightarrow> (s, Some i) | None \<Rightarrow> begin_job s)"

definition track_layer :: "nat \<Rightarrow> svc \<Rightarrow> svc" where
  "track_layer i s =
     (let s1 = upd_obj i (record_report (v_tel s)) s; ly = layer (v_tel s)
      in if changed_layer ly (s_last_layer (obj s1 i))
         then start_capture i ly (save_obj i (upd_obj i (\<lambda>x. x\<lparr>s_last_layer := ly\<rparr>) s1))
         else s1)"

definition handle_running :: "svc \<Rightarrow> svc" where
  "handle_running s =
     (case open_job (switch_job s) of (s1, None) \<Rightarrow> s1 | (s1, Some i) \<Rightarrow> track_layer i s1)"

definition handle_ended :: "string \<Rightarrow> svc \<Rightarrow> svc" where
  "handle_ended st s =
     (case v_current s of
        None \<Rightarrow> note_idle st s
      | Some i \<Rightarrow> start_finalize i st False (s\<lparr>v_current := None\<rparr>))"

definition handle :: "svc \<Rightarrow> svc" where
  "handle s =
     (let st = gcode_state (v_tel s) in
      if st = state_running then handle_running s
      else if st = state_finish \<or> st = state_failed \<or> st = state_idle then handle_ended st s
      else s)"

text \<open>\<open>onMessage\<close>.\<close>

definition observe :: "svc \<Rightarrow> svc" where
  "observe s = count (observe_metrics (v_tel s)) s"

definition first_pass :: "svc \<Rightarrow> svc" where
  "first_pass s =
     (if \<not> v_reconciled s \<and> gcode_state (v_tel s) \<noteq> [] then reconcile (s\<lparr>v_reconciled := True\<rparr>) else s)"

definition on_message :: "bytes \<Rightarrow> svc \<Rightarrow> svc" where
  "on_message payload s =
     (let s1 = s\<lparr>v_last_report := now s div second\<rparr>; (t, ok) = merge (v_tel s1) payload
      in if \<not> ok then s1 else handle (first_pass (observe (s1\<lparr>v_tel := t\<rparr>))))"

section \<open>The capture goroutine\<close>

definition shoot :: "capture_task \<Rightarrow> svc \<Rightarrow> svc" where
  "shoot c s = s\<lparr>v_capture := Some (c\<lparr>cp_dest := Some (frame_path (obj s (cp_ref c)))\<rparr>)\<rparr>"

definition keep_frame :: "int \<Rightarrow> session \<Rightarrow> session" where
  "keep_frame ly x = x\<lparr>s_frames := s_frames x + 1, s_layers := s_layers x @ [ly]\<rparr>"

definition finish_grab :: "capture_task \<Rightarrow> path \<Rightarrow> svc \<Rightarrow> svc" where
  "finish_grab c dest s =
     (let (w, ok) = grab (v_world s) (svc_camera s) dest; s1 = s\<lparr>v_world := w, v_capture := None\<rparr> in
      if \<not> ok then count (\<lambda>m. m\<lparr>m_capture_failures := Suc (m_capture_failures m)\<rparr>) s1
      else (let i = cp_ref c; s2 = save_obj i (upd_obj i (keep_frame (cp_layer c)) s1)
            in count (\<lambda>m. m\<lparr>m_frames := Suc (m_frames m), m_session_frames := s_frames (obj s2 i)\<rparr>) s2))"

section \<open>The plate preview\<close>

definition keep_preview :: "nat \<Rightarrow> bytes option \<Rightarrow> svc \<Rightarrow> svc" where
  "keep_preview i img s =
     (case img of
        None \<Rightarrow> s
      | Some b \<Rightarrow> fst (on_disk (\<lambda>os. os_write os (s_dir (obj s i) @ [preview_file]) (Bytes b)) s))"

section \<open>Finalisation\<close>

definition set_phase :: "nat \<Rightarrow> phase \<Rightarrow> svc \<Rightarrow> svc" where
  "set_phase k p s = s\<lparr>v_finals := (v_finals s)[k := (v_finals s ! k)\<lparr>f_phase := p\<rparr>]\<rparr>"

definition discard_job :: "nat \<Rightarrow> svc \<Rightarrow> svc" where
  "discard_job i s = fst (on_disk (\<lambda>os. (discard os (obj s i), ())) s)"

definition park_job :: "nat \<Rightarrow> string \<Rightarrow> svc \<Rightarrow> svc" where
  "park_job i reason s =
     (let (s1, x) = on_disk (\<lambda>os. let (os', x, ok) = park os (v_store s) (obj s i) reason in (os', x)) s
      in upd_obj i (\<lambda>_. x) s1)"

definition end_drain :: "nat \<Rightarrow> svc \<Rightarrow> svc" where
  "end_drain k s =
     (let f = v_finals s ! k; x = obj s (f_ref f);
          elapsed = now s - unix_ns (s_started x);
          due = (if f_skip f then now s else now s + c_final_delay (v_cfg s))
      in set_phase k (Covering elapsed (last_frame_path x) due) s)"

definition take_cover :: "nat \<Rightarrow> nanos \<Rightarrow> path \<Rightarrow> svc \<Rightarrow> svc" where
  "take_cover k elapsed last_frame s =
     (let f = v_finals s ! k;
          (w, cover) = cover_frame (v_world s) (svc_camera s) (svc_tools s) (c_crop (v_cfg s))
                         (obj s (f_ref f)) last_frame (f_skip f)
      in set_phase k (Rendering elapsed cover) (s\<lparr>v_world := w\<rparr>))"

text \<open>\<open>deliverLocally\<close>.\<close>

definition deliver_locally :: "nat \<Rightarrow> path \<Rightarrow> path option \<Rightarrow> string \<Rightarrow> string \<Rightarrow> svc \<Rightarrow> svc" where
  "deliver_locally i video cover text name s =
     (let (s1, ok) = on_disk (\<lambda>os. deliver_files os (v_output s) video cover text name) s
      in if \<not> ok then park_job i ''output-unwritable'' s1
         else (discard_job i (count (count_upload ''local'') s1))\<lparr>v_stopping := v_stopping s \<or> c_once (v_cfg s)\<rparr>)"

definition job_request :: "nat \<Rightarrow> path \<Rightarrow> path option \<Rightarrow> string \<Rightarrow> string \<Rightarrow> svc \<Rightarrow> svc \<times> request" where
  "job_request i video cover text name s =
     (let (w, width, height) = dimensions (v_world s) (svc_tools s) video;
          (s1, preview) = on_disk (\<lambda>os. preview_path os (obj s i)) (s\<lparr>v_world := w\<rparr>)
      in (s1, \<lparr>rq_video = video, rq_cover = cover, rq_filename = name, rq_caption = text,
               rq_duration = job_duration (v_cfg s) (obj s i) (preview \<noteq> None),
               rq_width = width, rq_height = height\<rparr>))"

definition render :: "nat \<Rightarrow> nanos \<Rightarrow> path option \<Rightarrow> svc \<Rightarrow> svc" where
  "render k elapsed cover s =
     (let f = v_finals s ! k; i = f_ref f; x = obj s i in
      if s_frames x < c_min_frames (v_cfg s)
      then set_phase k Finished (discard_job i (count (count_upload ''skipped'') s))
      else
        (let name = filename (c_printer (v_cfg s)) x; video = s_dir x @ [name];
             (w, ok) = encode_job (v_world s) (svc_tools s) (v_cfg s) (v_font s) x video cover;
             s1 = s\<lparr>v_world := w\<rparr>
         in if \<not> ok then set_phase k Finished (park_job i ''encode-failed'' (count (count_upload ''failed'') s1))
            else
              (let text = caption (c_printer (v_cfg s)) x (f_end f = state_finish) elapsed;
                   s2 = fst (on_disk (\<lambda>os. os_write os (s_dir x @ [''caption.txt'']) (Bytes text)) s1)
               in if c_api_url (v_cfg s) = []
                  then set_phase k Finished (deliver_locally i video cover text name s2)
                  else (let (s3, rq) = job_request i video cover text name s2
                        in set_phase k (Posting rq 1) s3))))"

definition give_up :: "nat \<Rightarrow> svc \<Rightarrow> svc" where
  "give_up k s =
     set_phase k Finished
       (park_job (f_ref (v_finals s ! k)) ''upload-failed'' (count (count_upload ''failed'') s))"

definition backoff :: "nat \<Rightarrow> nanos" where
  "backoff n = 5 * 2 ^ n * second"

definition attempt :: "nat \<Rightarrow> request \<Rightarrow> nat \<Rightarrow> bytes option \<Rightarrow> reply \<Rightarrow> svc \<Rightarrow> svc" where
  "attempt k rq n seed r s =
     (let (s1, v) = on_disk (\<lambda>os. let (os', m, v) = post (v_printable s) (svc_uploader s) os rq seed r
                                  in (os', v)) s
      in case v of
           Posted \<Rightarrow>
             set_phase k Finished
               (discard_job (f_ref (v_finals s ! k))
                 (count (\<lambda>m. (count_upload ''ok'' m)\<lparr>m_last_upload := Some (now s)\<rparr>) s1))
         | Refused retry \<Rightarrow>
             if retry then set_phase k (Waiting rq n (now s + backoff n)) s1 else give_up k s1)"

definition after_wait :: "nat \<Rightarrow> request \<Rightarrow> nat \<Rightarrow> svc \<Rightarrow> svc" where
  "after_wait k rq n s =
     (if n < upload_attempts then set_phase k (Posting rq (Suc n)) s else give_up k s)"

section \<open>Parked uploads\<close>

text \<open>One turn of the loop of \<open>retryParked\<close>, which runs beside everything else.\<close>

definition retry_next :: "bytes option \<times> reply \<Rightarrow> svc \<Rightarrow> svc" where
  "retry_next net s =
     (case v_parked s of
        [] \<Rightarrow> s
      | e # es \<Rightarrow>
          (let (w, m) = retry_entries (v_printable s) (svc_uploader s) (svc_tools s) (v_world s)
                          (v_metrics s) (st_failed (v_store s)) [e] (\<lambda>_. net) 0
           in s\<lparr>v_world := w, v_metrics := m, v_parked := es\<rparr>))"

section \<open>Steps\<close>

text \<open>
  What happens next: a report arrives, the connection comes or goes, time passes, statfs answers
  differently, the process is asked to stop; the capture goroutine or a finalisation moves on; a
  preview arrives or fails; the next parked upload is tried again. A step that waits has the end of its wait as a premise.
\<close>

datatype event =
    Message bytes | Connected bool | Advance nanos | SpaceIs "(int \<times> nat) option" | Stop
  | Shoot | GiveUpShot | GrabEnds | Preview nat "bytes option"
  | Drained nat | CoverDue nat | Render nat | Attempt nat "bytes option" reply | WaitOver nat
  | RetryNext "bytes option" reply

definition advance :: "nanos \<Rightarrow> svc \<Rightarrow> svc" where
  "advance d s =
     s\<lparr>v_world := (v_world s)\<lparr>w_os := (w_os (v_world s))\<lparr>clock := clock (w_os (v_world s)) + d\<rparr>\<rparr>\<rparr>"

inductive transition :: "svc \<Rightarrow> event \<Rightarrow> svc \<Rightarrow> bool" where
  message: "transition s (Message p) (on_message p s)"
| connected: "transition s (Connected up) (count (\<lambda>m. m\<lparr>m_mqtt_up := up\<rparr>) s)"
| advance: "0 \<le> d \<Longrightarrow> transition s (Advance d) (advance d s)"
| space: "transition s (SpaceIs x) (s\<lparr>v_statfs := x\<rparr>)"
| stop: "transition s Stop (s\<lparr>v_stopping := True\<rparr>)"
| shoot: "v_capture s = Some c \<Longrightarrow> cp_dest c = None \<Longrightarrow> transition s Shoot (shoot c s)"
| give_up_shot: "v_capture s = Some c \<Longrightarrow> cp_dest c = None \<Longrightarrow> v_stopping s \<Longrightarrow>
    0 < c_capture_delay (v_cfg s) \<Longrightarrow> transition s GiveUpShot (s\<lparr>v_capture := None\<rparr>)"
| grab_ends: "v_capture s = Some c \<Longrightarrow> cp_dest c = Some dest \<Longrightarrow> transition s GrabEnds (finish_grab c dest s)"
| preview: "i \<in> set (v_previews s) \<Longrightarrow>
    transition s (Preview i img) (keep_preview i img (s\<lparr>v_previews := remove1 i (v_previews s)\<rparr>))"
| drained: "k < length (v_finals s) \<Longrightarrow> f_phase (v_finals s ! k) = Draining limit \<Longrightarrow>
    v_capture s = None \<or> limit \<le> now s \<Longrightarrow> transition s (Drained k) (end_drain k s)"
| cover_due: "k < length (v_finals s) \<Longrightarrow> f_phase (v_finals s ! k) = Covering elapsed lst due \<Longrightarrow>
    due \<le> now s \<or> v_stopping s \<Longrightarrow> transition s (CoverDue k) (take_cover k elapsed lst s)"
| render: "k < length (v_finals s) \<Longrightarrow> f_phase (v_finals s ! k) = Rendering elapsed cover \<Longrightarrow>
    transition s (Render k) (render k elapsed cover s)"
| attempt: "k < length (v_finals s) \<Longrightarrow> f_phase (v_finals s ! k) = Posting rq n \<Longrightarrow>
    transition s (Attempt k seed r) (attempt k rq n seed r s)"
| wait_over: "k < length (v_finals s) \<Longrightarrow> f_phase (v_finals s ! k) = Waiting rq n due \<Longrightarrow>
    due \<le> now s \<or> v_stopping s \<Longrightarrow> transition s (WaitOver k) (after_wait k rq n s)"
| retry: "v_parked s \<noteq> [] \<Longrightarrow> transition s (RetryNext seed r) (retry_next (seed, r) s)"

inductive_cases messageE: "transition s (Message p) t"
inductive_cases attemptE: "transition s (Attempt k seed r) t"
inductive_cases wait_overE: "transition s (WaitOver k) t"
inductive_simps transition_simps:
  "transition s (Message p) t" "transition s (Advance d) t" "transition s Stop t" "transition s Shoot t"
  "transition s GrabEnds t" "transition s (Drained k) t" "transition s (CoverDue k) t"
  "transition s (Render k) t" "transition s (Attempt k seed r) t" "transition s (WaitOver k) t"

text \<open>A run is a list of events; the locale carries an invariant along one.\<close>

inductive run_of :: "('s \<Rightarrow> 'e \<Rightarrow> 's \<Rightarrow> bool) \<Rightarrow> 's \<Rightarrow> 'e list \<Rightarrow> 's \<Rightarrow> bool" for step where
  run_stop: "run_of step s [] s"
| run_step: "step s e t \<Longrightarrow> run_of step t es u \<Longrightarrow> run_of step s (e # es) u"

inductive_simps run_of_simps [simp]: "run_of step s [] t" "run_of step s (e # es) t"

locale kept_invariant =
  fixes step :: "'s \<Rightarrow> 'e \<Rightarrow> 's \<Rightarrow> bool" and inv :: "'s \<Rightarrow> bool"
  assumes kept: "step s e t \<Longrightarrow> inv s \<Longrightarrow> inv t"
begin

lemma run_keeps: "run_of step s es t \<Longrightarrow> inv s \<Longrightarrow> inv t"
  by (induction rule: run_of.induct) (auto intro: kept)

end

end
