(* ===== verification/Documents.thy ===== *)
theory Documents
  imports Job_End
begin

text \<open>
  What the documents on the disk have in common: a predicate that holds of every session stored
  anywhere holds of them after each operation of the service that does not itself write a session
  violating it. Stated over the nodes of the tree, so that one lemma per call is enough.
\<close>

fun doc_node :: "('d \<Rightarrow> bool) \<Rightarrow> 'd node \<Rightarrow> bool" where
  "doc_node P (File (Doc d) m) = P d"
| "doc_node P _ = True"

definition nodes_ok :: "('d \<Rightarrow> bool) \<Rightarrow> (path \<times> 'd node) list \<Rightarrow> bool" where
  "nodes_ok P t \<longleftrightarrow> (\<forall>e \<in> set t. doc_node P (snd e))"

definition docs_ok :: "('d \<Rightarrow> bool) \<Rightarrow> 'd os \<Rightarrow> bool" where
  "docs_ok P os \<longleftrightarrow> nodes_ok P (tree os)"

definition content_ok :: "('d \<Rightarrow> bool) \<Rightarrow> 'd content \<Rightarrow> bool" where
  "content_ok P c \<longleftrightarrow> (\<forall>d. c = Doc d \<longrightarrow> P d)"

named_theorems docs "calls keep the documents on the disk"

lemma content_ok_Bytes [simp]: "content_ok P (Bytes b)"
  by (simp add: content_ok_def)

lemma doc_node_file [simp]: "doc_node P (File c m) \<longleftrightarrow> content_ok P c"
  by (cases c) (simp_all add: content_ok_def)

lemma content_ok_torn [simp]: "content_ok P c \<Longrightarrow> content_ok P (torn n c)"
  by (cases c) (simp_all add: content_ok_def)

lemma nodes_ok_update: "nodes_ok P t \<Longrightarrow> doc_node P v \<Longrightarrow> nodes_ok P (AList.update k v t)"
  by (induction t) (auto simp: nodes_ok_def split: if_splits)

lemma nodes_ok_touch: "nodes_ok P t \<Longrightarrow> nodes_ok P (touch m p t)"
  by (simp add: touch_def nodes_ok_update)

lemma nodes_ok_del: "nodes_ok P t \<Longrightarrow> nodes_ok P (del_tree p t)"
  by (auto simp: nodes_ok_def del_tree_def)

lemma nodes_ok_move: "nodes_ok P t \<Longrightarrow> nodes_ok P (move_tree a b t)"
  by (auto simp: nodes_ok_def move_tree_def)

lemma nodes_ok_mkdirs: "nodes_ok P t \<Longrightarrow> nodes_ok P (mkdirs m ps t)"
  by (induction m ps t rule: mkdirs.induct) (simp_all add: nodes_ok_update nodes_ok_touch)

lemma docs_ok_tree: "tree os' = tree os \<Longrightarrow> docs_ok P os' = docs_ok P os"
  by (simp add: docs_ok_def)

lemma docs_ok_file: "docs_ok P os \<Longrightarrow> file_at os p = Some c \<Longrightarrow> content_ok P c"
proof -
  assume d: "docs_ok P os" and f: "file_at os p = Some c"
  then obtain m where "map_of (tree os) p = Some (File c m)"
    by (auto simp: file_at_def node_at_def elim: content_of.elims)
  then have "(p, File c m) \<in> set (tree os)" by (rule map_of_SomeD)
  with d have "doc_node P (snd (p, File c m))" unfolding docs_ok_def nodes_ok_def by blast
  then show ?thesis by simp
qed

section \<open>Calls\<close>

lemma docs_put_file: "docs_ok P os \<Longrightarrow> content_ok P c \<Longrightarrow> docs_ok P (put_file os p c)"
  by (simp add: docs_ok_def put_file_def nodes_ok_update nodes_ok_touch)

lemma docs_tick [simp]: "docs_ok P (os\<lparr>tick := n\<rparr>) = docs_ok P os"
  by (simp add: docs_ok_def)

lemma docs_write [docs]: "docs_ok P os \<Longrightarrow> content_ok P c \<Longrightarrow> docs_ok P (fst (os_write os p c))"
  by (simp add: os_write_def syscall_def Let_def docs_put_file split: outcome.split)

lemma docs_rename [docs]: "docs_ok P os \<Longrightarrow> docs_ok P (fst (os_rename os a b))"
  by (simp add: os_rename_def syscall_def Let_def docs_ok_def nodes_ok_touch nodes_ok_move nodes_ok_del)

lemma docs_remove_all [docs]: "docs_ok P os \<Longrightarrow> docs_ok P (fst (os_remove_all os p))"
  by (simp add: os_remove_all_def syscall_def Let_def docs_ok_def nodes_ok_touch nodes_ok_del)

lemma docs_remove [docs]: "docs_ok P os \<Longrightarrow> docs_ok P (fst (os_remove os p))"
  by (simp add: os_remove_def syscall_def Let_def docs_ok_def nodes_ok_touch nodes_ok_del)

lemma docs_mkdir_all [docs]: "docs_ok P os \<Longrightarrow> docs_ok P (fst (os_mkdir_all os p))"
  by (simp add: os_mkdir_all_def syscall_def Let_def docs_ok_def nodes_ok_mkdirs split: outcome.split)

lemma docs_read [docs]: "docs_ok P os \<Longrightarrow> docs_ok P (fst (os_read os p))"
  by (simp add: docs_ok_def)

lemma docs_read_dir [docs]: "docs_ok P os \<Longrightarrow> docs_ok P (fst (os_read_dir os p))"
  by (simp add: docs_ok_def)

lemma docs_stat [docs]: "docs_ok P os \<Longrightarrow> docs_ok P (fst (os_stat os p))"
  by (simp add: docs_ok_def)

text \<open>The same facts for a call whose results are named.\<close>

lemma docs_pair: "f = (x, r) \<Longrightarrow> docs_ok P (fst f) \<Longrightarrow> docs_ok P x"
  by simp

lemma docs_world_pair: "f = (w, r) \<Longrightarrow> docs_ok P (w_os (fst f)) \<Longrightarrow> docs_ok P (w_os w)"
  by simp

lemmas docs_calls =
  docs_pair [OF _ docs_write] docs_pair [OF _ docs_rename] docs_pair [OF _ docs_remove_all]
  docs_pair [OF _ docs_remove] docs_pair [OF _ docs_mkdir_all] docs_pair [OF _ docs_read]
  docs_pair [OF _ docs_read_dir] docs_pair [OF _ docs_stat]

section \<open>Sessions\<close>

locale document_property =
  fixes P :: "session \<Rightarrow> bool"
  assumes dir_free: "P (s\<lparr>s_dir := d\<rparr>) = P s"
begin

lemma docs_save: "docs_ok P os \<Longrightarrow> P s \<Longrightarrow> docs_ok P (fst (save os s))"
proof (cases "marshal s")
  case (Some d)
  assume a: "docs_ok P os" "P s"
  have "P d" using Some a(2) by (auto simp: marshal_def dir_free split: if_splits)
  then have c: "content_ok P (Doc d)" by (simp add: content_ok_def)
  obtain os1 ok where w: "os_write os (s_dir s @ [state_file @ ''.tmp'']) (Doc d) = (os1, ok)"
    by fastforce
  with docs_write [OF a(1) c] have "docs_ok P os1" by (metis fst_conv)
  then show ?thesis using Some w by (simp add: save_def docs_rename)
qed (simp add: save_def)

lemma load_ok: "docs_ok P os \<Longrightarrow> snd (load os dir) = Some s \<Longrightarrow> P s"
proof -
  assume d: "docs_ok P os" and l: "snd (load os dir) = Some s"
  obtain x where "snd (os_read os (dir @ [state_file])) = Some (Doc x)" and s: "s = x\<lparr>s_dir := dir\<rparr>"
    using l by (auto simp: load_def split: prod.splits option.splits content.splits)
  then have "file_at os (dir @ [state_file]) = Some (Doc x)" by (intro os_read_Some)
  with docs_ok_file [OF d] have "P x" by (auto simp: content_ok_def)
  with s show ?thesis by (simp add: dir_free)
qed

lemma docs_load: "docs_ok P os \<Longrightarrow> docs_ok P (fst (load os dir))"
  by (simp add: docs_ok_def)

lemma load_all_ok:
  "docs_ok P os \<Longrightarrow> docs_ok P (fst (load_all os base es)) \<and> (\<forall>s \<in> set (snd (load_all os base es)). P s)"
proof (induction os base es rule: load_all.induct)
  case (2 os base name dir es)
  obtain os1 x where l: "load os (base @ [name]) = (os1, x)" by fastforce
  have d1: "docs_ok P os1" using docs_load [OF "2.prems", of "base @ [name]"] l by simp
  have x: "P s" if "x = Some s" for s using load_ok [OF "2.prems", of "base @ [name]"] l that by simp
  show ?case
  proof (cases "\<not> dir \<or> \<not> has_prefix name ''job-''")
    case False
    with "2.IH"(2) [OF False l [symmetric] refl d1] x l show ?thesis
      by (auto split: option.splits prod.splits)
  qed (use "2.IH"(1) "2.prems" in auto)
qed simp

lemma list_ok:
  assumes "docs_ok P os"
  shows "docs_ok P (fst (list_sessions os st))"
    and "snd (list_sessions os st) = Some xs \<Longrightarrow> s \<in> set xs \<Longrightarrow> P s"
proof -
  obtain os1 es where r: "os_read_dir os (st_root st) = (os1, es)" by fastforce
  have d1: "docs_ok P os1" using docs_read_dir [OF assms, of "st_root st"] r by simp
  show "docs_ok P (fst (list_sessions os st))"
    using r d1 load_all_ok [OF d1, of "st_root st"]
    by (auto simp: list_sessions_def split: option.splits prod.splits) (metis fst_conv)
  show "snd (list_sessions os st) = Some xs \<Longrightarrow> s \<in> set xs \<Longrightarrow> P s"
    using r load_all_ok [OF d1, of "st_root st"]
    by (auto simp: list_sessions_def split: option.splits prod.splits) (metis snd_conv)
qed

lemma create_ok:
  assumes "docs_ok P os" and "\<And>os dir. P (fresh_session os dir tid name tot cur)"
  shows "docs_ok P (fst (create os st tid name tot cur))"
    and "snd (create os st tid name tot cur) = Some (s, resumed) \<Longrightarrow> P s"
proof -
  let ?dir = "job_dir st tid"
  obtain os1 x where l: "load os ?dir = (os1, x)" by fastforce
  have d1: "docs_ok P os1" using docs_load [OF assms(1), of ?dir] l by simp
  obtain os2 made where m: "os_mkdir_all os1 ?dir = (os2, made)" by fastforce
  have d2: "docs_ok P os2" using docs_mkdir_all [OF d1, of ?dir] m by simp
  obtain os3 ok where sv: "save os2 (fresh_session os2 ?dir tid name tot cur) = (os3, ok)" by fastforce
  have d3: "docs_ok P os3" using docs_save [OF d2 assms(2)] sv by (metis fst_conv)
  show "docs_ok P (fst (create os st tid name tot cur))"
    using l m sv d1 d2 d3 by (simp add: create_def split: option.split)
  show "snd (create os st tid name tot cur) = Some (s, resumed) \<Longrightarrow> P s"
    using l m sv assms load_ok [OF assms(1), of ?dir]
    by (auto simp: create_def split: option.splits if_splits)
qed

lemma docs_park:
  "docs_ok P os \<Longrightarrow> docs_ok P (fst (park os st s reason))"
  "P s \<Longrightarrow> P (fst (snd (park os st s reason)))"
proof -
  obtain os1 ok where r: "os_rename os (s_dir s) (park_dir st s reason) = (os1, ok)" by fastforce
  show "docs_ok P os \<Longrightarrow> docs_ok P (fst (park os st s reason))"
    using r docs_rename [of P os "s_dir s" "park_dir st s reason"]
    by (simp add: park_def docs_remove_all)
  show "P s \<Longrightarrow> P (fst (snd (park os st s reason)))"
    using r by (simp add: park_def dir_free)
qed

lemma docs_discard: "docs_ok P os \<Longrightarrow> docs_ok P (discard os s)"
  by (simp add: discard_def docs_remove_all)

end

section \<open>Tools and files\<close>

lemma docs_on_os: "docs_ok P (fst (f (w_os w))) \<Longrightarrow> docs_ok P (w_os (fst (on_os f w)))"
  by simp

lemma docs_exec_to: "docs_ok P (w_os w) \<Longrightarrow> docs_ok P (w_os (fst (exec_to w bin args dest)))"
  by (simp add: exec_to_os leave_file_def docs_put_file split: option.split)

lemma docs_drop_file: "docs_ok P (w_os w) \<Longrightarrow> docs_ok P (w_os (drop_file p w))"
  by (simp add: drop_file_def docs_remove)

lemma docs_grab [docs]: "docs_ok P (w_os w) \<Longrightarrow> docs_ok P (w_os (fst (grab w c dest)))"
proof -
  assume d: "docs_ok P (w_os w)"
  let ?e = "exec_to w (ffmpeg_bin (cam_tools c)) (grab_args c dest) dest"
  obtain w1 r where e: "?e = (w1, r)" by fastforce
  have d1: "docs_ok P (w_os w1)" using docs_exec_to [OF d] e by (metis fst_conv)
  obtain w2 info where st: "on_os (\<lambda>os. os_stat os dest) w1 = (w2, info)" by fastforce
  have "docs_ok P (w_os w2)" using docs_on_os [of P "\<lambda>os. os_stat os dest" w1] docs_stat [OF d1] st by simp
  with e st d1 show ?thesis by (auto simp: grab_def docs_drop_file split: option.split)
qed

lemma dimensions_os [simp]: "w_os (fst (dimensions w t p)) = w_os w"
  by (simp add: dimensions_def exec_def)

lemma docs_crop [docs]: "docs_ok P (w_os w) \<Longrightarrow> docs_ok P (w_os (fst (crop_image w t a b c)))"
  by (simp add: crop_image_def docs_exec_to split: prod.split) (metis docs_exec_to fst_conv)

lemma docs_cover [docs]: "docs_ok P (w_os w) \<Longrightarrow> docs_ok P (w_os (fst (cover_frame w cam t crop s lst skip)))"
proof -
  assume d: "docs_ok P (w_os w)"
  obtain w1 cover where c: "cover_candidate w cam s lst skip = (w1, cover)" by fastforce
  have d1: "docs_ok P (w_os w1)"
    using c d docs_grab [OF d, of cam "s_dir s @ [''cover.jpg'']"]
    by (auto simp: cover_candidate_def split: prod.splits if_splits)
  obtain w2 info where st: "on_os (\<lambda>os. os_stat os cover) w1 = (w2, info)" by fastforce
  have d2: "docs_ok P (w_os w2)"
    using docs_on_os [of P "\<lambda>os. os_stat os cover" w1] docs_stat [OF d1] st by simp
  show ?thesis
    using c st d2
    by (auto simp: cover_frame_def Let_def split: prod.split intro: docs_world_pair [OF _ docs_crop])
qed

lemma docs_build_graph: "docs_ok P os \<Longrightarrow> docs_ok P (fst (build_graph os dir eo b x y))"
proof -
  assume d: "docs_ok P os"
  have o: "docs_ok P (fst (overlay_filters os dir ov fps))" for ov fps
    using d
    by (auto simp: overlay_filters_def write_commands_def Let_def split: list.split prod.split
        intro: docs_calls)
  obtain os1 g where "(case eo_overlay eo of None \<Rightarrow> (os, Some [])
      | Some ov \<Rightarrow> overlay_filters os dir ov (eo_fps eo)) = (os1, g)" by fastforce
  moreover from this have "docs_ok P os1"
    using d docs_pair [OF _ o] by (auto split: option.splits)
  ultimately show ?thesis by (simp add: build_graph_def split: option.split)
qed

lemma probe_stills_os [simp]: "w_os (fst (probe_stills w t dir eo)) = w_os w"
  by (simp add: probe_stills_def target_size_def split: prod.split)
    (metis dimensions_os fst_conv)

lemma docs_encode [docs]: "docs_ok P (w_os w) \<Longrightarrow> docs_ok P (w_os (fst (encode_video w t dir out eo)))"
proof -
  assume d: "docs_ok P (w_os w)"
  obtain w1 ss x y where p: "probe_stills w t dir eo = (w1, ss, x, y)" using prod_cases4 by blast
  have d1: "docs_ok P (w_os w1)" using probe_stills_os [of w t dir eo] p d by simp
  obtain w2 g where b: "on_os (\<lambda>os. build_graph os dir eo (ss \<noteq> []) x y) w1 = (w2, g)" by fastforce
  have d2: "docs_ok P (w_os w2)"
    using docs_on_os [of P "\<lambda>os. build_graph os dir eo (ss \<noteq> []) x y" w1] docs_build_graph [OF d1] b by simp
  have d3: "docs_ok P (w_os w3)" if "exec_to w2 bin args out = (w3, r)" for bin args w3 r
    using docs_world_pair [OF that docs_exec_to [OF d2]] .
  have d4: "docs_ok P (w_os w4)" if "docs_ok P (w_os w3)" "on_os (\<lambda>os. os_stat os out) w3 = (w4, i)" for w3 w4 i
    using docs_stat [OF that(1), of out] by (intro docs_world_pair [OF that(2)]) simp
  show ?thesis
    using p b d2
    by (auto simp: encode_video_def Let_def split: option.split prod.split intro: d3 d4)
qed

lemma docs_encode_job [docs]:
  "docs_ok P (w_os w) \<Longrightarrow> docs_ok P (w_os (fst (encode_job w t c font s video cover)))"
proof -
  assume d: "docs_ok P (w_os w)"
  obtain w1 preview where p: "on_os (\<lambda>os. preview_path os s) w = (w1, preview)" by fastforce
  have "docs_ok P (fst (preview_path (w_os w) s))"
    using docs_stat [OF d, of "s_dir s @ [preview_file]"] 
    by (auto simp: preview_path_def Let_def split: prod.split)
  then have d1: "docs_ok P (w_os w1)"
    using docs_world_pair [OF p] docs_on_os [of P "\<lambda>os. preview_path os s" w] by simp
  show ?thesis
    using p d1
    by (auto simp: encode_job_def Let_def split: prod.split
        intro: docs_encode docs_world_pair [OF _ docs_encode])
qed

lemma docs_move: "docs_ok P os \<Longrightarrow> docs_ok P (fst (move os a b))"
proof -
  assume d: "docs_ok P os"
  obtain os1 ok where r: "os_rename os a b = (os1, ok)" by fastforce
  have d1: "docs_ok P os1" by (rule docs_pair [OF r docs_rename [OF d]])
  obtain os2 c where rd: "os_read os1 a = (os2, c)" by fastforce
  have d2: "docs_ok P os2" by (rule docs_pair [OF rd docs_read [OF d1]])
  have c: "content_ok P x" if "c = Some x" for x
    using docs_ok_file [OF d1 os_read_Some, of a x] rd that by simp
  show ?thesis
    using r rd d1 d2 c
    by (auto simp: move_def split: option.split prod.split intro: docs_remove docs_calls)
qed

lemma docs_deliver: "docs_ok P os \<Longrightarrow> docs_ok P (fst (deliver_files os out video cover text name))"
  by (auto simp: deliver_files_def Let_def split: option.split prod.split
      intro!: docs_write docs_move intro: docs_calls docs_pair [OF _ docs_move])

lemma docs_post: "docs_ok P os \<Longrightarrow> docs_ok P (fst (post printable u os rq seed r))"
proof -
  assume d: "docs_ok P os"
  have rc: "docs_ok P os2" if "read_cover os1 c = (os2, x)" "docs_ok P os1" for os1 os2 c x
    using that by (auto simp: read_cover_def split: option.splits prod.splits intro: docs_calls)
  from d show ?thesis
    by (auto simp: post_def Let_def split: option.split content.split prod.split intro: docs_calls rc)
qed

lemma docs_find_video: "docs_ok P os \<Longrightarrow> docs_ok P (fst (find_video os d))"
  by (auto simp: find_video_def split: prod.split intro: docs_calls)

lemma docs_read_caption: "docs_ok P os \<Longrightarrow> docs_ok P (fst (read_caption os d))"
  by (auto simp: read_caption_def split: prod.split intro: docs_calls)

lemma docs_on_os_pair:
  "on_os f w = (w', x) \<Longrightarrow> (\<And>os. docs_ok P os \<Longrightarrow> docs_ok P (fst (f os))) \<Longrightarrow> docs_ok P (w_os w) \<Longrightarrow>
     docs_ok P (w_os w')"
  using on_os_fst [of f w] by simp

lemma docs_retry_entry:
  assumes "docs_ok P (w_os w)"
  shows "docs_ok P (w_os (fst (retry_entry printable u t w dir net)))"
proof -
  obtain w1 v where v: "on_os (\<lambda>os. find_video os dir) w = (w1, v)" by fastforce
  have d1: "docs_ok P (w_os w1)" by (rule docs_on_os_pair [OF v docs_find_video assms])
  show ?thesis
  proof (cases v)
    case None
    with v d1 show ?thesis by (simp add: retry_entry_def)
  next
    case (Some video)
    obtain w2 info where st: "on_os (\<lambda>os. os_stat os (dir @ [''cover.jpg''])) w1 = (w2, info)" by fastforce
    have d2: "docs_ok P (w_os w2)" by (rule docs_on_os_pair [OF st docs_stat d1])
    obtain w3 x y where dm: "dimensions w2 t video = (w3, x, y)" using prod_cases3 by blast
    have d3: "docs_ok P (w_os w3)" using dimensions_os [of w2 t video] dm d2 by simp
    obtain w4 cap where c: "on_os (\<lambda>os. read_caption os dir) w3 = (w4, cap)" by fastforce
    have d4: "docs_ok P (w_os w4)" by (rule docs_on_os_pair [OF c docs_read_caption d3])
    have p: "docs_ok P (fst (case post printable u os rq seed r of (os', m, v) \<Rightarrow> (os', v)))"
      if "docs_ok P os" for os rq seed r
      using docs_post [OF that] by (simp add: split_beta)
    have dp: "docs_ok P (w_os w5)"
      if "on_os (\<lambda>os. case post printable u os rq (fst net) (snd net) of (os', m, v) \<Rightarrow> (os', v)) w4 = (w5, z)"
      for rq w5 z
      by (rule docs_on_os_pair [OF that p d4])
    show ?thesis using v Some st dm c
      by (auto simp: retry_entry_def Let_def intro!: docs_remove_all intro: dp split: prod.split)
  qed
qed

lemma docs_retry_entries:
  "docs_ok P (w_os w) \<Longrightarrow> docs_ok P (w_os (fst (retry_entries printable u t w m failed es net k)))"
proof (induction printable u t w m failed es net k rule: retry_entries.induct)
  case (2 printable u t w m failed name d es net k)
  obtain w1 v where e: "retry_entry printable u t w (failed @ [name]) (net k) = (w1, v)" by fastforce
  have "docs_ok P (w_os w1)" by (rule docs_world_pair [OF e docs_retry_entry [OF "2.prems"]])
  with 2 e show ?case by (simp add: Let_def)
qed simp

end
