(* ===== verification/Service_Invariants.thy ===== *)
theory Service_Invariants
  imports Service Documents
begin

text \<open>
  What holds in every reachable state of the daemon: sessions, stored or in memory, have as many
  layers as frames; every reference is to an object that exists; and no session is both open and
  being finalised, or finalised twice.
\<close>

section \<open>The effect of the building blocks\<close>

lemma on_disk_fst: "fst (on_disk f s) = s\<lparr>v_world := fst (on_os f (v_world s))\<rparr>"
  by (simp add: on_disk_def split: prod.split)

lemma on_disk_snd: "snd (on_disk f s) = snd (f (w_os (v_world s)))"
  using on_os_snd [of f "v_world s"] by (cases "on_os f (v_world s)") (simp add: on_disk_def)

lemma on_disk_pair:
  "on_disk f s = (s', x) \<Longrightarrow> s' = s\<lparr>v_world := fst (on_os f (v_world s))\<rparr> \<and> x = snd (f (w_os (v_world s)))"
  using on_disk_fst [of f s] on_disk_snd [of f s] by simp

definition wf_session :: "session \<Rightarrow> bool" where
  "wf_session x \<longleftrightarrow>
     s_frames x = int (length (s_layers x)) \<and> (\<forall>ly \<in> set (s_layers x). 0 < ly) \<and> s_pauses x = 0"

interpretation wf: document_property wf_session
  by unfold_locales (simp add: wf_session_def)

definition wf_svc :: "svc \<Rightarrow> bool" where
  "wf_svc s \<longleftrightarrow>
     docs_ok wf_session (w_os (v_world s)) \<and> (\<forall>x \<in> set (v_heap s). wf_session x)
     \<and> (\<forall>c. v_capture s = Some c \<longrightarrow> 0 < cp_layer c)"

definition refs_svc :: "svc \<Rightarrow> bool" where
  "refs_svc s \<longleftrightarrow>
     distinct (map f_ref (v_finals s)) \<and> (\<forall>f \<in> set (v_finals s). f_ref f < length (v_heap s))
     \<and> (\<forall>i. v_current s = Some i \<longrightarrow> i < length (v_heap s) \<and> i \<notin> f_ref ` set (v_finals s))
     \<and> (\<forall>c. v_capture s = Some c \<longrightarrow> cp_ref c < length (v_heap s))"

named_theorems fields "what the building blocks leave alone"

lemma on_disk_fields [fields]:
  "v_heap (fst (on_disk f s)) = v_heap s" "v_finals (fst (on_disk f s)) = v_finals s"
  "v_current (fst (on_disk f s)) = v_current s" "v_capture (fst (on_disk f s)) = v_capture s"
  "v_tel (fst (on_disk f s)) = v_tel s" "v_cfg (fst (on_disk f s)) = v_cfg s"
  "v_store (fst (on_disk f s)) = v_store s" "v_reconciled (fst (on_disk f s)) = v_reconciled s"
  "v_statfs (fst (on_disk f s)) = v_statfs s" "v_metrics (fst (on_disk f s)) = v_metrics s"
  "obj (fst (on_disk f s)) i = obj s i"
  by (simp_all add: on_disk_fst obj_def)

lemma count_fields [fields]:
  "v_heap (count f s) = v_heap s" "v_finals (count f s) = v_finals s"
  "v_current (count f s) = v_current s" "v_capture (count f s) = v_capture s"
  "v_tel (count f s) = v_tel s" "v_cfg (count f s) = v_cfg s" "v_world (count f s) = v_world s"
  "v_store (count f s) = v_store s" "v_reconciled (count f s) = v_reconciled s"
  "v_statfs (count f s) = v_statfs s" "v_metrics (count f s) = f (v_metrics s)" "obj (count f s) i = obj s i"
  by (simp_all add: count_def obj_def)

lemma upd_obj_fields [fields]:
  "length (v_heap (upd_obj i f s)) = length (v_heap s)" "v_finals (upd_obj i f s) = v_finals s"
  "v_current (upd_obj i f s) = v_current s" "v_capture (upd_obj i f s) = v_capture s"
  "v_tel (upd_obj i f s) = v_tel s" "v_cfg (upd_obj i f s) = v_cfg s"
  "v_world (upd_obj i f s) = v_world s" "v_store (upd_obj i f s) = v_store s"
  "v_statfs (upd_obj i f s) = v_statfs s" "v_metrics (upd_obj i f s) = v_metrics s"
  "v_reconciled (upd_obj i f s) = v_reconciled s"
  by (simp_all add: upd_obj_def)

lemma obj_upd: "i < length (v_heap s) \<Longrightarrow> obj (upd_obj i f s) j = (if i = j then f (obj s i) else obj s j)"
  by (simp add: upd_obj_def obj_def)

lemma map_update_same: "(k < length xs \<Longrightarrow> f y = f (xs ! k)) \<Longrightarrow> map f (xs[k := y]) = map f xs"
  by (cases "k < length xs") (simp_all add: list_eq_iff_nth_eq nth_list_update list_update_beyond)

lemma set_phase_fields [fields]:
  "v_heap (set_phase k p s) = v_heap s" "v_current (set_phase k p s) = v_current s"
  "v_capture (set_phase k p s) = v_capture s" "v_world (set_phase k p s) = v_world s"
  "v_metrics (set_phase k p s) = v_metrics s" "v_cfg (set_phase k p s) = v_cfg s"
  "map f_ref (v_finals (set_phase k p s)) = map f_ref (v_finals s)"
  "obj (set_phase k p s) i = obj s i" "v_store (set_phase k p s) = v_store s"
  "length (v_finals (set_phase k p s)) = length (v_finals s)"
  by (simp_all add: set_phase_def obj_def map_update_same)

lemma save_obj_fields [fields]:
  "v_heap (save_obj i s) = v_heap s" "v_finals (save_obj i s) = v_finals s"
  "v_current (save_obj i s) = v_current s" "v_capture (save_obj i s) = v_capture s"
  "v_tel (save_obj i s) = v_tel s" "v_cfg (save_obj i s) = v_cfg s" "v_statfs (save_obj i s) = v_statfs s"
  "v_store (save_obj i s) = v_store s" "v_metrics (save_obj i s) = v_metrics s"
  "obj (save_obj i s) j = obj s j"
  by (simp_all add: save_obj_def on_disk_fields)

section \<open>Well-formed sessions\<close>

lemma wf_obj: "wf_svc s \<Longrightarrow> i < length (v_heap s) \<Longrightarrow> wf_session (obj s i)"
  by (simp add: wf_svc_def obj_def)

lemma wf_on_disk:
  "wf_svc s \<Longrightarrow> docs_ok wf_session (fst (f (w_os (v_world s)))) \<Longrightarrow> wf_svc (fst (on_disk f s))"
  by (simp add: wf_svc_def on_disk_fst)

lemma wf_upd:
  "wf_svc s \<Longrightarrow> (i < length (v_heap s) \<Longrightarrow> wf_session (f (obj s i))) \<Longrightarrow> wf_svc (upd_obj i f s)"
  by (cases "i < length (v_heap s)")
    (auto simp: wf_svc_def upd_obj_def list_update_beyond dest!: set_update_subset_insert [THEN subsetD])

lemma wf_count: "wf_svc (count f s) = wf_svc s"
  by (simp add: wf_svc_def count_def)

lemma wf_set_phase: "wf_svc (set_phase k p s) = wf_svc s"
  by (simp add: wf_svc_def set_phase_fields)

lemma wf_save: "wf_svc s \<Longrightarrow> i < length (v_heap s) \<Longrightarrow> wf_svc (save_obj i s)"
  unfolding save_obj_def
  by (rule wf_on_disk, assumption, rule wf.docs_save) (simp add: wf_svc_def, rule wf_obj)

lemma wf_start_finalize: "wf_svc (start_finalize i e b s) = wf_svc s"
  by (simp add: wf_svc_def start_finalize_def)

lemma wf_settle: "wf_svc s \<Longrightarrow> \<forall>x \<in> set xs. wf_session x \<Longrightarrow> wf_svc (settle running live xs s)"
proof (induction xs arbitrary: s)
  case (Cons x xs)
  let ?s1 = "s\<lparr>v_heap := v_heap s @ [x]\<rparr>"
  have w1: "wf_svc ?s1" "wf_svc (?s1\<lparr>v_current := Some i\<rparr>)" for i
    using Cons.prems by (auto simp: wf_svc_def)
  show ?case
    using Cons.IH Cons.prems w1 by (simp add: Let_def wf_count wf_start_finalize)
qed simp

lemma wf_reconcile: "wf_svc s \<Longrightarrow> wf_svc (reconcile s)"
proof -
  assume w: "wf_svc s"
  then have d: "docs_ok wf_session (w_os (v_world s))" by (simp add: wf_svc_def)
  obtain s1 r where l: "on_disk (\<lambda>os. list_sessions os (v_store s)) s = (s1, r)" by fastforce
  have w1: "wf_svc s1"
    using wf_on_disk [OF w, of "\<lambda>os. list_sessions os (v_store s)"] wf.list_ok(1) [OF d] l by simp
  have "\<forall>x \<in> set xs. wf_session x" if "r = Some xs" for xs
    using wf.list_ok(2) [OF d] on_disk_pair [OF l] that by metis
  with w1 l show ?thesis by (simp add: reconcile_def Let_def wf_settle split: option.split)
qed

lemma wf_fresh: "wf_session (fresh_session os dir tid name tot cur)"
  by (simp add: wf_session_def fresh_session_def)

lemma begin_cases:
  obtains (none) "snd (begin_job s) = None" "fst (begin_job s) = s"
  | (failed) f where "snd (begin_job s) = None" "fst (begin_job s) = fst (on_disk f s)"
      "f = (\<lambda>os. create os (v_store s) (task_id (v_tel s)) (job_name (v_tel s)) (total_layers (v_tel s)) (layer (v_tel s)))"
  | (opened) f x resumed p where "snd (begin_job s) = Some (length (v_heap s))"
      "f = (\<lambda>os. create os (v_store s) (task_id (v_tel s)) (job_name (v_tel s)) (total_layers (v_tel s)) (layer (v_tel s)))"
      "snd (f (w_os (v_world s))) = Some (x, resumed)"
      "fst (begin_job s) = (fst (on_disk f s))\<lparr>v_heap := v_heap s @ [x], v_current := Some (length (v_heap s)),
         v_idle_state := [], v_previews := p\<rparr>"
proof -
  let ?f = "\<lambda>os. create os (v_store s) (task_id (v_tel s)) (job_name (v_tel s)) (total_layers (v_tel s)) (layer (v_tel s))"
  obtain s1 r where o: "on_disk ?f s = (s1, r)" by fastforce
  have s1: "s1 = fst (on_disk ?f s)" "r = snd (?f (w_os (v_world s)))" "v_heap s1 = v_heap s"
    using on_disk_pair [OF o] o by auto
  have b: "begin_job s =
      (if task_id (v_tel s) = [] then (s, None)
       else (case r of
               None \<Rightarrow> (s1, None)
             | Some (x, resumed) \<Rightarrow>
                 (s1\<lparr>v_heap := v_heap s1 @ [x], v_current := Some (length (v_heap s1)), v_idle_state := [],
                     v_previews := v_previews s1
                       @ (if \<not> resumed \<and> 0 < c_intro (v_cfg s1) then [length (v_heap s1)] else [])\<rparr>,
                  Some (length (v_heap s1)))))"
    using o by (simp add: begin_job_def Let_def)
  consider "task_id (v_tel s) = []" | "task_id (v_tel s) \<noteq> []" "r = None"
    | x resumed where "task_id (v_tel s) \<noteq> []" "r = Some (x, resumed)" by (cases r) auto
  then show ?thesis
  proof cases
    case 1
    then show ?thesis by (intro none) (simp_all add: b)
  next
    case 2
    then show ?thesis by (intro failed [OF _ _ refl]) (simp_all add: b s1(1))
  next
    case 3
    show ?thesis
      by (rule opened [OF _ refl, of x resumed]) (use 3 s1 in \<open>simp_all add: b\<close>)
  qed
qed

lemma wf_begin: "wf_svc s \<Longrightarrow> wf_svc (fst (begin_job s))"
proof (cases s rule: begin_cases)
  case (failed f)
  assume w: "wf_svc s"
  then have "docs_ok wf_session (fst (f (w_os (v_world s))))"
    unfolding failed(3) by (intro wf.create_ok(1) wf_fresh) (simp add: wf_svc_def)
  with wf_on_disk [OF w] failed(2) show ?thesis by simp
next
  case (opened f x resumed p)
  assume w: "wf_svc s"
  then have d: "docs_ok wf_session (w_os (v_world s))" by (simp add: wf_svc_def)
  have "docs_ok wf_session (fst (f (w_os (v_world s))))"
    unfolding opened(2) by (intro wf.create_ok(1) wf_fresh d)
  then have w1: "wf_svc (fst (on_disk f s))" by (rule wf_on_disk [OF w])
  have "wf_session x"
    using opened(3) unfolding opened(2) by (rule wf.create_ok(2) [OF d wf_fresh])
  with w1 w opened(4) show ?thesis by (simp add: wf_svc_def on_disk_fields)
qed simp

lemma wf_record: "wf_session x \<Longrightarrow> wf_session (record_report t x)"
  by (simp add: wf_session_def record_report_def Let_def)

lemma wf_start_capture: "wf_svc s \<Longrightarrow> 0 < ly \<Longrightarrow> wf_svc (start_capture i ly s)"
  by (simp add: wf_svc_def start_capture_def)

lemma wf_track: "wf_svc s \<Longrightarrow> i < length (v_heap s) \<Longrightarrow> wf_svc (track_layer i s)"
proof -
  assume w: "wf_svc s" and i: "i < length (v_heap s)"
  let ?s1 = "upd_obj i (record_report (v_tel s)) s"
  have w1: "wf_svc ?s1" by (rule wf_upd [OF w]) (rule wf_record, rule wf_obj [OF w])
  have i1: "i < length (v_heap ?s1)" using i by (simp add: fields)
  let ?s2 = "upd_obj i (\<lambda>x. x\<lparr>s_last_layer := layer (v_tel s)\<rparr>) ?s1"
  have "wf_svc ?s2" by (rule wf_upd [OF w1]) (use wf_obj [OF w1] in \<open>simp add: wf_session_def\<close>)
  then have "wf_svc (save_obj i ?s2)" by (rule wf_save) (use i1 in \<open>simp add: fields\<close>)
  with w1 show ?thesis by (simp add: track_layer_def Let_def changed_layer_def wf_start_capture)
qed

section \<open>References\<close>

definition same_refs :: "svc \<Rightarrow> svc \<Rightarrow> bool" where
  "same_refs s t \<longleftrightarrow>
     length (v_heap t) = length (v_heap s) \<and> map f_ref (v_finals t) = map f_ref (v_finals s)
     \<and> v_current t = v_current s
     \<and> (\<forall>c. v_capture t = Some c \<longrightarrow> (\<exists>d. v_capture s = Some d \<and> cp_ref d = cp_ref c))"

lemma refs_image: "f_ref ` set fs = set (map f_ref fs)"
  by simp

lemma refs_svc_alt:
  "refs_svc s \<longleftrightarrow>
     distinct (map f_ref (v_finals s)) \<and> (\<forall>r \<in> set (map f_ref (v_finals s)). r < length (v_heap s))
     \<and> (\<forall>i. v_current s = Some i \<longrightarrow> i < length (v_heap s) \<and> i \<notin> set (map f_ref (v_finals s)))
     \<and> (\<forall>c. v_capture s = Some c \<longrightarrow> cp_ref c < length (v_heap s))"
  by (simp add: refs_svc_def)

lemma refs_same: "refs_svc s \<Longrightarrow> same_refs s t \<Longrightarrow> refs_svc t"
  unfolding refs_svc_alt same_refs_def by metis

lemma refs_final: "refs_svc s \<Longrightarrow> k < length (v_finals s) \<Longrightarrow> f_ref (v_finals s ! k) < length (v_heap s)"
  by (simp add: refs_svc_def)

lemma refs_start_finalize:
  "refs_svc s \<Longrightarrow> i < length (v_heap s) \<Longrightarrow> i \<notin> f_ref ` set (v_finals s) \<Longrightarrow> v_current s \<noteq> Some i \<Longrightarrow>
     refs_svc (start_finalize i e b s)"
  by (auto simp: refs_svc_def start_finalize_def)

lemma refs_new_object:
  "refs_svc s \<Longrightarrow> refs_svc (s\<lparr>v_heap := v_heap s @ [x]\<rparr>)"
  "refs_svc s \<Longrightarrow> refs_svc (s\<lparr>v_heap := v_heap s @ [x], v_current := Some (length (v_heap s))\<rparr>)"
  by (auto simp: refs_svc_def)

lemma refs_settle: "refs_svc s \<Longrightarrow> refs_svc (settle running live xs s)"
proof (induction xs arbitrary: s)
  case (Cons x xs)
  let ?i = "length (v_heap s)" and ?s1 = "s\<lparr>v_heap := v_heap s @ [x]\<rparr>"
  have "refs_svc (start_finalize ?i state_finish True ?s1)"
    using Cons.prems by (intro refs_start_finalize refs_new_object) (auto simp: refs_svc_def)
  moreover have "refs_svc (count f (?s1\<lparr>v_current := Some ?i\<rparr>))" for f
    using refs_new_object(2) [OF Cons.prems, of x]
    by (rule refs_same) (simp add: same_refs_def count_def)
  ultimately show ?case using Cons.IH by (simp add: Let_def)
qed simp

lemma refs_on_disk: "refs_svc s \<Longrightarrow> refs_svc (fst (on_disk f s))"
  by (erule refs_same) (simp add: same_refs_def fields)

lemma refs_reconcile: "refs_svc s \<Longrightarrow> refs_svc (reconcile s)"
  using refs_on_disk [of s "\<lambda>os. list_sessions os (v_store s)"]
  by (auto simp: reconcile_def Let_def refs_settle split: option.split prod.split)

lemma refs_begin:
  "refs_svc s \<Longrightarrow> refs_svc (fst (begin_job s))
    \<and> (\<forall>i. snd (begin_job s) = Some i \<longrightarrow> i < length (v_heap (fst (begin_job s))))"
proof (cases s rule: begin_cases)
  case (opened f x resumed p)
  assume r: "refs_svc s"
  have "refs_svc (s\<lparr>v_heap := v_heap s @ [x], v_current := Some (length (v_heap s))\<rparr>)"
    by (rule refs_new_object(2) [OF r])
  then have "refs_svc (fst (begin_job s))"
    by (rule refs_same) (simp add: opened(4) same_refs_def fields)
  then show ?thesis by (simp add: opened(1,4))
qed (auto intro: refs_on_disk)

lemma refs_start_capture: "refs_svc s \<Longrightarrow> i < length (v_heap s) \<Longrightarrow> refs_svc (start_capture i ly s)"
  by (auto simp: refs_svc_def start_capture_def)

lemma refs_track: "refs_svc s \<Longrightarrow> i < length (v_heap s) \<Longrightarrow> refs_svc (track_layer i s)"
proof -
  assume r: "refs_svc s" and i: "i < length (v_heap s)"
  let ?s1 = "upd_obj i (record_report (v_tel s)) s"
  let ?s2 = "save_obj i (upd_obj i (\<lambda>x. x\<lparr>s_last_layer := layer (v_tel s)\<rparr>) ?s1)"
  have "refs_svc ?s1" "refs_svc ?s2" by (rule refs_same [OF r], simp add: same_refs_def fields)+
  then show ?thesis using i by (simp add: track_layer_def Let_def refs_start_capture fields)
qed

section \<open>The invariant\<close>

definition good :: "svc \<Rightarrow> bool" where
  "good s \<longleftrightarrow> wf_svc s \<and> refs_svc s"

lemma goodI: "wf_svc s \<Longrightarrow> refs_svc s \<Longrightarrow> good s"
  by (simp add: good_def)

lemma good_same: "good s \<Longrightarrow> wf_svc t \<Longrightarrow> same_refs s t \<Longrightarrow> good t"
  by (auto simp: good_def intro: refs_same)

lemma good_hand_over:
  "good s \<Longrightarrow> v_current s = Some i \<Longrightarrow> good (start_finalize i e b (s\<lparr>v_current := None\<rparr>))"
proof -
  assume g: "good s" and c: "v_current s = Some i"
  have "refs_svc (s\<lparr>v_current := None\<rparr>)" "wf_svc (s\<lparr>v_current := None\<rparr>)"
    using g by (auto simp: good_def refs_svc_def wf_svc_def)
  moreover have "i < length (v_heap s)" "i \<notin> f_ref ` set (v_finals s)"
    using g c by (auto simp: good_def refs_svc_def)
  ultimately show ?thesis by (intro goodI refs_start_finalize) (simp_all add: wf_start_finalize)
qed

lemma good_switch: "good s \<Longrightarrow> good (switch_job s)"
  by (auto simp: switch_job_def good_hand_over split: option.split)

lemma good_running: "good s \<Longrightarrow> good (handle_running s)"
proof -
  assume "good s"
  then have g: "good (switch_job s)" by (rule good_switch)
  obtain s1 cur where o: "open_job (switch_job s) = (s1, cur)" by fastforce
  have "good s1 \<and> (\<forall>i. cur = Some i \<longrightarrow> i < length (v_heap s1))"
  proof (cases "v_current (switch_job s)")
    case None
    with o have "s1 = fst (begin_job (switch_job s))" "cur = snd (begin_job (switch_job s))"
      by (simp_all add: open_job_def)
    with g refs_begin wf_begin show ?thesis by (simp add: good_def)
  next
    case (Some i)
    with o g show ?thesis by (auto simp: open_job_def good_def refs_svc_def)
  qed
  with o show ?thesis
    by (auto simp: handle_running_def good_def wf_track refs_track split: option.split)
qed

lemma good_fields:
  "good s \<Longrightarrow> v_world t = v_world s \<Longrightarrow> v_heap t = v_heap s \<Longrightarrow> v_finals t = v_finals s \<Longrightarrow>
     v_current t = v_current s \<Longrightarrow> v_capture t = v_capture s \<Longrightarrow> good t"
  by (simp add: good_def wf_svc_def refs_svc_def)

lemma good_note: "good s \<Longrightarrow> good (note_idle st s)"
  by (erule good_fields) (simp_all add: note_idle_def)

lemma good_handle: "good s \<Longrightarrow> good (handle s)"
  by (auto simp: handle_def handle_ended_def Let_def good_running good_hand_over good_note split: option.split)

lemma good_message: "good s \<Longrightarrow> good (on_message p s)"
proof -
  assume g: "good s"
  obtain t ok where m: "merge (v_tel s) p = (t, ok)" by fastforce
  let ?s1 = "s\<lparr>v_last_report := now s div second\<rparr>"
  let ?s2 = "observe (?s1\<lparr>v_tel := t\<rparr>)"
  have g1: "good ?s1" and g2: "good ?s2"
    by (rule good_fields [OF g]; simp add: observe_def fields)+
  have "good (?s2\<lparr>v_reconciled := True\<rparr>)" by (rule good_fields [OF g2]) simp_all
  then have "good (reconcile (?s2\<lparr>v_reconciled := True\<rparr>))"
    by (auto simp: good_def intro: wf_reconcile refs_reconcile)
  with g2 have "good (first_pass ?s2)" by (simp add: first_pass_def)
  then show ?thesis using g1 m by (simp add: on_message_def Let_def good_handle)
qed

section \<open>Captures and finalisation\<close>

lemma good_docs: "good s \<Longrightarrow> docs_ok wf_session (w_os (v_world s))"
  by (simp add: good_def wf_svc_def)

lemma good_obj: "good s \<Longrightarrow> i < length (v_heap s) \<Longrightarrow> wf_session (obj s i)"
  by (auto simp: good_def intro: wf_obj)

lemma good_on_disk:
  "good s \<Longrightarrow> docs_ok wf_session (fst (f (w_os (v_world s)))) \<Longrightarrow> good (fst (on_disk f s))"
  by (auto simp: good_def intro: wf_on_disk refs_on_disk)

lemma good_world: "good s \<Longrightarrow> docs_ok wf_session (w_os w) \<Longrightarrow> good (s\<lparr>v_world := w\<rparr>)"
  by (simp add: good_def wf_svc_def refs_svc_def)

lemma good_count: "good s \<Longrightarrow> good (count f s)"
  by (erule good_fields) (simp_all add: fields)

lemma good_wf: "good s \<Longrightarrow> wf_svc s"
  by (simp add: good_def)

lemma good_phase: "good s \<Longrightarrow> good (set_phase k p s)"
  by (rule good_same, assumption) (simp_all add: good_wf wf_set_phase same_refs_def fields)

lemma good_upd:
  "good s \<Longrightarrow> (i < length (v_heap s) \<Longrightarrow> wf_session (f (obj s i))) \<Longrightarrow> good (upd_obj i f s)"
  by (rule good_same, assumption) (simp_all add: good_wf wf_upd same_refs_def fields)

lemma good_save: "good s \<Longrightarrow> i < length (v_heap s) \<Longrightarrow> good (save_obj i s)"
  by (rule good_same, assumption) (simp_all add: good_wf wf_save same_refs_def fields)

lemma wf_keep_frame: "wf_session x \<Longrightarrow> 0 < ly \<Longrightarrow> wf_session (keep_frame ly x)"
  by (auto simp: wf_session_def keep_frame_def)

lemma good_finish_grab:
  assumes "good s" and "v_capture s = Some c"
  shows "good (finish_grab c dest s)"
proof -
  obtain w ok where g: "grab (v_world s) (svc_camera s) dest = (w, ok)" by fastforce
  have i: "cp_ref c < length (v_heap s)" and l: "0 < cp_layer c"
    using assms by (simp_all add: good_def wf_svc_def refs_svc_def)
  have "docs_ok wf_session (w_os w)" by (rule docs_world_pair [OF g docs_grab [OF good_docs [OF assms(1)]]])
  then have s1: "good (s\<lparr>v_world := w, v_capture := None\<rparr>)"
    using assms(1) by (simp add: good_def wf_svc_def refs_svc_def)
  let ?s2 = "upd_obj (cp_ref c) (keep_frame (cp_layer c)) (s\<lparr>v_world := w, v_capture := None\<rparr>)"
  have s2: "good ?s2" by (rule good_upd [OF s1]) (rule wf_keep_frame [OF good_obj [OF s1] l])
  have "good (save_obj (cp_ref c) ?s2)" by (rule good_save [OF s2]) (simp add: fields i)
  with g s1 show ?thesis by (simp add: finish_grab_def good_count Let_def)
qed

lemma good_discard: "good s \<Longrightarrow> good (discard_job i s)"
  unfolding discard_job_def by (rule good_on_disk) (simp_all add: good_docs wf.docs_discard)

lemma good_park:
  assumes "good s" and "i < length (v_heap s)"
  shows "good (park_job i reason s)"
proof -
  let ?f = "\<lambda>os. let (os', x, ok) = park os (v_store s) (obj s i) reason in (os', x)"
  obtain s1 x where o: "on_disk ?f s = (s1, x)" by fastforce
  have f: "fst (?f os) = fst (park os (v_store s) (obj s i) reason)"
    "snd (?f os) = fst (snd (park os (v_store s) (obj s i) reason))" for os
    by (simp_all add: split_beta)
  have "good (fst (on_disk ?f s))"
    by (rule good_on_disk [OF assms(1)]) (simp only: f, rule wf.docs_park(1) [OF good_docs [OF assms(1)]])
  then have "good s1" using o by simp
  moreover have "x = snd (?f (w_os (v_world s)))" using on_disk_pair [OF o] by simp
  then have "wf_session x" using wf.docs_park(2) [OF good_obj [OF assms]] by (simp only: f)
  ultimately have "good (upd_obj i (\<lambda>_. x) s1)" by (intro good_upd)
  with o show ?thesis by (simp add: park_job_def)
qed

lemma good_deliver:
  assumes "good s" and "i < length (v_heap s)"
  shows "good (deliver_locally i video cover text name s)"
proof -
  let ?f = "\<lambda>os. deliver_files os (v_output s) video cover text name"
  obtain s1 ok where o: "on_disk ?f s = (s1, ok)" by fastforce
  have "good (fst (on_disk ?f s))"
    by (rule good_on_disk [OF assms(1)]) (rule docs_deliver, rule good_docs [OF assms(1)])
  then have g1: "good s1" using o by simp
  have i1: "i < length (v_heap s1)" using on_disk_pair [OF o] assms(2) by simp
  have "good ((discard_job i (count f s1))\<lparr>v_stopping := b\<rparr>)" for f b
    by (rule good_fields [OF good_discard [OF good_count [OF g1]]]) simp_all
  with good_park [OF g1 i1] o show ?thesis by (simp add: deliver_locally_def)
qed

lemma docs_preview: "docs_ok P os \<Longrightarrow> docs_ok P (fst (preview_path os x))"
  using docs_stat [of P os "s_dir x @ [preview_file]"]
  by (auto simp: preview_path_def Let_def split: prod.split)

lemma good_request: "good s \<Longrightarrow> good (fst (job_request i video cover text name s))"
proof -
  assume g: "good s"
  obtain w x y where d: "dimensions (v_world s) (svc_tools s) video = (w, x, y)" using prod_cases3 by blast
  have "w_os w = w_os (v_world s)" using dimensions_os [of "v_world s" "svc_tools s" video] d by simp
  then have g1: "good (s\<lparr>v_world := w\<rparr>)" using good_world [OF g] good_docs [OF g] by simp
  let ?f = "\<lambda>os. preview_path os (obj s i)"
  have "good (fst (on_disk ?f (s\<lparr>v_world := w\<rparr>)))"
    by (rule good_on_disk [OF g1]) (rule docs_preview, rule good_docs [OF g1])
  with d show ?thesis by (simp add: job_request_def obj_def split: prod.split) (metis fst_conv)
qed

lemma good_render:
  assumes "good s" and "k < length (v_finals s)"
  shows "good (render k elapsed cover s)"
proof -
  let ?i = "f_ref (v_finals s ! k)" and ?x = "obj s (f_ref (v_finals s ! k))"
  have i: "?i < length (v_heap s)" using assms by (auto simp: good_def intro: refs_final)
  let ?name = "filename (c_printer (v_cfg s)) ?x"
  let ?video = "s_dir ?x @ [?name]"
  obtain w ok where e: "encode_job (v_world s) (svc_tools s) (v_cfg s) (v_font s) ?x ?video cover = (w, ok)"
    by fastforce
  let ?text = "caption (c_printer (v_cfg s)) ?x (f_end (v_finals s ! k) = state_finish) elapsed"
  have w: "docs_ok wf_session (w_os w)"
    by (rule docs_world_pair [OF e docs_encode_job [OF good_docs [OF assms(1)]]])
  have g1: "good (s\<lparr>v_world := w\<rparr>)" by (rule good_world [OF assms(1) w])
  let ?s2 = "fst (on_disk (\<lambda>os. os_write os (s_dir ?x @ [''caption.txt'']) (Bytes ?text)) (s\<lparr>v_world := w\<rparr>))"
  have g2: "good ?s2"
    by (rule good_on_disk [OF g1]) (rule docs_write, rule good_docs [OF g1], simp)
  have d: "good (deliver_locally ?i ?video cover ?text ?name ?s2)"
    by (rule good_deliver [OF g2]) (simp add: fields i)
  obtain s3 rq where r: "job_request ?i ?video cover ?text ?name ?s2 = (s3, rq)" by fastforce
  have g3: "good s3" using good_request [OF g2, of ?i ?video cover ?text ?name] r by simp
  have p: "good (park_job ?i reason (count f (s\<lparr>v_world := w\<rparr>)))" for reason f
    by (rule good_park [OF good_count [OF g1]]) (simp add: fields i)
  show ?thesis
    using e d g3 p r
    by (simp add: render_def Let_def good_phase good_discard good_count assms(1))
qed

lemma good_give_up:
  assumes "good s" and "k < length (v_finals s)"
  shows "good (give_up k s)"
  unfolding give_up_def
  by (rule good_phase, rule good_park [OF good_count [OF assms(1)]])
    (use assms in \<open>auto simp: good_def fields intro: refs_final\<close>)

text \<open>The three ways out of an attempt, none of which has changed the tree by itself.\<close>

lemma attempt_outcome:
  obtains (posted) w where "tree (w_os w) = tree (w_os (v_world s))"
      "attempt k rq n seed r s = set_phase k Finished
         (discard_job (f_ref (v_finals s ! k))
           (count (\<lambda>m. (count_upload ''ok'' m)\<lparr>m_last_upload := Some (now s)\<rparr>) (s\<lparr>v_world := w\<rparr>)))"
  | (again) w where "tree (w_os w) = tree (w_os (v_world s))"
      "attempt k rq n seed r s = set_phase k (Waiting rq n (now s + backoff n)) (s\<lparr>v_world := w\<rparr>)"
  | (given_up) w where "tree (w_os w) = tree (w_os (v_world s))"
      "attempt k rq n seed r s = give_up k (s\<lparr>v_world := w\<rparr>)"
proof -
  let ?f = "\<lambda>os. let (os', m, v) = post (v_printable s) (svc_uploader s) os rq seed r in (os', v)"
  let ?w = "fst (on_os ?f (v_world s))"
  obtain s1 v where o: "on_disk ?f s = (s1, v)" by fastforce
  then have s1: "s1 = s\<lparr>v_world := ?w\<rparr>" using on_disk_pair [OF o] by simp
  have t: "tree (w_os ?w) = tree (w_os (v_world s))" by (simp add: on_os_def split_beta post_tree)
  show thesis
  proof (cases v)
    case Posted
    with o s1 show ?thesis by (intro posted [OF t]) (simp add: attempt_def)
  next
    case (Refused retry)
    with o s1 show ?thesis
      by (cases retry) (intro again [OF t], simp add: attempt_def, intro given_up [OF t], simp add: attempt_def)
  qed
qed

lemma good_attempt:
  assumes "good s" and "k < length (v_finals s)"
  shows "good (attempt k rq n seed r s)"
proof -
  have g: "good (s\<lparr>v_world := w\<rparr>)" if "tree (w_os w) = tree (w_os (v_world s))" for w
    using good_world [OF assms(1)] good_docs [OF assms(1)] docs_ok_tree [OF that] by blast
  show ?thesis
    by (cases rule: attempt_outcome [where s = s and k = k and rq = rq and n = n and seed = seed and r = r])
      (simp_all add: g good_phase good_discard good_count good_give_up assms(2))
qed

lemma good_preview: "good s \<Longrightarrow> good (keep_preview i img s)"
proof -
  assume g: "good s"
  have "good (fst (on_disk (\<lambda>os. os_write os p (Bytes b)) s))" for p b
    by (rule good_on_disk [OF g]) (rule docs_write, rule good_docs [OF g], simp)
  with g show ?thesis by (simp add: keep_preview_def split: option.split)
qed

lemma good_take_cover: "good s \<Longrightarrow> good (take_cover k elapsed lst s)"
proof -
  assume g: "good s"
  obtain w cover where c: "cover_frame (v_world s) (svc_camera s) (svc_tools s) (c_crop (v_cfg s))
      (obj s (f_ref (v_finals s ! k))) lst (f_skip (v_finals s ! k)) = (w, cover)" by fastforce
  have "docs_ok wf_session (w_os w)" by (rule docs_world_pair [OF c docs_cover [OF good_docs [OF g]]])
  then have "good (s\<lparr>v_world := w\<rparr>)" by (rule good_world [OF g])
  with c show ?thesis by (simp add: take_cover_def good_phase)
qed

lemma good_shoot: "good s \<Longrightarrow> v_capture s = Some c \<Longrightarrow> good (shoot c s)"
  by (auto simp: good_def shoot_def wf_svc_def refs_svc_def)

lemma good_advance: "good s \<Longrightarrow> good (advance d s)"
  using docs_ok_tree [of "(w_os (v_world s))\<lparr>clock := clock (w_os (v_world s)) + d\<rparr>" "w_os (v_world s)" wf_session]
  by (simp add: good_def advance_def wf_svc_def refs_svc_def)

lemma good_retry: "good s \<Longrightarrow> good (retry_next net s)"
proof (cases "v_parked s")
  case (Cons e es)
  assume g: "good s"
  obtain w m where r: "retry_entries (v_printable s) (svc_uploader s) (svc_tools s) (v_world s)
      (v_metrics s) (st_failed (v_store s)) [e] (\<lambda>_. net) 0 = (w, m)" by fastforce
  have "docs_ok wf_session (w_os w)"
    by (rule docs_world_pair [OF r docs_retry_entries [OF good_docs [OF g]]])
  then have "good (s\<lparr>v_world := w\<rparr>)" by (rule good_world [OF g])
  then have "good (s\<lparr>v_world := w, v_metrics := m, v_parked := es\<rparr>)" by (rule good_fields) simp_all
  with Cons r show ?thesis by (simp add: retry_next_def)
qed (simp add: retry_next_def)

lemma good_transition: "transition s e t \<Longrightarrow> good s \<Longrightarrow> good t"
proof (induction rule: transition.induct)
  case (preview i s img)
  have "good (s\<lparr>v_previews := remove1 i (v_previews s)\<rparr>)" by (rule good_fields [OF preview(2)]) simp_all
  then show ?case by (rule good_preview)
next
  case (give_up_shot s c)
  then show ?case by (auto simp: good_def wf_svc_def refs_svc_def)
next
  case (space s x)
  show ?case by (rule good_fields [OF space]) simp_all
next
  case (stop s)
  show ?case by (rule good_fields [OF stop]) simp_all
qed (simp_all add: good_message good_count good_advance good_shoot good_finish_grab end_drain_def Let_def
  good_phase good_take_cover good_render good_attempt after_wait_def good_give_up good_retry)

interpretation daemon: kept_invariant transition good
  by unfold_locales (rule good_transition)

end
