(* ===== verification/Probe.thy ===== *)
theory Probe
  imports Camera
begin

text \<open>
  \<open>internal/probe/probe.go\<close>: the four questions asked of the printer, by the daemon before it starts
  and by the debug command. What the network answers is a record of its own; the text of an error
  is the argument \<open>pn_why\<close>, by the call it comes from.
\<close>

section \<open>What the network answers\<close>

text \<open>A dial ends in an error or in nothing; a handshake may also not end in time.\<close>

datatype handshake = TimedOut | RefusedBy string | Accepted

record printer_net =
  pn_dial :: "string \<Rightarrow> string option"
  pn_handshake :: handshake
  pn_temp :: "path option"
  pn_why :: "string \<Rightarrow> string"

definition mqtt_port :: string where "mqtt_port = ''8883''"
definition connect_wait :: string where "connect_wait = ''10s''"

section \<open>The checks\<close>

record result =
  r_name :: string
  r_detail :: string
  r_ok :: bool

definition check_printer :: string where "check_printer = ''printer''"
definition check_access :: string where "check_access = ''access''"
definition check_liveview :: string where "check_liveview = ''liveview''"
definition check_camera :: string where "check_camera = ''camera''"

definition reachable :: "printer_net \<Rightarrow> string \<Rightarrow> result" where
  "reachable net host =
     (case pn_dial net mqtt_port of
        Some why \<Rightarrow>
          \<lparr>r_name = check_printer,
           r_detail = ''no answer from '' @ host @ '' on '' @ mqtt_port @ '': '' @ why
                       @ '' (wrong PRINTER_HOST, or the printer is off)'',
           r_ok = False\<rparr>
      | None \<Rightarrow> \<lparr>r_name = check_printer, r_detail = join_host_port host mqtt_port, r_ok = True\<rparr>)"

definition access :: "printer_net \<Rightarrow> result" where
  "access net =
     (case pn_handshake net of
        TimedOut \<Rightarrow>
          \<lparr>r_name = check_access,
           r_detail = ''no answer to the MQTT handshake within '' @ connect_wait, r_ok = False\<rparr>
      | RefusedBy why \<Rightarrow>
          \<lparr>r_name = check_access,
           r_detail = ''refused: '' @ why
                       @ '' (check PRINTER_ACCESS_CODE on the printer'' @ [CHR 0x27]
                       @ ''s network screen)'',
           r_ok = False\<rparr>
      | Accepted \<Rightarrow> \<lparr>r_name = check_access, r_detail = ''access code accepted'', r_ok = True\<rparr>)"

definition liveview :: "printer_net \<Rightarrow> result" where
  "liveview net =
     (case pn_dial net rtsps_port of
        Some why \<Rightarrow>
          \<lparr>r_name = check_liveview,
           r_detail = rtsps_port @ '' closed: '' @ why @ ''; enable LAN Only Liveview on the printer'',
           r_ok = False\<rparr>
      | None \<Rightarrow>
          \<lparr>r_name = check_liveview, r_detail = ''LAN Only Liveview is enabled'', r_ok = True\<rparr>)"

definition skipped :: "string \<Rightarrow> string \<Rightarrow> result" where
  "skipped name host =
     \<lparr>r_name = name, r_detail = ''not checked; '' @ host @ '' is unreachable'', r_ok = False\<rparr>"

text \<open>
  \<open>grab\<close>, once the directory of the still is there: with a path to keep it at, or to a temporary
  directory that is removed again.
\<close>

definition camera_result :: "string \<Rightarrow> bool \<Rightarrow> result" where
  "camera_result detail ok = \<lparr>r_name = check_camera, r_detail = detail, r_ok = ok\<rparr>"

definition shoot_still ::
  "printer_net \<Rightarrow> 'd world \<Rightarrow> camera \<Rightarrow> path \<Rightarrow> path option \<Rightarrow> 'd world \<times> result" where
  "shoot_still net w cam dest frame =
     (let (w1, ok) = grab w cam dest in
      if \<not> ok then (w1, camera_result (''no frame: '' @ pn_why net ''grab'') False)
      else (let (w2, info) = on_os (\<lambda>os. os_stat os dest) w1 in
            (w2, case info of
                   None \<Rightarrow> camera_result (''grabbed but unreadable: '' @ pn_why net ''stat'') False
                 | Some (sz, m) \<Rightarrow>
                     camera_result
                       (if frame = None
                        then ''live view returns frames ('' @ itoa (int sz) @ '' bytes)''
                        else show_path dest @ '' ('' @ itoa (int sz) @ '' bytes)'') True)))"

definition grab_check ::
  "printer_net \<Rightarrow> 'd world \<Rightarrow> camera \<Rightarrow> path option \<Rightarrow> 'd world \<times> result" where
  "grab_check net w cam frame =
     (case frame of
        None \<Rightarrow>
          (case pn_temp net of
             None \<Rightarrow> (w, camera_result (''no temp dir to grab into: '' @ pn_why net ''temp'') False)
           | Some dir \<Rightarrow>
               (let w0 = fst (on_os (\<lambda>os. os_mkdir_all os dir) w);
                    (w1, r) = shoot_still net w0 cam (dir @ [''probe.jpg'']) None
                in (fst (on_os (\<lambda>os. os_remove_all os dir) w1), r)))
      | Some dest \<Rightarrow>
          (let (w0, made) = on_os (\<lambda>os. os_mkdir_all os (butlast dest)) w in
           if \<not> made then (w0, camera_result (show_path dest @ '': '' @ pn_why net ''mkdir'') False)
           else shoot_still net w0 cam dest frame))"

text \<open>\<open>Printer\<close>; without a camera the grab is left out.\<close>

definition ask_printer ::
  "printer_net \<Rightarrow> 'd world \<Rightarrow> string \<Rightarrow> camera option \<Rightarrow> path option \<Rightarrow> 'd world \<times> result list" where
  "ask_printer net w host cam frame =
     (let r = reachable net host in
      if \<not> r_ok r
      then (w, [r, skipped check_access host, skipped check_liveview host, skipped check_camera host])
      else (case cam of
              None \<Rightarrow> (w, [r, access net, liveview net])
            | Some c \<Rightarrow> (let (w1, g) = grab_check net w c frame in (w1, [r, access net, liveview net, g]))))"

section \<open>Properties\<close>

lemma check_names [simp]:
  "r_name (reachable net host) = check_printer" "r_name (access net) = check_access"
  "r_name (liveview net) = check_liveview" "r_name (skipped n host) = n"
  "r_name (camera_result d ok) = check_camera"
  by (simp_all add: reachable_def access_def liveview_def skipped_def camera_result_def
      split: option.split handshake.split)

lemma shoot_still_name: "r_name (snd (shoot_still net w cam dest frame)) = check_camera"
  by (simp add: shoot_still_def split: prod.split option.split)

lemma grab_check_name [simp]: "r_name (snd (grab_check net w cam frame)) = check_camera"
  by (simp add: grab_check_def Let_def split_beta shoot_still_name split: option.split)

lemma camera_result_ok [simp]: "r_ok (camera_result d ok) = ok"
  by (simp add: camera_result_def)

text \<open>The probe asks its questions in a fixed order, each exactly once, so a log line of the daemon
  and one of the debug command are the same check; an unreachable printer fails all four without
  a single process being run, and only a missing camera shortens the list.\<close>

theorem probe_order:
  "map r_name (snd (ask_printer net w host cam frame)) =
     [check_printer, check_access, check_liveview]
       @ (if cam = None \<and> pn_dial net mqtt_port = None then [] else [check_camera])
   \<and> (if pn_dial net mqtt_port = None then r_ok (hd (snd (ask_printer net w host cam frame)))
      else fst (ask_printer net w host cam frame) = w
         \<and> filter r_ok (snd (ask_printer net w host cam frame)) = [])"
proof (cases "pn_dial net mqtt_port")
  case None
  then have r: "r_ok (reachable net host)" by (simp add: reachable_def)
  show ?thesis
  proof (cases cam)
    case (Some c)
    obtain w1 g where g: "grab_check net w c frame = (w1, g)" by fastforce
    then have "r_name g = check_camera" using grab_check_name [of net w c frame] by simp
    with g r None Some show ?thesis by (simp add: ask_printer_def Let_def)
  qed (use r None in \<open>simp add: ask_printer_def Let_def\<close>)
next
  case (Some why)
  then have "\<not> r_ok (reachable net host)" by (simp add: reachable_def)
  with Some show ?thesis by (simp add: ask_printer_def Let_def skipped_def)
qed

end
