(* ===== verification/Startup.thy ===== *)
theory Startup
  imports Service_Invariants Probe
begin

text \<open>
  What happens before the first report: \<open>New\<close> and \<open>resolveFont\<close> of \<open>service.go\<close>, the checks of
  \<open>preflight.go\<close>, the start of \<open>Run\<close>, and \<open>RunTimed\<close>, which captures on a clock instead. What
  \<open>exec.LookPath\<close> finds, what the network answers, the bytes of the bundled font and the reading
  of a path are arguments.
\<close>

section \<open>A new service\<close>

text \<open>\<open>resolveFont\<close>: the configured font when it can be read, else the bundled one, else none.\<close>

definition resolve_font ::
  "(string \<Rightarrow> path) \<Rightarrow> bytes \<Rightarrow> config \<Rightarrow> path \<Rightarrow> session world \<Rightarrow> session world \<times> string" where
  "resolve_font to_path ttf c base w =
     (let (w1, info) = (if c_overlay_font c = [] then (w, None)
                        else on_os (\<lambda>os. os_stat os (to_path (c_overlay_font c))) w) in
      if info \<noteq> None then (w1, c_overlay_font c)
      else (let (w2, p) = on_os (\<lambda>os. bundled_font ttf os base) w1
            in (w2, case p of None \<Rightarrow> [] | Some p' \<Rightarrow> show_path p')))"

text \<open>\<open>New\<close>: no service when the staging tree cannot be made.\<close>

definition new_service ::
  "(string \<Rightarrow> path) \<Rightarrow> (rune \<Rightarrow> bool) \<Rightarrow> bytes \<Rightarrow> config \<Rightarrow> session world \<Rightarrow> session world \<times> svc option" where
  "new_service to_path printable ttf c w =
     (let base = to_path (c_staging c); (w1, st) = on_os (\<lambda>os. new_store os base) w in
      case st of
        None \<Rightarrow> (w1, None)
      | Some store \<Rightarrow>
          (let (w2, font) = (if c_overlay c then resolve_font to_path ttf c base w1 else (w1, []))
           in (w2, Some \<lparr>v_cfg = c, v_font = font, v_output = to_path (c_output c),
                         v_printable = printable, v_store = store, v_world = w2,
                         v_tel = new_state, v_heap = [], v_current = None, v_reconciled = False,
                         v_idle_state = [], v_idle_logged = None, v_idle_notes = 0, v_capture = None,
                         v_previews = [], v_finals = [], v_parked = [], v_metrics = new_metrics,
                         v_last_report = 0, v_stopping = False, v_statfs = None\<rparr>)))"

section \<open>Preflight\<close>

record check =
  ck_name :: string
  ck_detail :: string
  ck_ok :: bool
  ck_fatal :: bool

definition overlay_check :: string where "overlay_check = ''overlay''"
definition mib_shift :: nat where "mib_shift = 20"

definition found :: "string \<Rightarrow> string \<Rightarrow> string" where
  "found p missing = (if p = [] then missing else p)"

definition remark :: "string \<Rightarrow> string \<Rightarrow> bool \<Rightarrow> check" where
  "remark name detail ok = \<lparr>ck_name = name, ck_detail = detail, ck_ok = ok, ck_fatal = False\<rparr>"

text \<open>\<open>captionChecks\<close>: the part about the overlay, which may turn the captions off, and the two held
  ends, which may be given up.\<close>

definition missing_filters :: "support \<Rightarrow> string list" where
  "missing_filters sp = filter (\<lambda>f. \<not> has_filter sp f) [filter_drawtext, filter_sendcmd]"

definition overlay_checks :: "support \<Rightarrow> svc \<Rightarrow> svc \<times> check list" where
  "overlay_checks sp s =
     (if \<not> c_overlay (v_cfg s) \<or> sup_ffmpeg sp = [] then (s, [])
      else if missing_filters sp \<noteq> []
      then (s\<lparr>v_font := []\<rparr>,
            [remark overlay_check (''ffmpeg lacks '' @ join '', '' (missing_filters sp)
                                  @ ''; captions are off'') False])
      else if v_font s = [] then (s, [remark overlay_check ''no font to draw with; captions are off'' False])
      else (s, [remark overlay_check (v_font s) True]))"

definition tail_checks :: "support \<Rightarrow> svc \<Rightarrow> svc \<times> check list" where
  "tail_checks sp s =
     (if 0 < c_tail (v_cfg s) \<and> sup_ffmpeg sp \<noteq> [] \<and> \<not> has_filter sp filter_tpad
      then (s\<lparr>v_cfg := (v_cfg s)\<lparr>c_tail := 0\<rparr>\<rparr>,
            [remark ''tail hold'' ''ffmpeg lacks tpad; the video will end on the last frame'' False])
      else (s, []))"

definition intro_checks :: "support \<Rightarrow> svc \<Rightarrow> svc \<times> check list" where
  "intro_checks sp s =
     (if 0 < c_intro (v_cfg s) \<and> sup_ffmpeg sp \<noteq> [] \<and> \<not> has_filter sp filter_concat
      then (s\<lparr>v_cfg := (v_cfg s)\<lparr>c_intro := 0\<rparr>\<rparr>,
            [remark ''cover intro'' ''ffmpeg lacks concat; the video will open on the first frame'' False])
      else (s, []))"

definition caption_checks :: "support \<Rightarrow> svc \<Rightarrow> svc \<times> check list" where
  "caption_checks sp s =
     (let (s1, a) = overlay_checks sp s; (s2, b) = tail_checks sp s1; (s3, c) = intro_checks sp s2
      in (s3, a @ b @ c))"

text \<open>\<open>printerChecks\<close>: none of them is fatal.\<close>

definition printer_checks :: "printer_net \<Rightarrow> support \<Rightarrow> svc \<Rightarrow> svc \<times> check list" where
  "printer_checks net sp s =
     (let cam = (if sup_ffmpeg sp = [] then None else Some (svc_camera s));
          (w, rs) = ask_printer net (v_world s) (c_host (v_cfg s)) cam None
      in (s\<lparr>v_world := w\<rparr>, map (\<lambda>r. remark (r_name r) (r_detail r) (r_ok r)) rs))"

text \<open>\<open>preflight\<close>: the service as the checks left it, the checks, and whether it may start. The text
  of an error of the staging probe is the argument \<open>why\<close>.\<close>

definition host_checks ::
  "string \<Rightarrow> support \<Rightarrow> bool \<Rightarrow> bool \<Rightarrow> nat option \<Rightarrow> svc \<Rightarrow> check list" where
  "host_checks why sp wr removed free s =
     [\<lparr>ck_name = ''ffmpeg'',
       ck_detail = found (sup_ffmpeg sp)
         (quote (v_printable s) (c_ffmpeg (v_cfg s))
            @ '' not found; no frame can be grabbed or encoded (set FFMPEG_BIN)''),
       ck_ok = (sup_ffmpeg sp \<noteq> []), ck_fatal = True\<rparr>,
      remark ''ffprobe''
        (found (sup_ffprobe sp)
           (quote (v_printable s) (c_ffprobe (v_cfg s))
              @ '' not found; the video will carry no dimensions (set FFPROBE_BIN)''))
        (sup_ffprobe sp \<noteq> []),
      \<lparr>ck_name = ''staging'',
       ck_detail = show_path (st_root (v_store s)) @ (if wr \<and> removed then [] else '': '' @ why),
       ck_ok = wr, ck_fatal = True\<rparr>]
     @ (case free of
          None \<Rightarrow> []
        | Some f \<Rightarrow>
            if f < c_min_free (v_cfg s)
            then [remark ''free space''
                    (itoa (int (drop_bit mib_shift f)) @ '' MiB free, below the ''
                       @ itoa (int (drop_bit mib_shift (c_min_free (v_cfg s)))) @ '' MiB floor'') False]
            else [])"

definition fatal_checks :: "check list \<Rightarrow> check list" where
  "fatal_checks cs = filter (\<lambda>c. \<not> ck_ok c \<and> ck_fatal c) cs"

definition preflight ::
  "(string \<Rightarrow> string) \<Rightarrow> printer_net \<Rightarrow> string \<Rightarrow> svc \<Rightarrow> svc \<times> check list \<times> bool" where
  "preflight look_path net why s =
     (let (w1, sp) = detect (v_world s) look_path (svc_tools s);
          (w2, wr, removed) = on_os (\<lambda>os. staging_writable os (st_root (v_store s))) w1;
          s1 = s\<lparr>v_world := w2\<rparr>;
          host = host_checks why sp wr removed (free_bytes (v_statfs s)) s1;
          (s2, captions) = caption_checks sp s1;
          (s3, asked) = printer_checks net sp s2;
          cs = host @ captions @ asked
      in (s3, cs, fatal_checks cs = []))"

section \<open>The start of a run\<close>

text \<open>\<open>Run\<close> up to the MQTT client: the checks, the sweep, and the parked uploads still to be retried.\<close>

definition start_run ::
  "(string \<Rightarrow> string) \<Rightarrow> printer_net \<Rightarrow> string \<Rightarrow> svc \<Rightarrow> svc \<times> bool" where
  "start_run look_path net why s =
     (let (s1, cs, ok) = preflight look_path net why s in
      if \<not> ok then (s1, False)
      else (let (s2, swept) = on_disk (\<lambda>os. sweep_failed os (v_store s1) (c_failed_ttl (v_cfg s1))) s1 in
            if c_api_url (v_cfg s2) = [] then (s2, True)
            else (let (s3, es) = on_disk (\<lambda>os. os_read_dir os (st_failed (v_store s2))) s2
                  in (s3\<lparr>v_parked := (case es of None \<Rightarrow> [] | Some l \<Rightarrow> l)\<rparr>, True))))"

section \<open>Capturing on a clock\<close>

text \<open>
  \<open>RunTimed\<close> after its preflight. The session has a synthetic identity and no layers; a tick of the
  clock takes a frame, and the end of the loop or of the context finalises what there is. The list
  says what each turn of the loop's select saw: a tick, or the end of the context.
\<close>

definition timed_id :: "svc \<Rightarrow> string" where
  "timed_id s = ''timed-'' @ itoa (now s div second)"

definition open_timed :: "svc \<Rightarrow> svc \<times> nat option" where
  "open_timed s =
     (let (s1, r) = on_disk (\<lambda>os. create os (v_store s) (timed_id s) ''timed capture'' 0 0) s
      in case r of
           None \<Rightarrow> (s1, None)
         | Some (x, resumed) \<Rightarrow> (s1\<lparr>v_heap := v_heap s1 @ [x]\<rparr>, Some (length (v_heap s1))))"

definition timed_frame :: "nat \<Rightarrow> svc \<Rightarrow> svc" where
  "timed_frame i s =
     (let (w, ok) = grab (v_world s) (svc_camera s) (frame_path (obj s i)); s1 = s\<lparr>v_world := w\<rparr> in
      if \<not> ok then count (\<lambda>m. m\<lparr>m_capture_failures := Suc (m_capture_failures m)\<rparr>) s1
      else (let s2 = save_obj i (upd_obj i (\<lambda>x. x\<lparr>s_frames := s_frames x + 1\<rparr>) s1)
            in count (\<lambda>m. m\<lparr>m_frames := Suc (m_frames m), m_session_frames := s_frames (obj s2 i)\<rparr>) s2))"

fun run_timed :: "nat \<Rightarrow> int \<Rightarrow> bool list \<Rightarrow> svc \<Rightarrow> svc" where
  "run_timed i most ticks s =
     (if 0 < most \<and> most \<le> s_frames (obj s i) then start_finalize i state_finish True s
      else (case ticks of
              [] \<Rightarrow> s
            | False # rest \<Rightarrow> start_finalize i state_finish True s
            | True # rest \<Rightarrow> run_timed i most rest (timed_frame i s)))"

lemma new_service_fields:
  "new_service to_path printable ttf c w = (w', Some s) \<Longrightarrow>
     v_heap s = [] \<and> v_current s = None \<and> v_capture s = None \<and> v_finals s = [] \<and> \<not> v_reconciled s
     \<and> v_tel s = new_state"
  by (auto simp: new_service_def Let_def split: prod.splits option.splits if_splits)

text \<open>The start of a run leaves the bookkeeping alone.\<close>

lemma caption_checks_books:
  "v_heap (fst (caption_checks sp s)) = v_heap s" "v_current (fst (caption_checks sp s)) = v_current s"
  "v_capture (fst (caption_checks sp s)) = v_capture s" "v_finals (fst (caption_checks sp s)) = v_finals s"
  "v_reconciled (fst (caption_checks sp s)) = v_reconciled s"
  "v_tel (fst (caption_checks sp s)) = v_tel s" "v_statfs (fst (caption_checks sp s)) = v_statfs s"
  by (simp_all add: caption_checks_def overlay_checks_def tail_checks_def intro_checks_def split_beta)

lemma preflight_books:
  "v_heap (fst (preflight lp net why s)) = v_heap s" "v_current (fst (preflight lp net why s)) = v_current s"
  "v_capture (fst (preflight lp net why s)) = v_capture s" "v_finals (fst (preflight lp net why s)) = v_finals s"
  "v_reconciled (fst (preflight lp net why s)) = v_reconciled s"
  "v_tel (fst (preflight lp net why s)) = v_tel s" "v_statfs (fst (preflight lp net why s)) = v_statfs s"
  by (simp_all add: preflight_def printer_checks_def Let_def split_beta caption_checks_books)

lemma start_run_books:
  "v_heap (fst (start_run lp net why s)) = v_heap s" "v_current (fst (start_run lp net why s)) = v_current s"
  "v_capture (fst (start_run lp net why s)) = v_capture s" "v_finals (fst (start_run lp net why s)) = v_finals s"
  "v_reconciled (fst (start_run lp net why s)) = v_reconciled s"
  "v_tel (fst (start_run lp net why s)) = v_tel s" "v_statfs (fst (start_run lp net why s)) = v_statfs s"
  by (simp_all add: start_run_def Let_def split_beta preflight_books fields)

lemma caption_checks_store: "v_store (fst (caption_checks sp s)) = v_store s"
  by (simp add: caption_checks_def overlay_checks_def tail_checks_def intro_checks_def split_beta)

lemma start_run_store: "v_store (fst (start_run lp net why s)) = v_store s"
proof -
  have "v_store (fst (preflight lp net why s)) = v_store s"
    by (simp add: preflight_def printer_checks_def Let_def split_beta caption_checks_store)
  then show ?thesis by (simp add: start_run_def Let_def split_beta fields)
qed

section \<open>Properties\<close>

lemma overlay_checks_fields:
  "v_cfg (fst (overlay_checks sp s)) = v_cfg s"
  "v_font (fst (overlay_checks sp s)) =
     (if c_overlay (v_cfg s) \<and> sup_ffmpeg sp \<noteq> [] \<and> missing_filters sp \<noteq> [] then [] else v_font s)"
  "filter ck_fatal (snd (overlay_checks sp s)) = []"
  by (simp_all add: overlay_checks_def remark_def)

lemma tail_checks_fields:
  "c_tail (v_cfg (fst (tail_checks sp s))) =
     (if 0 < c_tail (v_cfg s) \<and> sup_ffmpeg sp \<noteq> [] \<and> \<not> has_filter sp filter_tpad then 0 else c_tail (v_cfg s))"
  "c_intro (v_cfg (fst (tail_checks sp s))) = c_intro (v_cfg s)" "v_font (fst (tail_checks sp s)) = v_font s"
  "c_overlay (v_cfg (fst (tail_checks sp s))) = c_overlay (v_cfg s)"
  "filter ck_fatal (snd (tail_checks sp s)) = []"
  by (simp_all add: tail_checks_def remark_def)

lemma intro_checks_fields:
  "c_intro (v_cfg (fst (intro_checks sp s))) =
     (if 0 < c_intro (v_cfg s) \<and> sup_ffmpeg sp \<noteq> [] \<and> \<not> has_filter sp filter_concat then 0 else c_intro (v_cfg s))"
  "c_tail (v_cfg (fst (intro_checks sp s))) = c_tail (v_cfg s)" "v_font (fst (intro_checks sp s)) = v_font s"
  "c_overlay (v_cfg (fst (intro_checks sp s))) = c_overlay (v_cfg s)"
  "filter ck_fatal (snd (intro_checks sp s)) = []"
  by (simp_all add: intro_checks_def remark_def)

lemmas checks_fields = overlay_checks_fields tail_checks_fields intro_checks_fields

lemma caption_checks_fst:
  "fst (caption_checks sp s) = fst (intro_checks sp (fst (tail_checks sp (fst (overlay_checks sp s)))))"
  by (simp add: caption_checks_def split_beta)

lemma caption_checks_snd:
  "filter ck_fatal (snd (caption_checks sp s)) = []"
  by (simp add: caption_checks_def split_beta checks_fields)

lemma fatal_checks_subset: "filter ck_fatal cs = [] \<Longrightarrow> fatal_checks cs = []"
  by (auto simp: fatal_checks_def filter_empty_conv)

lemma printer_checks_snd: "filter ck_fatal (snd (printer_checks net sp s)) = []"
  by (simp add: printer_checks_def split_beta Let_def remark_def filter_map comp_def)

text \<open>C30: the service refuses to start for two reasons only: ffmpeg is not found, or the staging tree
  cannot be written. No font, filter, probe, space or printer that is missing ever keeps it from
  recording.\<close>

theorem starts_unless_useless:
  "snd (snd (preflight look_path net why s)) \<longleftrightarrow>
     look_path (ffmpeg_bin (svc_tools s)) \<noteq> []
     \<and> fst (snd (staging_writable (w_os (fst (detect (v_world s) look_path (svc_tools s)))) (st_root (v_store s))))"
proof -
  obtain w1 sp where d: "detect (v_world s) look_path (svc_tools s) = (w1, sp)" by fastforce
  have f: "sup_ffmpeg sp = look_path (ffmpeg_bin (svc_tools s))"
    using d by (auto simp: detect_def Let_def split: if_splits prod.splits)
  obtain w2 wr removed where st: "on_os (\<lambda>os. staging_writable os (st_root (v_store s))) w1 = (w2, wr, removed)"
    using prod_cases3 by blast
  have wr: "wr = fst (snd (staging_writable (w_os w1) (st_root (v_store s))))"
    using on_os_snd [of "\<lambda>os. staging_writable os (st_root (v_store s))" w1] st
    by (metis fst_conv snd_conv)
  have h: "fatal_checks (host_checks why sp wr' removed' free s1) = [] \<longleftrightarrow> sup_ffmpeg sp \<noteq> [] \<and> wr'"
    for wr' removed' free s1
    by (simp add: fatal_checks_def host_checks_def remark_def split: option.split)
  have a: "fatal_checks (xs @ ys) = fatal_checks xs @ fatal_checks ys" for xs ys
    by (simp add: fatal_checks_def)
  show ?thesis
    using d st f wr
      fatal_checks_subset [OF caption_checks_snd [of sp "s\<lparr>v_world := w2\<rparr>"]]
      fatal_checks_subset [OF printer_checks_snd [of net sp]] f
    by (simp add: preflight_def Let_def a h split_beta)
qed

text \<open>Once the checks have run with an ffmpeg, a job's caption is drawn only when drawtext and
  sendcmd are there, the last frame is cloned only when tpad is, and the video opens on the preview
  only when concat is.\<close>

theorem unavailable_filters_given_up:
  assumes "sup_ffmpeg sp \<noteq> []" and "fst (caption_checks sp s) = t"
    and "eo = job_options (v_cfg t) (v_font t) x preview cover"
  shows "(eo_overlay eo \<noteq> None \<longrightarrow> has_filter sp filter_drawtext \<and> has_filter sp filter_sendcmd)
    \<and> (tail_filter eo \<noteq> [] \<longrightarrow> has_filter sp filter_tpad)
    \<and> (shown (eo_intro eo) \<longrightarrow> has_filter sp filter_concat)"
proof -
  have "c_overlay (v_cfg t) = c_overlay (v_cfg s)"
    using assms(2) by (auto simp: caption_checks_fst checks_fields)
  moreover have "v_font t \<noteq> [] \<Longrightarrow> c_overlay (v_cfg s) \<Longrightarrow> missing_filters sp = []"
    using assms(1,2) by (auto simp: caption_checks_fst checks_fields split: if_splits)
  moreover have "0 < c_tail (v_cfg t) \<Longrightarrow> has_filter sp filter_tpad"
    using assms(1,2) by (auto simp: caption_checks_fst checks_fields split: if_splits)
  moreover have "0 < c_intro (v_cfg t) \<Longrightarrow> has_filter sp filter_concat"
    using assms(1,2) by (auto simp: caption_checks_fst checks_fields split: if_splits)
  ultimately show ?thesis
    unfolding assms(3)
    by (auto simp: job_options_def job_overlay_def tail_filter_def shown_def missing_filters_def
        split: if_splits)
qed

text \<open>C29: the closing still escapes those checks. With an ffmpeg that has tpad but not concat the tail
  is kept, so a job with a cover is encoded with a graph that concatenates: the encode a missing
  filter was to be kept from failing.\<close>

theorem outro_concat_unchecked:
  assumes "has_filter sp filter_tpad" and "\<not> has_filter sp filter_concat" and "0 < c_tail (v_cfg s)"
    and "fst (caption_checks sp s) = t"
    and "eo = job_options (v_cfg t) (v_font t) x preview (Some cover)"
  shows "shown (eo_outro eo)
    \<and> sublist ''concat='' (fst (graph_text eo cap (shown_stills eo \<noteq> []) width height))"
proof -
  have "c_tail (v_cfg t) = c_tail (v_cfg s)"
    using assms(1,4) by (auto simp: caption_checks_fst checks_fields)
  then have sh: "shown (eo_outro eo)"
    using assms(3,5) by (simp add: job_options_def shown_def)
  then have st: "shown_stills eo \<noteq> []" by (simp add: shown_stills_def)
  have "\<exists>us vs. fst (graph_text eo cap True width height) = us @ ''concat='' @ vs"
    by (rule exI [where x = "main_chain eo cap @ still_chains eo width height @ '';'' @ concat (still_segments eo)"],
        rule exI [where x = "''n='' @ itoa (int (length (still_segments eo))) @ '':v=1:a=0[out]''"])
      (simp add: graph_text_def)
  with sh st show ?thesis by (simp add: sublist_def)
qed

lemma timed_frame_obj:
  assumes "i < length (v_heap s)"
  shows "length (v_heap (timed_frame i s)) = length (v_heap s)"
    and "obj (timed_frame i s) i \<in> {obj s i, (obj s i)\<lparr>s_frames := s_frames (obj s i) + 1\<rparr>}"
proof -
  obtain w ok where g: "grab (v_world s) (svc_camera s) (frame_path (obj s i)) = (w, ok)" by fastforce
  show "length (v_heap (timed_frame i s)) = length (v_heap s)"
    using g by (simp add: timed_frame_def Let_def fields)
  have "obj (s\<lparr>v_world := w\<rparr>) i = obj s i" by (simp add: obj_def)
  then show "obj (timed_frame i s) i \<in> {obj s i, (obj s i)\<lparr>s_frames := s_frames (obj s i) + 1\<rparr>}"
    using g assms by (simp add: timed_frame_def Let_def fields obj_upd)
qed

lemma start_finalize_obj [simp]: "obj (start_finalize i e b s) j = obj s j"
  by (simp add: start_finalize_def obj_def)

lemma run_timed_obj:
  "i < length (v_heap s) \<Longrightarrow>
     s_layers (obj (run_timed i most ticks s) i) = s_layers (obj s i)
     \<and> s_frames (obj s i) \<le> s_frames (obj (run_timed i most ticks s) i)
     \<and> (0 < most \<longrightarrow> s_frames (obj (run_timed i most ticks s) i) \<le> max most (s_frames (obj s i)))"
proof (induction ticks arbitrary: s)
  case (Cons b ticks)
  note f = timed_frame_obj [OF Cons.prems]
  have "i < length (v_heap (timed_frame i s))" using f(1) Cons.prems by simp
  note ih = Cons.IH [OF this]
  show ?case
  proof (cases "0 < most \<and> most \<le> s_frames (obj s i) \<or> \<not> b")
    case False
    then have r: "run_timed i most (b # ticks) s = run_timed i most ticks (timed_frame i s)" by auto
    have "s_layers (obj (timed_frame i s) i) = s_layers (obj s i)"
      "s_frames (obj s i) \<le> s_frames (obj (timed_frame i s) i)"
      "s_frames (obj (timed_frame i s) i) \<le> s_frames (obj s i) + 1"
      using f(2) by auto
    with ih False show ?thesis unfolding r by auto
  qed auto
qed auto

text \<open>A capture on a clock makes no claim about layers and stops where it was told to. However many
  ticks pass and whatever the camera answers, the session it opened holds at most the number of
  frames asked for, its list of layers stays empty, and as soon as it has a frame its caption is the
  title alone.\<close>

theorem timed_capture_claims_no_layers:
  assumes "i < length (v_heap s)" and "s_frames (obj s i) = 0" and "s_layers (obj s i) = []"
    and "x = obj (run_timed i most ticks s) i"
  shows "s_layers x = [] \<and> 0 \<le> s_frames x \<and> (0 < most \<longrightarrow> s_frames x \<le> most)
    \<and> (0 < s_frames x \<longrightarrow> (case job_overlay c font x of None \<Rightarrow> True | Some ov \<Rightarrow> ov_lines ov = []))"
proof -
  have "s_layers x = []" "0 \<le> s_frames x" "0 < most \<longrightarrow> s_frames x \<le> most"
    using run_timed_obj [OF assms(1), of most ticks] assms(2,3,4) by auto
  then show ?thesis by (auto simp: job_overlay_def split: if_splits)
qed

lemma timed_frame_finals [simp]: "v_finals (timed_frame i s) = v_finals s"
  by (simp add: timed_frame_def Let_def fields split: prod.split)

text \<open>A capture on a clock that is told to stop finalises what it has, exactly once, whatever ticked
  before and whatever the camera answered; one that was not told to and has not taken the frames
  asked for is still capturing.\<close>

theorem timed_stop_finalises:
  "if False \<in> set ticks
   then \<exists>limit. v_finals (run_timed i most ticks s) =
          v_finals s @ [\<lparr>f_ref = i, f_end = state_finish, f_skip = True, f_phase = Draining limit\<rparr>]
   else v_finals (run_timed i most ticks s) = v_finals s
     \<or> (\<exists>limit. v_finals (run_timed i most ticks s) =
          v_finals s @ [\<lparr>f_ref = i, f_end = state_finish, f_skip = True, f_phase = Draining limit\<rparr>]
        \<and> 0 < most \<and> most \<le> s_frames (obj (run_timed i most ticks s) i))"
proof (induction ticks arbitrary: s)
  case (Cons b ticks)
  then show ?case
    using Cons.IH [of "timed_frame i s"]
    by (cases b) (auto simp: start_finalize_def obj_def split: if_splits)
qed (auto simp: start_finalize_def obj_def)

end
