(* ===== verification/Ftps.thy ===== *)
theory Ftps
  imports Camera
begin

text \<open>
  \<open>internal/ftps/ftps.go\<close>: a control connection to the printer's file store. The lines the server
  will send and the writes that succeed are given with the connection, so a theorem holds for every
  server; what happens on a data connection is a record of its own. The log keeps, in order, what the
  client did. The text of a network error is the argument \<open>why\<close>.
\<close>

section \<open>The connection\<close>

datatype action = Sent string | Opened string | Handshook | Received | Hung_Up

record conn =
  cn_host :: string
  cn_lines :: "string list"
  cn_writes :: "nat \<Rightarrow> bool"
  cn_why :: string
  cn_log :: "action list"

text \<open>A data connection: whether it can be dialled, whether the handshake succeeds and resumes the
  control session, and the bytes up to the end of it, None when reading fails.\<close>

record data_conn =
  dc_dial :: bool
  dc_handshake :: bool
  dc_resumed :: bool
  dc_bytes :: "bytes option"

datatype 'a outcome_of = Failed string | Got 'a

definition ftps_port :: string where "ftps_port = ''990''"
definition ftps_user :: string where "ftps_user = ''bblp''"
definition pasv_fields :: nat where "pasv_fields = 6"
definition port_shift :: int where "port_shift = 256"
definition reply_code_len :: nat where "reply_code_len = 3"
definition starting :: nat where "starting = 1"
definition ready :: nat where "ready = 2"
definition need_more :: nat where "need_more = 3"

definition log_action :: "action \<Rightarrow> conn \<Rightarrow> conn" where
  "log_action a c = c\<lparr>cn_log := cn_log c @ [a]\<rparr>"

definition writes_done :: "conn \<Rightarrow> nat" where
  "writes_done c = length (filter (\<lambda>a. case a of Sent l \<Rightarrow> True | _ \<Rightarrow> False) (cn_log c))"

text \<open>\<open>fmt.Fprintf(conn, "%s\r\n", cmd)\<close>.\<close>

definition send_line :: "string \<Rightarrow> conn \<Rightarrow> conn \<times> bool" where
  "send_line cmd c = (log_action (Sent cmd) c, cn_writes c (writes_done c))"

section \<open>Replies\<close>

text \<open>\<open>final\<close> and \<open>redact\<close>.\<close>

definition crlf_chars :: string where "crlf_chars = [chr 13, chr 10]"

definition final_line :: "string \<Rightarrow> bool" where
  "final_line line =
     (let t = trim_right line crlf_chars in reply_code_len < length t \<and> t ! reply_code_len = CHR '' '')"

definition redact :: "string \<Rightarrow> string" where
  "redact cmd = (if has_prefix cmd ''PASS '' then ''PASS'' else cmd)"

fun read_reply :: "string \<Rightarrow> string list \<Rightarrow> string \<times> string list \<times> bool" where
  "read_reply out [] = (out, [], False)"
| "read_reply out (l # ls) =
     (if final_line l then (out @ l, ls, True) else read_reply (out @ l) ls)"

text \<open>\<open>command\<close>: the reply, and an error.\<close>

definition command_error :: "string \<Rightarrow> string \<Rightarrow> string" where
  "command_error cmd why = ''ftps '' @ redact cmd @ '': '' @ why"

definition run_command :: "string \<Rightarrow> conn \<Rightarrow> conn \<times> string \<times> string option" where
  "run_command cmd c =
     (let (c1, ok) = (if cmd = [] then (c, True) else send_line cmd c) in
      if \<not> ok then (c1, [], Some (command_error cmd (cn_why c1)))
      else (let (out, rest, fin) = read_reply [] (cn_lines c1)
            in (c1\<lparr>cn_lines := rest\<rparr>, out,
                if fin then None else Some (command_error cmd (cn_why c1)))))"

text \<open>\<open>expect\<close>: a reply in one of the classes, or an error.\<close>

definition in_class :: "string \<Rightarrow> nat \<Rightarrow> bool" where
  "in_class reply k \<longleftrightarrow> reply \<noteq> [] \<and> hd reply = chr (48 + k)"

definition expect :: "string \<Rightarrow> nat list \<Rightarrow> conn \<Rightarrow> conn \<times> string outcome_of" where
  "expect cmd classes c =
     (let (c1, reply, err) = run_command cmd c
      in (c1, case err of
                Some e \<Rightarrow> Failed e
              | None \<Rightarrow> if list_ex (in_class reply) classes then Got reply
                        else Failed (command_error cmd (trim_space reply))))"

section \<open>Logging in\<close>

text \<open>The steps of \<open>Dial\<close> after the greeting.\<close>

definition login_steps :: "string \<Rightarrow> (string \<times> nat list) list" where
  "login_steps code =
     [(''USER '' @ ftps_user, [ready, need_more]), (''PASS '' @ code, [ready]),
      (''PBSZ 0'', [ready]), (''PROT P'', [ready]), (''TYPE I'', [ready])]"

definition hang_up :: "conn \<Rightarrow> conn" where
  "hang_up c = log_action Hung_Up c"

fun run_steps :: "(string \<times> nat list) list \<Rightarrow> conn \<Rightarrow> conn \<times> unit outcome_of" where
  "run_steps [] c = (c, Got ())"
| "run_steps ((cmd, classes) # steps) c =
     (case expect cmd classes c of
        (c1, Failed e) \<Rightarrow> (hang_up c1, Failed e)
      | (c1, Got reply) \<Rightarrow> run_steps steps c1)"

text \<open>\<open>Dial\<close> on the connection the TLS dialler gave, None when it gave none.\<close>

definition dial_ftps :: "string \<Rightarrow> string \<Rightarrow> conn option \<Rightarrow> (conn \<times> unit outcome_of) + string" where
  "dial_ftps code why dialled =
     (case dialled of
        None \<Rightarrow> Inr (''ftps dial: '' @ why)
      | Some c \<Rightarrow>
          Inl (case expect [] [ready] c of
                 (c1, Failed e) \<Rightarrow> (hang_up c1, Failed e)
               | (c1, Got reply) \<Rightarrow> run_steps (login_steps code) c1))"

definition close_ftps :: "conn \<Rightarrow> conn" where
  "close_ftps c = hang_up (fst (run_command ''QUIT'' c))"

section \<open>Transfers\<close>

text \<open>\<open>pasvAddr\<close>.\<close>

definition pasv_error :: "string \<Rightarrow> string outcome_of" where
  "pasv_error reply = Failed (''ftps pasv: '' @ trim_space reply)"

definition pasv_addr :: "string \<Rightarrow> string \<Rightarrow> string \<Rightarrow> string outcome_of" where
  "pasv_addr why host reply =
     (case (index_of reply ''('', index_of reply '')'') of
        (Some a, Some b) \<Rightarrow>
          if b < a then pasv_error reply
          else (let fs = split_on (CHR '','') (take (b - (a + 1)) (drop (a + 1) reply)) in
                if length fs \<noteq> pasv_fields then pasv_error reply
                else (case (atoi (trim_space (fs ! 4)), atoi (trim_space (fs ! 5))) of
                        (Some high, Some low) \<Rightarrow>
                          Got (join_host_port host (itoa (wrap64 (wrap64 (high * port_shift) + low))))
                      | _ \<Rightarrow> Failed (''ftps pasv port: '' @ why)))
      | _ \<Rightarrow> pasv_error reply)"

text \<open>\<open>transfer\<close>, in the order the server requires.\<close>

definition read_data :: "data_conn \<Rightarrow> conn \<Rightarrow> conn \<times> bytes outcome_of" where
  "read_data d c =
     (case expect [] [starting] c of
        (c1, Failed e) \<Rightarrow> (c1, Failed e)
      | (c1, Got reply) \<Rightarrow>
          (case dc_bytes d of
             None \<Rightarrow> (c1, Failed (''ftps read: '' @ cn_why c1))
           | Some b \<Rightarrow>
               (case expect [] [ready] (log_action Received c1) of
                  (c2, Failed e) \<Rightarrow> (c2, Failed e)
                | (c2, Got reply') \<Rightarrow> (c2, Got b))))"

definition after_pasv :: "string \<Rightarrow> data_conn \<Rightarrow> string \<Rightarrow> conn \<Rightarrow> conn \<times> bytes outcome_of" where
  "after_pasv cmd d addr c1 =
     (if \<not> dc_dial d then (c1, Failed (''ftps data dial: '' @ cn_why c1))
      else (let (c2, sent) = send_line cmd (log_action (Opened addr) c1) in
            if \<not> sent then (c2, Failed (''ftps '' @ cmd @ '': '' @ cn_why c2))
            else if \<not> dc_handshake d then (c2, Failed (''ftps data handshake: '' @ cn_why c2))
            else (let c3 = log_action Handshook c2 in
                  if \<not> dc_resumed d
                  then (c3, Failed ''ftps data channel did not resume the control session'')
                  else read_data d c3)))"

definition transfer :: "string \<Rightarrow> data_conn \<Rightarrow> conn \<Rightarrow> conn \<times> bytes outcome_of" where
  "transfer cmd d c =
     (case expect ''PASV'' [ready] c of
        (c1, Failed e) \<Rightarrow> (c1, Failed e)
      | (c1, Got reply) \<Rightarrow>
          (case pasv_addr (cn_why c1) (cn_host c1) reply of
             Failed e \<Rightarrow> (c1, Failed e)
           | Got addr \<Rightarrow> after_pasv cmd d addr c1))"

definition list_dir :: "string \<Rightarrow> data_conn \<Rightarrow> conn \<Rightarrow> conn \<times> string list outcome_of" where
  "list_dir dir d c =
     (case transfer (''LIST '' @ dir) d c of
        (c1, Failed e) \<Rightarrow> (c1, Failed e)
      | (c1, Got b) \<Rightarrow>
          (c1, Got (filter (\<lambda>l. l \<noteq> []) (map (\<lambda>l. trim_right l [chr 13]) (split_on (chr 10) b)))))"

definition retrieve :: "string \<Rightarrow> data_conn \<Rightarrow> conn \<Rightarrow> conn \<times> bytes outcome_of" where
  "retrieve path d c = transfer (''RETR '' @ path) d c"

section \<open>Properties\<close>

text \<open>Two connections that differ in the text of what was sent, not in how much.\<close>

definition alike :: "conn \<Rightarrow> conn \<Rightarrow> bool" where
  "alike c d \<longleftrightarrow>
     cn_host c = cn_host d \<and> cn_lines c = cn_lines d \<and> cn_writes c = cn_writes d \<and> cn_why c = cn_why d
     \<and> writes_done c = writes_done d"

lemma send_alike:
  "alike c d \<Longrightarrow> alike (fst (send_line x c)) (fst (send_line y d)) \<and> snd (send_line x c) = snd (send_line y d)"
  by (simp add: alike_def send_line_def log_action_def writes_done_def)

lemma expect_alike:
  assumes "alike c d" and "redact x = redact y" and "x = [] \<longleftrightarrow> y = []"
  shows "alike (fst (expect x ks c)) (fst (expect y ks d)) \<and> snd (expect x ks c) = snd (expect y ks d)"
proof -
  let ?s = "\<lambda>z c. if z = [] then (c, True) else send_line z c"
  obtain c1 ok where c1: "?s x c = (c1, ok)" by fastforce
  obtain d1 where d1: "?s y d = (d1, ok)" and a: "alike c1 d1"
    using send_alike [OF assms(1), of x y] assms(1,3) c1
    by (cases "x = []"; cases "?s y d") (auto split: if_splits)
  obtain out rest fin where r: "read_reply [] (cn_lines c1) = (out, rest, fin)" using prod_cases3 by blast
  have "alike (c1\<lparr>cn_lines := rest\<rparr>) (d1\<lparr>cn_lines := rest\<rparr>)"
    using a by (simp add: alike_def writes_done_def)
  then show ?thesis using c1 d1 a r assms(2)
    by (auto simp: expect_def run_command_def command_error_def alike_def Let_def)
qed

lemma run_steps_alike:
  "alike c d \<Longrightarrow> list_all2 (\<lambda>(x, ks) (y, ls). ks = ls \<and> redact x = redact y \<and> (x = [] \<longleftrightarrow> y = [])) ss ts \<Longrightarrow>
     snd (run_steps ss c) = snd (run_steps ts d)"
proof (induction ss arbitrary: c d ts)
  case (Cons s ss)
  obtain x ks where s: "s = (x, ks)" by fastforce
  obtain y us where t: "ts = (y, ks) # us" "redact x = redact y" "x = [] \<longleftrightarrow> y = []"
      "list_all2 (\<lambda>(x, ks) (y, ls). ks = ls \<and> redact x = redact y \<and> (x = [] \<longleftrightarrow> y = [])) ss us"
    using Cons.prems(2) s by (auto simp: list_all2_Cons1)
  obtain c1 r where c1: "expect x ks c = (c1, r)" by fastforce
  obtain d1 where d1: "expect y ks d = (d1, r)" and a: "alike c1 d1"
    using expect_alike [OF Cons.prems(1) t(2,3), of ks] c1 by (cases "expect y ks d") auto
  show ?case using s t c1 d1 Cons.IH [OF a t(4)] by (cases r) simp_all
qed simp

text \<open>C34: no error can carry the access code. Against the same server, logging in with any two access
  codes ends the same way, with the same error text if it fails: the code goes to the server and
  nowhere else.\<close>

theorem login_error_hides_code:
  "map_sum snd id (dial_ftps a why dialled) = map_sum snd id (dial_ftps b why dialled)"
proof (cases dialled)
  case (Some c)
  obtain c1 r where g: "expect [] [ready] c = (c1, r)" by fastforce
  have "snd (run_steps (login_steps a) c1) = snd (run_steps (login_steps b) c1)"
    by (rule run_steps_alike) (simp_all add: alike_def login_steps_def redact_def has_prefix_def)
  with Some g show ?thesis by (cases r) (simp_all add: dial_ftps_def)
qed (simp add: dial_ftps_def)

lemma log_action_log [simp]: "cn_log (log_action a c) = cn_log c @ [a]"
  by (simp add: log_action_def)

lemma expect_log: "cn_log (fst (expect cmd ks c)) = cn_log c @ (if cmd = [] then [] else [Sent cmd])"
  by (simp add: expect_def run_command_def send_line_def Let_def split_beta)

lemma run_steps_log:
  assumes "\<forall>(cmd, ks) \<in> set steps. cmd \<noteq> []" and "run_steps steps c = (d, r)"
  shows "\<exists>n \<le> length steps. cn_log d = cn_log c @ map (Sent \<circ> fst) (take n steps)
      @ (case r of Got u \<Rightarrow> [] | Failed e \<Rightarrow> [Hung_Up]) \<and> (r = Got () \<longrightarrow> n = length steps)"
  using assms
proof (induction steps arbitrary: c)
  case (Cons s steps)
  obtain cmd ks where s: "s = (cmd, ks)" by fastforce
  obtain c1 q where e: "expect cmd ks c = (c1, q)" by fastforce
  have l: "cn_log c1 = cn_log c @ [Sent cmd]" using expect_log [of cmd ks c] e s Cons.prems(1) by auto
  show ?case
  proof (cases q)
    case (Failed err)
    then show ?thesis using s e l Cons.prems(2) by (intro exI [of _ 1]) (auto simp: hang_up_def)
  next
    case (Got reply)
    then have "run_steps steps c1 = (d, r)" using s e Cons.prems(2) by simp
    moreover have "\<forall>(cmd, ks) \<in> set steps. cmd \<noteq> []" using Cons.prems(1) by simp
    ultimately obtain n where "n \<le> length steps" "cn_log d = cn_log c1 @ map (Sent \<circ> fst) (take n steps)
        @ (case r of Got u \<Rightarrow> [] | Failed e \<Rightarrow> [Hung_Up])" "r = Got () \<longrightarrow> n = length steps"
      using Cons.IH [of c1] by blast
    then show ?thesis using l s by (intro exI [of _ "Suc n"]) simp
  qed
qed auto

text \<open>Logging in sends its five commands in their order, the password after the user and the
  protection of the data channel before anything is transferred, and stops at the first that is
  refused; a login that fails hangs up, one that succeeds has sent all five.\<close>

theorem login_in_order:
  assumes "dial_ftps code why (Some c) = Inl (d, r)"
  shows "\<exists>n \<le> 5. cn_log d = cn_log c
      @ map Sent (take n [''USER bblp'', ''PASS '' @ code, ''PBSZ 0'', ''PROT P'', ''TYPE I''])
      @ (case r of Got u \<Rightarrow> [] | Failed e \<Rightarrow> [Hung_Up]) \<and> (r = Got () \<longrightarrow> n = 5)"
proof -
  obtain c1 g where e: "expect [] [ready] c = (c1, g)" by fastforce
  have l: "cn_log c1 = cn_log c" using expect_log [of "[]" "[ready]" c] e by simp
  show ?thesis
  proof (cases g)
    case (Failed err)
    then show ?thesis using assms e l by (intro exI [of _ 0]) (auto simp: dial_ftps_def hang_up_def)
  next
    case (Got reply)
    then have run: "run_steps (login_steps code) c1 = (d, r)" using assms e by (simp add: dial_ftps_def)
    have cmds: "map (Sent \<circ> fst) (take n (login_steps code)) =
        map Sent (take n [''USER bblp'', ''PASS '' @ code, ''PBSZ 0'', ''PROT P'', ''TYPE I''])" for n
    proof -
      have "map fst (login_steps code) = [''USER bblp'', ''PASS '' @ code, ''PBSZ 0'', ''PROT P'', ''TYPE I'']"
        by (simp add: login_steps_def ftps_user_def)
      then show ?thesis by (metis map_map take_map)
    qed
    have "\<forall>(cmd, ks) \<in> set (login_steps code). cmd \<noteq> []" "length (login_steps code) = 5"
      by (auto simp: login_steps_def)
    then obtain n where "n \<le> 5" "r = Got () \<longrightarrow> n = 5" and "cn_log d = cn_log c1
        @ map (Sent \<circ> fst) (take n (login_steps code)) @ (case r of Got u \<Rightarrow> [] | Failed e \<Rightarrow> [Hung_Up])"
      using run_steps_log [OF _ run] by auto
    then show ?thesis unfolding cmds l by blast
  qed
qed

lemma expect_host: "cn_host (fst (expect cmd ks c)) = cn_host c"
  by (simp add: expect_def run_command_def send_line_def log_action_def Let_def split_beta)

lemma read_data_log:
  assumes "read_data d c = (c', r)"
  shows "\<exists>n \<le> 1. cn_log c' = cn_log c @ take n [Received]
    \<and> (case r of Failed e \<Rightarrow> True | Got b \<Rightarrow> n = 1 \<and> dc_bytes d = Some b)"
proof -
  obtain c1 q where e: "expect [] [starting] c = (c1, q)" by fastforce
  have l1: "cn_log c1 = cn_log c" using expect_log [of "[]" "[starting]" c] e by simp
  obtain c2 q2 where e2: "expect [] [ready] (log_action Received c1) = (c2, q2)" by fastforce
  have l2: "cn_log c2 = cn_log c @ [Received]"
    using expect_log [of "[]" "[ready]" "log_action Received c1"] e2 l1 by simp
  show ?thesis
  proof (cases "\<exists>b reply. q = Got reply \<and> dc_bytes d = Some b")
    case True
    then show ?thesis using assms e e2 l2
      by (intro exI [of _ 1]) (auto simp: read_data_def split: outcome_of.splits)
  next
    case False
    then show ?thesis using assms e l1
      by (intro exI [of _ 0]) (auto simp: read_data_def split: outcome_of.splits option.splits)
  qed
qed

lemma after_pasv_log:
  assumes "after_pasv cmd d addr c = (c', r)"
  shows "\<exists>n \<le> 4. cn_log c' = cn_log c @ take n [Opened addr, Sent cmd, Handshook, Received]
    \<and> (case r of Failed e \<Rightarrow> True | Got b \<Rightarrow> n = 4 \<and> dc_resumed d \<and> dc_bytes d = Some b)"
proof -
  obtain c2 sent where s: "send_line cmd (log_action (Opened addr) c) = (c2, sent)" by fastforce
  have l2: "cn_log c2 = cn_log c @ [Opened addr, Sent cmd]" using s by (auto simp: send_line_def)
  consider "\<not> dc_dial d" | "dc_dial d" "\<not> sent \<or> \<not> dc_handshake d" | "dc_dial d" "sent" "dc_handshake d" "\<not> dc_resumed d"
    | "dc_dial d" "sent" "dc_handshake d" "dc_resumed d" by blast
  then show ?thesis
  proof cases
    case 1
    then show ?thesis using assms by (intro exI [of _ 0]) (auto simp: after_pasv_def)
  next
    case 2
    then show ?thesis using assms s l2 by (intro exI [of _ 2]) (auto simp: after_pasv_def split: if_splits)
  next
    case 3
    then show ?thesis using assms s l2 by (intro exI [of _ 3]) (auto simp: after_pasv_def Let_def)
  next
    case 4
    then have "read_data d (log_action Handshook c2) = (c', r)" using assms s by (simp add: after_pasv_def Let_def)
    from read_data_log [OF this] obtain n where n: "n \<le> 1"
      "cn_log c' = cn_log (log_action Handshook c2) @ take n [Received]"
      "case r of Failed e \<Rightarrow> True | Got b \<Rightarrow> n = 1 \<and> dc_bytes d = Some b" by blast
    then show ?thesis using 4 l2 by (intro exI [of _ "Suc (Suc (Suc n))"]) (auto split: outcome_of.split)
  qed
qed

text \<open>C33: a transfer goes in the one order the server accepts: PASV, the data connection, the command,
  and only then the handshake and the bytes. It dials the host of the control connection, never the
  one in the reply. It returns bytes only when it got to the end of all of that with the control
  session resumed, and then all of them.\<close>

theorem transfer_in_order:
  assumes "transfer cmd d c = (c', r)"
  shows "\<exists>n port. cn_log c' = cn_log c
      @ take n [Sent ''PASV'', Opened (join_host_port (cn_host c) (itoa port)), Sent cmd, Handshook, Received]
    \<and> 1 \<le> n \<and> n \<le> 5
    \<and> (case r of Failed e \<Rightarrow> True | Got b \<Rightarrow> n = 5 \<and> dc_resumed d \<and> dc_bytes d = Some b)"
proof -
  obtain c1 q where e: "expect ''PASV'' [ready] c = (c1, q)" by fastforce
  have l1: "cn_log c1 = cn_log c @ [Sent ''PASV'']" using expect_log [of "''PASV''" "[ready]" c] e by simp
  have h: "cn_host c1 = cn_host c"
    using expect_host [of "''PASV''" "[ready]" c] e by simp
  show ?thesis
  proof (cases q)
    case (Failed err)
    then show ?thesis using assms e l1 by (intro exI [of _ 1]) (auto simp: transfer_def)
  next
    case (Got reply)
    show ?thesis
    proof (cases "pasv_addr (cn_why c1) (cn_host c1) reply")
      case (Failed err)
      then have "c' = c1 \<and> r = Failed err" using assms e \<open>q = Got reply\<close> by (simp add: transfer_def)
      then show ?thesis using l1 by (intro exI [of _ 1]) simp
    next
      case (Got addr)
      then obtain port where addr: "addr = join_host_port (cn_host c) (itoa port)"
        by (auto simp: pasv_addr_def pasv_error_def h Let_def split: option.splits if_splits)
      have "after_pasv cmd d addr c1 = (c', r)"
        using assms(1) e \<open>q = Got reply\<close> Got by (simp add: transfer_def)
      from after_pasv_log [OF this] obtain n where n: "n \<le> 4"
        "cn_log c' = cn_log c1 @ take n [Opened addr, Sent cmd, Handshook, Received]"
        "case r of Failed e \<Rightarrow> True | Got b \<Rightarrow> n = 4 \<and> dc_resumed d \<and> dc_bytes d = Some b" by blast
      then show ?thesis
        using l1 addr by (intro exI [of _ "Suc n"] exI [of _ port]) (auto split: outcome_of.split)
    qed
  qed
qed

lemma index_of_plain: "CHR ''('' \<notin> set pre \<Longrightarrow> index_of (pre @ CHR ''('' # xs) ''('' = Some (length pre)"
  by (induction pre) (auto simp: has_prefix_def)

lemma index_of_close: "CHR '')'' \<notin> set pre \<Longrightarrow> index_of (pre @ CHR '')'' # xs) '')'' = Some (length pre)"
  by (induction pre) (auto simp: has_prefix_def)

lemma split_on_append_sep: "c \<notin> set x \<Longrightarrow> split_on c (x @ c # xs) = x # split_on c xs"
  by (induction x) auto

lemma trim_space_clean:
  assumes "\<forall>r \<in> set (runes s). \<not> is_space r"
  shows "trim_space s = s"
proof -
  have d: "dropWhile (is_space \<circ> fst) ps = ps" if "\<forall>p \<in> set ps. \<not> is_space (fst p)" for ps :: "(rune \<times> string) list"
    using that by (cases ps) auto
  have "\<forall>p \<in> set (decode s). \<not> is_space (fst p)" using assms by (simp add: runes_def)
  then have "trim_runes (decode s) = decode s" using d [of "rev (decode s)"] by (simp add: trim_runes_def d)
  then show ?thesis by (simp add: trim_space_def decode_bytes)
qed

lemma trim_space_digits:
  assumes "\<And>c. c \<in> set s \<Longrightarrow> is_digit c"
  shows "trim_space s = s"
proof (rule trim_space_clean)
  have "byte c < 0x80" if "c \<in> set s" for c using assms [OF that] by (simp add: is_digit_def)
  then have "\<forall>c \<in> set s. byte c < 0x80" by blast
  then show "\<forall>r \<in> set (runes s). \<not> is_space r"
    using assms by (fastforce simp: runes_ascii is_space_def is_digit_def)
qed

lemma split_on_plain: "c \<notin> set x \<Longrightarrow> split_on c x = [x]"
  by (induction x) auto

lemma split_join: "xs \<noteq> [] \<Longrightarrow> \<forall>x \<in> set xs. c \<notin> set x \<Longrightarrow> split_on c (join [c] xs) = xs"
proof (induction xs)
  case (Cons x xs)
  then show ?case by (cases xs) (simp_all add: split_on_plain split_on_append_sep)
qed simp

text \<open>The data address. Of a passive reply with six numbers the host is ignored and the port is the
  last two, as high and low byte; the host dialled is the one the control connection was opened to.\<close>

theorem passive_address:
  assumes "CHR ''('' \<notin> set pre" and "CHR '')'' \<notin> set pre" and "length hs = 4"
    and "\<forall>h \<in> set hs. CHR '','' \<notin> set h \<and> CHR '')'' \<notin> set h" and "p1 < 256" and "p2 < 256"
  shows "pasv_addr why host (pre @ CHR ''('' # join '','' (hs @ [dec p1, dec p2]) @ CHR '')'' # post) =
     Got (join_host_port host (itoa (int (256 * p1 + p2))))"
proof -
  let ?fs = "hs @ [dec p1, dec p2]"
  let ?body = "join '','' ?fs"
  have digits: "CHR '','' \<notin> set (dec n) \<and> CHR '')'' \<notin> set (dec n)" for n
    using dec_digits [of "CHR '',''" n] dec_digits [of "CHR '')''" n] by (auto simp: is_digit_def byte_def)
  have "CHR '')'' \<notin> set ?body"
  proof
    assume "CHR '')'' \<in> set ?body"
    then have "CHR '')'' \<in> set '','' \<union> \<Union> (set ` set ?fs)" using set_join_subset by blast
    then show False using assms(4) digits by auto
  qed
  then have b: "index_of ((pre @ CHR ''('' # ?body) @ CHR '')'' # post) '')'' = Some (length pre + 1 + length ?body)"
    using assms(2) by (subst index_of_close) simp_all
  have a: "index_of (pre @ CHR ''('' # (?body @ CHR '')'' # post)) ''('' = Some (length pre)"
    by (rule index_of_plain [OF assms(1)])
  have sp: "split_on (CHR '','') ?body = ?fs"
    by (rule split_join) (use assms(4) digits in auto)
  have tr: "trim_space (dec n) = dec n" for n by (rule trim_space_digits) (rule dec_digits)
  have at: "atoi (dec n) = Some (int n)" if "n < 256" for n
    using atoi_itoa [of "int n"] that by (simp add: itoa_def in_int64_def)
  have "(hs @ [dec p1, dec p2]) ! 4 = dec p1" "(hs @ [dec p1, dec p2]) ! 5 = dec p2"
    using assms(3) by (simp_all add: nth_append)
  moreover have "wrap64 (wrap64 (int p1 * 256) + int p2) = int (256 * p1 + p2)"
    using assms(5,6) by (simp add: in_int64_def)
  ultimately show ?thesis
    using a b sp tr at [OF assms(5)] at [OF assms(6)] assms(3)
    by (simp add: pasv_addr_def pasv_fields_def port_shift_def)
qed

section \<open>Witnesses\<close>

definition sample_conn :: conn where
  "sample_conn =
     \<lparr>cn_host = ''p2s'',
      cn_lines = [''220 hi'' @ crlf_chars, ''331 pw'' @ crlf_chars, ''230-all'' @ crlf_chars,
        ''230 in'' @ crlf_chars, ''200 ok'' @ crlf_chars, ''200 ok'' @ crlf_chars, ''200 ok'' @ crlf_chars],
      cn_writes = (\<lambda>n. True), cn_why = ''eof'', cn_log = []\<rparr>"

theorem login_in_order_witness:
  "\<exists>d. dial_ftps ''1234'' ''e'' (Some sample_conn) = Inl (d, Got ()) \<and> length (cn_log d) = 5"
proof -
  let ?r = "dial_ftps ''1234'' ''e'' (Some sample_conn)"
  have "snd (projl ?r) = Got ()" and "isl ?r" by code_simp+
  then obtain d where d: "?r = Inl (d, Got ())" by (metis prod.collapse sum.collapse(1))
  have "cn_log sample_conn = []" by (simp add: sample_conn_def)
  with login_in_order [OF d] d show ?thesis by auto
qed

theorem passive_address_witness:
  "pasv_addr ''e'' ''p2s'' (''227 Entering Passive Mode '' @ CHR ''('' # join '',''
     ([''10'', ''0'', ''0'', ''5''] @ [dec 195, dec 91]) @ CHR '')'' # ''.'') =
   Got (join_host_port ''p2s'' (itoa (int (256 * 195 + 91))))"
  by (rule passive_address) simp_all

definition passive_conn :: conn where
  "passive_conn = sample_conn\<lparr>cn_lines := [''227 (1,2,3,4,5,6)'' @ crlf_chars, ''150 go'' @ crlf_chars,
     ''226 done'' @ crlf_chars]\<rparr>"

theorem transfer_in_order_witness:
  "\<exists>c'. transfer ''LIST /'' \<lparr>dc_dial = True, dc_handshake = True, dc_resumed = True, dc_bytes = Some ''x''\<rparr>
     passive_conn = (c', Got ''x'') \<and> length (cn_log c') = 5"
proof -
  let ?d = "\<lparr>dc_dial = True, dc_handshake = True, dc_resumed = True, dc_bytes = Some ''x''\<rparr>"
  have "transfer ''LIST /'' ?d passive_conn = (fst (transfer ''LIST /'' ?d passive_conn), Got ''x'')"
    by (rule result_pair) code_simp
  from transfer_in_order [OF this] show ?thesis
    using \<open>transfer ''LIST /'' ?d passive_conn = _\<close> by (auto simp: passive_conn_def sample_conn_def)
qed

end
