(* ===== verification/Preview.thy ===== *)
theory Preview
  imports Ftps
begin

text \<open>
  \<open>internal/preview/preview.go\<close>: fetching the slicer's render of the plate being printed. The
  reading of a zip archive is the argument \<open>unzip\<close>: its entries in order, each with what reading it
  gives, None for an error; the case table past ASCII is the argument \<open>lower\<close>.
\<close>

section \<open>Names\<close>

definition preview_limit :: nat where "preview_limit = 8 * 2 ^ 20"

definition search_dirs :: "string list" where
  "search_dirs = [''/'', ''/cache/'', ''/sdcard/'', ''/model/'']"

text \<open>\<open>listedFile\<close>: the last run of non-space bytes, when white space precedes it.\<close>

definition re_space :: "char \<Rightarrow> bool" where
  "re_space c \<longleftrightarrow> byte c \<in> {9, 10, 12, 13, 32}"

definition listed_file :: "string \<Rightarrow> string" where
  "listed_file line =
     (let name = rev (takeWhile (\<lambda>c. \<not> re_space c) (rev line)) in if name = line then [] else name)"

text \<open>\<open>plateNumber\<close>: the leftmost match of the pattern.\<close>

definition plate_at :: "string \<Rightarrow> string option" where
  "plate_at s =
     (if \<not> has_prefix s ''plate_'' then None
      else (let ds = takeWhile is_digit (drop 6 s); rest = dropWhile is_digit (drop 6 s)
            in if ds \<noteq> [] \<and> has_prefix rest ''.gcode'' then Some ds else None))"

fun find_plate :: "string \<Rightarrow> string option" where
  "find_plate [] = None"
| "find_plate (c # cs) = (case plate_at (c # cs) of None \<Rightarrow> find_plate cs | Some ds \<Rightarrow> Some ds)"

definition plate_number :: "string \<Rightarrow> int" where
  "plate_number gcode =
     (case find_plate gcode of
        None \<Rightarrow> 1
      | Some ds \<Rightarrow> (case atoi ds of None \<Rightarrow> 1 | Some n \<Rightarrow> if n < 1 then 1 else n))"

text \<open>\<open>path.Ext\<close>, and \<open>path.Join\<close> below a rooted directory.\<close>

definition path_ext :: "string \<Rightarrow> string" where
  "path_ext name =
     (let base = rev (takeWhile (\<lambda>c. c \<noteq> CHR ''/'') (rev name)) in
      if CHR ''.'' \<in> set base then CHR ''.'' # rev (takeWhile (\<lambda>c. c \<noteq> CHR ''.'') (rev base)) else [])"

definition clean_part :: "string list \<Rightarrow> string \<Rightarrow> string list" where
  "clean_part st x = (if x = [] \<or> x = ''.'' then st else if x = ''..'' then butlast st else st @ [x])"

definition join_rooted :: "string \<Rightarrow> string \<Rightarrow> string" where
  "join_rooted dir name =
     CHR ''/'' # join ''/'' (foldl clean_part [] (split_on (CHR ''/'') (dir @ ''/'' @ name)))"

section \<open>The archive\<close>

text \<open>\<open>findArchive\<close>: every directory is listed; what the n-th data connection does is given.\<close>

definition archives_in :: "string \<Rightarrow> string list \<Rightarrow> string list" where
  "archives_in dir lines =
     map (\<lambda>l. join_rooted dir (listed_file l))
       (filter (\<lambda>l. equal_fold_ascii (path_ext (listed_file l)) ''.3mf'') lines)"

fun search :: "(nat \<Rightarrow> data_conn) \<Rightarrow> nat \<Rightarrow> string list \<Rightarrow> conn \<Rightarrow> conn \<times> string list outcome_of" where
  "search net n [] c = (c, Got [])"
| "search net n (dir # dirs) c =
     (case list_dir dir (net n) c of
        (c1, Failed e) \<Rightarrow> (c1, Failed e)
      | (c1, Got lines) \<Rightarrow>
          (case search net (Suc n) dirs c1 of
             (c2, Failed e) \<Rightarrow> (c2, Failed e)
           | (c2, Got rest) \<Rightarrow> (c2, Got (archives_in dir lines @ rest))))"

definition choose_archive :: "(rune \<Rightarrow> rune) \<Rightarrow> string \<Rightarrow> string list \<Rightarrow> string option" where
  "choose_archive lower job found =
     (case found of
        [] \<Rightarrow> None
      | [x] \<Rightarrow> Some x
      | x # _ \<Rightarrow>
          (case find (\<lambda>p. job \<noteq> [] \<and> contains (to_lower lower p) (to_lower lower job)) found of
             Some p \<Rightarrow> Some p
           | None \<Rightarrow> Some x))"

text \<open>\<open>pickPlate\<close> and \<open>plateImage\<close>.\<close>

definition plate_entry :: "int \<Rightarrow> string" where
  "plate_entry n = ''Metadata/plate_'' @ itoa n @ ''.png''"

definition plate_like :: "string \<Rightarrow> bool" where
  "plate_like name \<longleftrightarrow>
     has_prefix name ''Metadata/plate_'' \<and> has_suffix name ''.png'' \<and> \<not> contains name ''_small''"

fun pick_from :: "string \<Rightarrow> string \<Rightarrow> string list \<Rightarrow> string" where
  "pick_from exact fallback [] = fallback"
| "pick_from exact fallback (name # names) =
     (if name = exact then name
      else pick_from exact (if fallback = [] \<and> plate_like name then name else fallback) names)"

definition pick_plate :: "string list \<Rightarrow> int \<Rightarrow> string" where
  "pick_plate names n = pick_from (plate_entry n) [] names"

definition plate_image ::
  "(bytes \<Rightarrow> (string \<times> bytes option) list option) \<Rightarrow> bytes \<Rightarrow> int \<Rightarrow> bytes option" where
  "plate_image unzip archive n =
     (case unzip archive of
        None \<Rightarrow> None
      | Some es \<Rightarrow>
          (let wanted = pick_plate (map fst es) n in
           if wanted = [] then None
           else (case map_of es wanted of
                   Some (Some body) \<Rightarrow> Some (take preview_limit body)
                 | _ \<Rightarrow> None)))"

section \<open>The fetch\<close>

text \<open>\<open>Fetch\<close>: the connection as it was left, and the image.\<close>

definition fetch_on ::
  "(bytes \<Rightarrow> (string \<times> bytes option) list option) \<Rightarrow> (rune \<Rightarrow> rune) \<Rightarrow> (nat \<Rightarrow> data_conn) \<Rightarrow>
     string \<Rightarrow> string \<Rightarrow> conn \<Rightarrow> conn \<times> bytes option" where
  "fetch_on unzip lower net job gcode c =
     (case search net 0 search_dirs c of
        (c1, Failed e) \<Rightarrow> (c1, None)
      | (c1, Got found) \<Rightarrow>
          (case choose_archive lower job found of
             None \<Rightarrow> (c1, None)
           | Some archive \<Rightarrow>
               (case retrieve archive (net (length search_dirs)) c1 of
                  (c2, Failed e) \<Rightarrow> (c2, None)
                | (c2, Got body) \<Rightarrow> (c2, plate_image unzip body (plate_number gcode)))))"

definition fetch_preview ::
  "(bytes \<Rightarrow> (string \<times> bytes option) list option) \<Rightarrow> (rune \<Rightarrow> rune) \<Rightarrow> (nat \<Rightarrow> data_conn) \<Rightarrow>
     string \<Rightarrow> string \<Rightarrow> string \<Rightarrow> string \<Rightarrow> conn option \<Rightarrow> conn option \<times> bytes option" where
  "fetch_preview unzip lower net code why job gcode dialled =
     (case dial_ftps code why dialled of
        Inr e \<Rightarrow> (None, None)
      | Inl (c, Failed e) \<Rightarrow> (Some c, None)
      | Inl (c, Got u) \<Rightarrow>
          (let (c1, image) = fetch_on unzip lower net job gcode c in (Some (close_ftps c1), image)))"

section \<open>Properties\<close>

lemma plate_entry_not_small: "\<not> contains (plate_entry n) ''_small''"
proof
  assume "contains (plate_entry n) ''_small''"
  then obtain a b where "plate_entry n = a @ ''_small'' @ b" unfolding contains_iff by blast
  then have "CHR ''m'' \<in> set (plate_entry n)" by simp
  moreover have "CHR ''m'' \<notin> set (dec k)" for k
    using dec_digits [of "CHR ''m''" k] by (auto simp: is_digit_def byte_def)
  ultimately show False by (simp add: plate_entry_def itoa_def split: if_splits)
qed

lemma plate_like_nonempty: "\<not> plate_like []"
  by (simp add: plate_like_def has_prefix_def)

lemma pick_from_exact: "exact \<in> set names \<Longrightarrow> pick_from exact fallback names = exact"
  by (induction exact fallback names rule: pick_from.induct) auto

lemma pick_from_fallback: "exact \<notin> set names \<Longrightarrow> x \<noteq> [] \<Longrightarrow> pick_from exact x names = x"
  by (induction names) auto

lemma pick_from_first:
  "exact \<notin> set names \<Longrightarrow>
     pick_from exact [] names = (case find plate_like names of None \<Rightarrow> [] | Some x \<Rightarrow> x)"
proof (induction names)
  case (Cons name names)
  show ?case
  proof (cases "plate_like name")
    case True
    then have "name \<noteq> []" using plate_like_nonempty by auto
    with True Cons.prems show ?thesis by (simp add: pick_from_fallback)
  qed (use Cons in auto)
qed simp

text \<open>The render shown is of the plate being printed whenever the archive has it; otherwise it is
  the first full render of any plate, and none only when there is none. It is never a thumbnail.\<close>

theorem plate_render_chosen:
  "pick_plate names n =
     (if plate_entry n \<in> set names then plate_entry n
      else case find plate_like names of None \<Rightarrow> [] | Some x \<Rightarrow> x)
   \<and> \<not> contains (pick_plate names n) ''_small''"
proof -
  have p: "pick_plate names n = (if plate_entry n \<in> set names then plate_entry n
      else case find plate_like names of None \<Rightarrow> [] | Some x \<Rightarrow> x)"
    by (simp add: pick_plate_def pick_from_exact pick_from_first)
  have "\<not> contains [] ''_small''" by (simp add: contains_def)
  moreover have "find plate_like names = Some x \<Longrightarrow> \<not> contains x ''_small''" for x
    by (auto simp: find_Some_iff plate_like_def)
  ultimately have "\<not> contains (pick_plate names n) ''_small''"
    using plate_entry_not_small [of n] by (simp add: p split: option.split)
  with p show ?thesis by blast
qed

lemma takeWhile_digits: "\<forall>c \<in> set ds. is_digit c \<Longrightarrow> takeWhile is_digit (ds @ CHR ''.'' # rest) = ds"
  "\<forall>c \<in> set ds. is_digit c \<Longrightarrow> dropWhile is_digit (ds @ CHR ''.'' # rest) = CHR ''.'' # rest"
  by (simp_all add: takeWhile_append dropWhile_append is_digit_def byte_def)

lemma find_plate_prefix:
  "\<forall>a b. pre = a @ b \<and> b \<noteq> [] \<longrightarrow> plate_at (b @ s) = None \<Longrightarrow> plate_at s = Some ds \<Longrightarrow>
     find_plate (pre @ s) = Some ds"
proof (induction pre)
  case Nil
  then show ?case by (cases s) (simp_all add: plate_at_def has_prefix_def)
next
  case (Cons c pre)
  have "plate_at ((c # pre) @ s) = None" using Cons.prems(1) by blast
  moreover have "find_plate (pre @ s) = Some ds"
    by (rule Cons.IH [OF _ Cons.prems(2)]) (metis Cons.prems(1) append_Cons)
  ultimately show ?case by simp
qed

text \<open>The plate number is read back out of the path the printer reports, wherever in the path the
  first plate name stands; anything else, a zero included, is plate 1.\<close>

theorem plate_number_read:
  assumes "CHR ''_'' \<notin> set pre" and "n < 2 ^ 63"
  shows "plate_number (pre @ ''plate_'' @ dec n @ ''.gcode'' @ post) = max 1 (int n)"
proof -
  let ?s = "''plate_'' @ dec n @ ''.gcode'' @ post"
  have d: "\<forall>c \<in> set (dec n). is_digit c" using dec_digits by blast
  have s: "plate_at ?s = Some (dec n)"
    using takeWhile_digits [OF d, of "''gcode'' @ post"] by (simp add: plate_at_def has_prefix_def)
  have "plate_at (b @ ?s) = None" if "pre = a @ b" "b \<noteq> []" for a b
  proof (rule ccontr)
    assume "plate_at (b @ ?s) \<noteq> None"
    then have "has_prefix (b @ ?s) ''plate_''" unfolding plate_at_def by metis
    then obtain u where "b @ ''plate_'' @ (dec n @ ''.gcode'' @ post) = ''plate_'' @ u"
      by (auto simp: has_prefix_iff)
    then show False
      using assms(1) that by (auto simp: append_eq_Cons_conv)
  qed
  then have "find_plate (pre @ ?s) = Some (dec n)" by (intro find_plate_prefix [OF _ s]) blast
  moreover have "atoi (dec n) = Some (int n)"
    using atoi_itoa [of "int n"] assms(2) by (simp add: itoa_def in_int64_def)
  ultimately show ?thesis by (simp add: plate_number_def)
qed

lemma dial_failed_hangs_up:
  assumes "dial_ftps code why dialled = Inl (c, Failed e)"
  shows "last (cn_log c) = Hung_Up"
proof -
  obtain c0 where c0: "dialled = Some c0" using assms by (cases dialled) (simp_all add: dial_ftps_def)
  obtain c1 g where g: "expect [] [ready] c0 = (c1, g)" by fastforce
  show ?thesis
  proof (cases g)
    case (Failed err)
    then show ?thesis using assms c0 g by (auto simp: dial_ftps_def hang_up_def)
  next
    case (Got reply)
    then have "run_steps (login_steps code) c1 = (c, Failed e)" using assms c0 g by (simp add: dial_ftps_def)
    moreover have "\<forall>(cmd, ks) \<in> set (login_steps code). cmd \<noteq> []" by (auto simp: login_steps_def)
    ultimately show ?thesis using run_steps_log by fastforce
  qed
qed

lemma plate_image_bounded: "plate_image unzip archive n = Some b \<Longrightarrow> length b \<le> preview_limit"
  by (auto simp: plate_image_def Let_def split: option.splits if_splits)

lemma fetch_on_bounded: "snd (fetch_on unzip lower net job gcode c) = Some b \<Longrightarrow> length b \<le> preview_limit"
  by (auto simp: fetch_on_def plate_image_bounded split: prod.splits outcome_of.splits option.splits)


section \<open>Witnesses\<close>

theorem plate_number_read_witness:
  "plate_number (''/data/Metadata/'' @ ''plate_'' @ dec 3 @ ''.gcode'' @ []) = max 1 (int 3)"
  by (rule plate_number_read) simp_all

end
