(* ===== verification/Json_Text.thy ===== *)
theory Json_Text
  imports Go_Text "HOL-Library.Multiset"
begin

text \<open>
  Reading back what the raw dump prints. The text of a value, indented and with its keys sorted, is
  scanned to the tokens of the value and parsed to the value again, with integers of up to 15 digits
  as the numbers.
\<close>

section \<open>Integers\<close>

lemma dec_lower: "0 < n \<Longrightarrow> 10 ^ (length (dec n) - 1) \<le> n"
proof (induction n rule: dec.induct)
  case (1 n)
  show ?case
  proof (cases "n < 10")
    case False
    then have "10 ^ (length (dec (n div 10)) - 1) \<le> n div 10" using 1 by simp
    then have "10 * 10 ^ (length (dec (n div 10)) - 1) \<le> n" by linarith
    moreover have "length (dec (n div 10)) \<noteq> 0" by simp
    then have "10 ^ length (dec (n div 10)) = 10 * (10 :: nat) ^ (length (dec (n div 10)) - 1)"
      by (metis Suc_pred' length_greater_0_conv dec_nonempty power_Suc)
    ultimately show ?thesis using False by (simp add: dec.simps [of n])
  qed (use "1.prems" in \<open>simp add: dec.simps [of n]\<close>)
qed

text \<open>A candidate with no more digits than the integer has is an integer, so it is the integer itself
  or another value.\<close>

lemma candidate_int:
  assumes "0 < m" and "m \<le> 10 ^ 15" and "n \<le> length (dec m)" and "0 < n"
  shows "digits_candidate (of_nat m) n =
    (if 10 ^ (length (dec m) - n) dvd m then Some (of_nat m) else None)"
proof -
  let ?L = "length (dec m)" and ?x = "of_nat m :: rat"
  define u where "u = (10 :: nat) ^ (?L - n)"
  define q where "q = m div u"
  have u: "0 < u" by (simp add: u_def)
  have s: "pow10 (scale10 ?x + 1 - int n) = of_nat u"
    using assms(1,3) by (simp add: scale10_def pow10_def u_def nat_diff_distrib')
  have q: "\<lfloor>?x / of_nat u\<rfloor> = int q"
    by (simp add: q_def floor_divide_of_nat_eq)
  have "u \<le> 10 ^ (?L - 1)" using assms(4) by (simp add: u_def power_increasing)
  also have "\<dots> \<le> m" using dec_lower assms(1) by simp
  finally have um: "u \<le> m" .
  have lo: "q * u \<le> m" "m < q * u + u" unfolding q_def
    using dividend_less_div_times [OF u, of m] by (simp_all add: add.commute)
  have r: "round64 (of_nat k) = Fin (of_nat k)" if "k \<le> 2 * 10 ^ 15" for k
    using f64_of_int_exact [of "int k"] that by (simp add: f64_of_int_def)
  have r1: "round64 (of_nat (q * u)) = Fin (of_nat (q * u))" using lo(1) assms(2) by (intro r) simp
  have r2: "round64 (of_nat (q * u + u)) = Fin (of_nat (q * u + u))" using lo(1) um assms(2) by (intro r) simp
  have fl: "of_int \<lfloor>?x / of_nat u\<rfloor> * of_nat u = (of_nat (q * u) :: rat)" unfolding q by simp
  have fh: "of_nat (q * u) + of_nat u = (of_nat (q * u + u) :: rat)" by simp
  have "Fin (of_nat (q * u + u)) \<noteq> Fin ?x" unfolding f64.inject of_nat_eq_iff using lo(2) by simp
  moreover have "Fin (of_nat (q * u)) = Fin ?x \<longleftrightarrow> u dvd m"
    unfolding f64.inject of_nat_eq_iff q_def by (metis dvd_div_mult_self dvd_triv_right)
  moreover have "u dvd m \<Longrightarrow> (of_nat (q * u) :: rat) = ?x" by (simp add: q_def)
  ultimately show ?thesis
    unfolding digits_candidate_def s Let_def fl fh r1 r2 u_def [symmetric] by (simp del: of_nat_mult of_nat_add)
qed

lemma shortest_int:
  assumes "0 < m" and "m \<le> 10 ^ 15" and "0 < n" and "n \<le> length (dec m)" and "length (dec m) < fuel + n"
  shows "shortest fuel n (of_nat m) = of_nat m"
  using assms(3-5)
proof (induction fuel arbitrary: n)
  case (Suc fuel)
  show ?case
  proof (cases "n = length (dec m)")
    case True
    then show ?thesis using Suc.prems assms(1,2) candidate_int [of m n] by simp
  next
    case False
    then show ?thesis using Suc.prems assms(1,2) candidate_int [of m n] Suc.IH [of "Suc n"] by simp
  qed
qed simp

lemma fmt_shortest_int:
  assumes "\<bar>n\<bar> \<le> 10 ^ 15"
  shows "fmt_shortest (Fin (of_int n)) = itoa n"
proof (cases "n = 0")
  case False
  define m where "m = nat \<bar>n\<bar>"
  have m: "0 < m" "m \<le> 10 ^ 15" using False assms by (simp_all add: m_def nat_le_iff)
  have "10 ^ (length (dec m) - 1) \<le> m" using dec_lower m(1) .
  also have "\<dots> \<le> 10 ^ 15" by (rule m(2))
  finally have "length (dec m) - 1 \<le> 15" by (rule power_le_imp_le_exp [rotated]) simp
  then have "shortest 17 1 (of_nat m) = of_nat m"
    using m by (intro shortest_int) (auto simp: Suc_le_eq)
  moreover have a: "\<bar>of_int n :: rat\<bar> = of_nat m" by (simp add: m_def)
  moreover have "plain_decimal (of_nat m) = dec m" by (simp add: plain_decimal_def)
  ultimately have p: "plain_decimal (shortest 17 1 \<bar>of_int n\<bar>) = dec m" by simp
  have i: "itoa n = (if n < 0 then ''-'' else []) @ dec m" by (simp add: itoa_def m_def)
  show ?thesis unfolding fmt_shortest.simps p i using False by simp
next
  case True
  moreover have "chr 48 = CHR ''0''" by code_simp
  ultimately show ?thesis by (simp add: itoa_def dec.simps)
qed

lemma json_float_int: "\<bar>n\<bar> \<le> 10 ^ 15 \<Longrightarrow> json_float (Fin (of_int n)) = itoa n"
proof -
  assume a: "\<bar>n\<bar> \<le> 10 ^ 15"
  have "\<bar>of_int n :: rat\<bar> = of_int \<bar>n\<bar>" by simp
  moreover have "n \<noteq> 0 \<Longrightarrow> (1 :: rat) \<le> of_int \<bar>n\<bar>" by (simp only: of_int_1_le_iff)
  moreover have "(of_int \<bar>n\<bar> :: rat) < 10 ^ 21"
  proof -
    have "\<bar>n\<bar> < 10 ^ 21" using a by simp
    then have "(of_int \<bar>n\<bar> :: rat) < of_int (10 ^ 21)" by (simp only: of_int_less_iff)
    then show ?thesis by simp
  qed
  ultimately have "\<not> ((of_int n :: rat) \<noteq> 0 \<and> (\<bar>of_int n :: rat\<bar> < 1 / 10 ^ 6 \<or> 10 ^ 21 \<le> \<bar>of_int n :: rat\<bar>))"
    by auto
  then show ?thesis unfolding json_float.simps fmt_shortest_int [OF a] by (rule if_not_P)
qed

section \<open>Strings\<close>

lemma hex_val_lower: "d < 16 \<Longrightarrow> hex_val (hex_lower d) = Some d"
  by (cases "d < 10") (simp_all add: hex_val_def hex_lower_def is_digit_def Let_def)

lemma hex4_append: "hex4 (xs @ [c]) = 16 * hex4 xs + (case hex_val c of Some d \<Rightarrow> d | None \<Rightarrow> 0)"
  by (simp add: hex4_def)

lemma hex4_digits: "hex4 (hex_digits k n) = n mod 16 ^ k"
proof (induction k arbitrary: n)
  case (Suc k)
  have "16 * (n div 16 mod 16 ^ k) + n mod 16 = n mod (16 * 16 ^ k)"
    by (metis mod_mult2_eq add.commute)
  then show ?case using Suc by (simp add: hex4_append hex_val_lower)
qed (simp add: hex4_def)

lemma length_hex_digits [simp]: "length (hex_digits k n) = k"
  by (induction k arbitrary: n) simp_all

lemma hex_digits_hex: "list_all is_hex (hex_digits k n)"
  by (induction k arbitrary: n) (simp_all add: is_hex_def hex_val_lower)

text \<open>What a piece of a literal may look like, and that both readers take it off as a whole.\<close>

lemma scan_hex:
  "scan_string (backslash # CHR ''u'' # hex_digits 4 n @ t)
     = map_option (\<lambda>(a, b). (backslash # CHR ''u'' # hex_digits 4 n @ a, b)) (scan_string t)"
  using hex_digits_hex [of 4 n] by (simp add: backslash_def quote_char_def byte_def)

lemma scan_escape:
  "e \<in> set ''bfnrt'' \<or> e = backslash \<or> e = quote_char \<Longrightarrow>
     scan_string (backslash # e # t) = map_option (\<lambda>(a, b). (backslash # e # a, b)) (scan_string t)"
  by (auto simp: backslash_def quote_char_def byte_def)

lemma scan_plain:
  "\<forall>c \<in> set p. 32 \<le> byte c \<and> c \<noteq> backslash \<and> c \<noteq> quote_char \<Longrightarrow>
     scan_string (p @ t) = map_option (\<lambda>(a, b). (p @ a, b)) (scan_string t)"
proof (induction p)
  case (Cons c p)
  then show ?case by (cases "scan_string t") auto
qed (simp add: option.map_id)

lemma unquote_hex:
  assumes "n < 0xD800"
  shows "unquote (backslash # CHR ''u'' # hex_digits 4 n @ t) = encode_rune n @ unquote t"
  using assms by (simp add: hex4_digits is_surrogate_def Let_def)

lemma unquote_escape:
  "e \<in> set ''bfnrt'' \<or> e = backslash \<or> e = quote_char \<Longrightarrow> unquote (backslash # e # t) = unescape e # unquote t"
  by (auto simp: backslash_def quote_char_def)

lemma encode_rune_high:
  assumes "valid_rune r" and "0x80 \<le> r" and "c \<in> set (encode_rune r)"
  shows "0x80 \<le> byte c"
proof -
  have "\<forall>c \<in> set (encode_valid r). 0x80 \<le> byte c"
    using assms(1,2) by (auto simp: encode_valid_def valid_rune_def)
  with assms show ?thesis by (simp add: encode_rune_valid)
qed

lemma unquote_high:
  assumes "valid_rune r" and "0x80 \<le> r"
  shows "unquote (encode_rune r @ t) = encode_rune r @ unquote t"
proof -
  obtain c cs where e: "encode_valid r = c # cs" using encode_valid_Cons by blast
  then have c: "0x80 \<le> byte c" using encode_rune_high [OF assms] by (simp add: encode_rune_valid assms(1))
  then have "c \<noteq> backslash" by (auto simp: backslash_def byte_def)
  with c e decode_rune_encode [OF assms(1), of t] show ?thesis
    by (simp add: encode_rune_valid assms(1))
qed

lemma piece_cases:
  assumes "valid_rune r"
  obtains (hex) "json_piece (r, encode_rune r) = backslash # CHR ''u'' # hex_digits 4 r" "r < 0xD800"
  | (escape) e where "json_piece (r, encode_rune r) = [backslash, e]" "encode_rune r = [unescape e]"
      "e \<in> set ''bfnrt'' \<or> e = backslash \<or> e = quote_char"
  | (plain) "json_piece (r, encode_rune r) = encode_rune r"
      "\<forall>c \<in> set (encode_rune r). 32 \<le> byte c \<and> c \<noteq> backslash \<and> c \<noteq> quote_char"
proof -
  have l: "\<not> (r = rune_error \<and> length (encode_rune r) = 1)"
    by (auto simp: encode_rune_def encode_valid_def rune_error_def valid_rune_def)
  have bs: "backslash = chr 92" "quote_char = chr 34" by code_simp+
  consider (q) "r = 34 \<or> r = 92" | (short) "r \<in> {8, 9, 10, 12, 13}"
    | (long) "r \<noteq> 34" "r \<noteq> 92" "r \<notin> {8, 9, 10, 12, 13}" "r < 32 \<or> r \<in> {38, 60, 62, 0x2028, 0x2029}"
    | (other) "r \<noteq> 34" "r \<noteq> 92" "\<not> (r < 32 \<or> r \<in> {38, 60, 62, 0x2028, 0x2029})" by blast
  then show thesis
  proof cases
    case q
    then have "json_piece (r, encode_rune r) = [backslash, chr r]"
      using l by (auto simp: json_piece_def Let_def)
    moreover have "unescape (chr 34) = chr 34" "unescape (chr 92) = chr 92" by code_simp+
    then have "encode_rune r = [unescape (chr r)]" using q encode_rune_ascii [of r] by (elim disjE) simp_all
    ultimately show ?thesis using escape [of "chr r"] q bs by auto
  next
    case short
    have u: "unescape (CHR ''b'') = chr 8" "unescape (CHR ''t'') = chr 9" "unescape (CHR ''n'') = chr 10"
      "unescape (CHR ''f'') = chr 12" "unescape (CHR ''r'') = chr 13"
      by (simp_all add: unescape_def)
    have p: "json_piece (8, x) = [backslash, CHR ''b'']" "json_piece (9, x) = [backslash, CHR ''t'']"
      "json_piece (10, x) = [backslash, CHR ''n'']" "json_piece (12, x) = [backslash, CHR ''f'']"
      "json_piece (13, x) = [backslash, CHR ''r'']" for x
      by (simp_all add: json_piece_def rune_error_def)
    from short show ?thesis
      by (elim insertE emptyE; hypsubst) (rule escape, simp add: p, simp add: u, simp)+
  next
    case long
    then show ?thesis using l hex by (auto simp: json_piece_def Let_def)
  next
    case other
    have "32 \<le> byte c \<and> c \<noteq> backslash \<and> c \<noteq> quote_char" if c: "c \<in> set (encode_rune r)" for c
    proof (cases "r < 0x80")
      case True
      then have "byte c = r" using c by simp
      with other show ?thesis unfolding bs by auto
    next
      case False
      then have "0x80 \<le> byte c" using encode_rune_high [OF assms _ c] by simp
      then show ?thesis unfolding bs by auto
    qed
    moreover have "json_piece (r, encode_rune r) = encode_rune r"
      using other l by (auto simp: json_piece_def Let_def)
    ultimately show ?thesis using plain by blast
  qed
qed

definition utf8 :: "string \<Rightarrow> bool" where
  "utf8 s \<longleftrightarrow> (\<exists>rs. s = encode rs \<and> (\<forall>r \<in> set rs. valid_rune r))"

lemma literal_read:
  assumes "\<forall>r \<in> set rs. valid_rune r"
  shows "scan_string (concat (map json_piece (decode (encode rs))) @ quote_char # t) =
      Some (concat (map json_piece (decode (encode rs))), t)
    \<and> unquote (concat (map json_piece (decode (encode rs)))) = encode rs"
  using assms
proof (induction rs)
  case (Cons r rs)
  then have v: "valid_rune r" by simp
  let ?body = "concat (map json_piece (decode (encode rs)))"
  have ih: "scan_string (?body @ quote_char # t) = Some (?body, t)" "unquote ?body = encode rs"
    using Cons by simp_all
  have d: "concat (map json_piece (decode (encode (r # rs)))) = json_piece (r, encode_rune r) @ ?body"
    using decode_encode_Cons [OF v] by simp
  from v show ?case
  proof (cases rule: piece_cases)
    case hex
    then show ?thesis using ih scan_hex [of r "?body @ quote_char # t"] unquote_hex [of r ?body]
      unfolding d by (simp del: scan_string.simps unquote.simps)
  next
    case (escape e)
    then show ?thesis using ih scan_escape [of e "?body @ quote_char # t"] unquote_escape [of e ?body]
      unfolding d by (simp del: scan_string.simps unquote.simps)
  next
    case plain
    have "unquote (encode_rune r @ ?body) = encode_rune r @ unquote ?body"
    proof (cases "r < 0x80")
      case True
      then show ?thesis using plain(2) by simp
    qed (use unquote_high [OF v] in simp)
    then show ?thesis using ih scan_plain [OF plain(2), of "?body @ quote_char # t"] plain(1)
      unfolding d by (simp del: scan_string.simps unquote.simps)
  qed
qed (simp add: quote_char_def)

lemma lex_string:
  assumes "utf8 s"
  shows "lex (json_string s @ t) = map_option (\<lambda>ts. TStr s # ts) (lex t)"
proof -
  obtain rs where rs: "s = encode rs" "\<forall>r \<in> set rs. valid_rune r" using assms by (auto simp: utf8_def)
  have "\<not> json_space quote_char" "punctuation quote_char = None" by code_simp+
  then show ?thesis using literal_read [OF rs(2), of t]
    by (simp add: json_string_def rs(1) next_tok_def del: scan_string.simps unquote.simps)
qed

section \<open>Number tokens\<close>

lemma dec_zero_head: "dec n = CHR ''0'' # cs \<Longrightarrow> n = 0 \<and> cs = []"
proof (induction n arbitrary: cs rule: dec.induct)
  case (1 n)
  show ?case
  proof (cases "n < 10")
    case True
    then have "chr (48 + n) = CHR ''0''" "cs = []" using "1.prems" by (simp_all add: dec.simps [of n])
    moreover have "byte (CHR ''0'') = 48" by code_simp
    moreover have "byte (chr (48 + n)) = 48 + n" using True by (intro byte_chr_small) simp
    ultimately show ?thesis by simp
  next
    case False
    obtain d ds where d: "dec (n div 10) = d # ds" using dec_Cons by blast
    then have "d = CHR ''0''" using "1.prems" False by (simp add: dec.simps [of n])
    with 1 False d have "n div 10 = 0" by blast
    with False show ?thesis by simp
  qed
qed

lemma strip_int_dec: "strip_int (dec n) = Some []"
proof -
  obtain c cs where c: "dec n = c # cs" "is_digit c" using dec_Cons by blast
  have "dropWhile is_digit cs = []" using c dec_digits [of _ n] by auto
  then show ?thesis using c dec_zero_head [of n cs] by (auto simp: strip_int_def)
qed

lemma valid_number_itoa: "valid_number (itoa n)"
proof -
  have "\<not> has_prefix (dec k) ''-''" for k
    using dec_Cons [of k] digit_not_sign by (fastforce simp: has_prefix_iff)
  then have "strip_int (if has_prefix (itoa n) ''-'' then tl (itoa n) else itoa n) = Some []"
    by (auto simp: itoa_def strip_int_dec has_prefix_iff)
  then show ?thesis by (simp add: valid_number_def strip_frac_def strip_exp_def)
qed

lemma digit_plain:
  assumes "is_digit c"
  shows "number_char c" and "punctuation c = None" and "c \<noteq> quote_char" and "\<not> json_space c"
    and "c \<notin> set ''tfn''"
  using assms by (auto simp: number_char_def punctuation_def quote_char_def json_space_def is_digit_def byte_def)

definition after_number :: "string \<Rightarrow> bool" where
  "after_number t \<longleftrightarrow> t = [] \<or> \<not> number_char (hd t)"

lemma lex_itoa:
  assumes "after_number t"
  shows "lex (itoa n @ t) = map_option (\<lambda>ts. TNum (itoa n) # ts) (lex t)"
proof -
  have num: "\<forall>c \<in> set (itoa n). number_char c"
    using dec_digits digit_plain(1) by (auto simp: itoa_def number_char_def)
  obtain c cs where c: "itoa n = c # cs" "is_digit c \<or> c = CHR ''-''"
    using dec_Cons by (metis itoa_def)
  have t: "takeWhile number_char t = []" "dropWhile number_char t = t"
    using assms by (cases t; simp add: after_number_def)+
  have "takeWhile number_char (c # cs @ t) = c # cs" "dropWhile number_char (cs @ t) = t"
    using num c(1) t by (simp_all add: takeWhile_append dropWhile_append)
  moreover have "punctuation c = None \<and> c \<noteq> quote_char \<and> \<not> json_space c \<and> c \<notin> set ''tfn'' \<and> number_char c"
    using c(2)
  proof
    assume c: "c = CHR ''-''"
    show ?thesis unfolding c by code_simp
  qed (use digit_plain in blast)
  moreover have "valid_number (c # cs)" using valid_number_itoa [of n] c(1) by simp
  ultimately show ?thesis using c(1) by (auto simp: next_tok_def has_prefix_def)
qed

section \<open>Layout\<close>

lemma lex_space: "json_space c \<Longrightarrow> lex (c # t) = lex t"
  by simp

lemma lex_line: "lex (json_line d @ t) = lex t"
proof -
  have "json_space (chr 10)" "json_space (CHR '' '')" by code_simp+
  moreover have "lex (concat (replicate d ''  '') @ t) = lex t"
    by (induction d) (simp_all add: lex_space \<open>json_space (CHR '' '')\<close> del: lex.simps)
  ultimately show ?thesis by (simp add: json_line_def)
qed

lemma lex_punctuation:
  "lex (CHR ''{'' # t) = map_option ((#) TBraceL) (lex t)" "lex (CHR ''}'' # t) = map_option ((#) TBraceR) (lex t)"
  "lex (CHR ''['' # t) = map_option ((#) TBrackL) (lex t)" "lex (CHR '']'' # t) = map_option ((#) TBrackR) (lex t)"
  "lex (CHR '':'' # t) = map_option ((#) TColon) (lex t)" "lex (CHR '','' # t) = map_option ((#) TComma) (lex t)"
proof -
  have "\<not> json_space c" if "c \<in> set ''{}[]:,''" for c
    using that by (auto simp: json_space_def byte_def)
  then show "lex (CHR ''{'' # t) = map_option ((#) TBraceL) (lex t)"
    "lex (CHR ''}'' # t) = map_option ((#) TBraceR) (lex t)" "lex (CHR ''['' # t) = map_option ((#) TBrackL) (lex t)"
    "lex (CHR '']'' # t) = map_option ((#) TBrackR) (lex t)" "lex (CHR '':'' # t) = map_option ((#) TColon) (lex t)"
    "lex (CHR '','' # t) = map_option ((#) TComma) (lex t)"
    by (simp_all add: next_tok_def punctuation_def)
qed

lemma lex_word:
  "lex (''true'' @ t) = map_option ((#) TTrue) (lex t)" "lex (''false'' @ t) = map_option ((#) TFalse) (lex t)"
  "lex (''null'' @ t) = map_option ((#) TNull) (lex t)"
  by (simp_all add: next_tok_def punctuation_def json_space_def byte_def quote_char_def has_prefix_def)

section \<open>Values\<close>

text \<open>What the text of a value holds: its tree with the numbers as text and the keys sorted, and the
  tokens of such a tree.\<close>

primrec raw_value :: "any \<Rightarrow> raw_json" where
  "raw_value JNull = JNull"
| "raw_value (JBool b) = JBool b"
| "raw_value (JNum f) = JNum (json_float f)"
| "raw_value (JStr s) = JStr s"
| "raw_value (JArr xs) = JArr (map raw_value xs)"
| "raw_value (JObj kvs) = JObj (go_entries (map (map_prod id raw_value) kvs))"

primrec canonical :: "any \<Rightarrow> any" where
  "canonical JNull = JNull"
| "canonical (JBool b) = JBool b"
| "canonical (JNum f) = JNum f"
| "canonical (JStr s) = JStr s"
| "canonical (JArr xs) = JArr (map canonical xs)"
| "canonical (JObj kvs) = JObj (go_entries (map (map_prod id canonical) kvs))"

definition small_int :: "f64 \<Rightarrow> bool" where
  "small_int f \<longleftrightarrow> (\<exists>n. \<bar>n\<bar> \<le> 10 ^ 15 \<and> f = Fin (of_int n))"

primrec readable :: "any \<Rightarrow> bool" where
  "readable JNull = True"
| "readable (JBool b) = True"
| "readable (JNum f) = small_int f"
| "readable (JStr s) = utf8 s"
| "readable (JArr xs) = list_all (\<lambda>b. b) (map readable xs)"
| "readable (JObj kvs) = list_all (\<lambda>(k, b). utf8 k \<and> b) (map (map_prod id readable) kvs)"

definition sep_toks :: "tok list list \<Rightarrow> tok list" where
  "sep_toks tss = (case tss of [] \<Rightarrow> [] | ts # rest \<Rightarrow> ts @ concat (map (\<lambda>t. TComma # t) rest))"

primrec toks :: "raw_json \<Rightarrow> tok list" where
  "toks JNull = [TNull]"
| "toks (JBool b) = [if b then TTrue else TFalse]"
| "toks (JNum n) = [TNum n]"
| "toks (JStr s) = [TStr s]"
| "toks (JArr xs) = TBrackL # sep_toks (map toks xs) @ [TBrackR]"
| "toks (JObj kvs) =
     TBraceL # sep_toks (map (\<lambda>(k, ts). TStr k # TColon # ts) (map (map_prod id toks) kvs)) @ [TBraceR]"

primrec nesting :: "'n json \<Rightarrow> nat" where
  "nesting JNull = 0"
| "nesting (JBool b) = 0"
| "nesting (JNum n) = 0"
| "nesting (JStr s) = 0"
| "nesting (JArr xs) = Suc (foldr max (map nesting xs) 0)"
| "nesting (JObj kvs) = Suc (foldr max (map snd (map (map_prod id nesting) kvs)) 0)"

lemma foldr_max_le: "x \<in> set xs \<Longrightarrow> x \<le> foldr max xs (0 :: nat)"
  by (induction xs) auto

lemma readable_obj: "readable (JObj kvs) \<Longrightarrow> p \<in> set kvs \<Longrightarrow> utf8 (fst p) \<and> readable (snd p)"
  by (cases p) (force simp: list_all_iff)

text \<open>Sorting and dropping overwritten members look at the keys only.\<close>

lemma newest_map: "newest (map (map_prod id f) kvs) = map (map_prod id f) (newest kvs)"
  by (induction kvs rule: newest.induct) (auto simp: image_iff)

lemma newest_keys: "set (newest kvs) \<subseteq> set kvs" "fst ` set (newest kvs) = fst ` set kvs"
  "distinct (map fst (newest kvs))"
  by (induction kvs rule: newest.induct) (auto simp: image_iff)

lemma insort_key_map: "insort_key fst (map_prod id f x) (map (map_prod id f) kvs) = map (map_prod id f) (insort_key fst x kvs)"
  by (induction kvs) (auto simp: map_prod_def split: prod.splits)

lemma sort_key_map: "sort_key fst (map (map_prod id f) kvs) = map (map_prod id f) (sort_key fst kvs)"
  by (induction kvs) (simp_all add: insort_key_map [unfolded id_def] id_def)

lemma go_entries_map: "go_entries (map (map_prod id f) kvs) = map (map_prod id f) (go_entries kvs)"
  by (simp add: go_entries_def newest_map sort_key_map)

lemma go_entries_subset: "set (go_entries kvs) \<subseteq> set kvs"
  by (simp add: go_entries_def newest_keys)

lemma json_texts_map: "json_texts d xs = map (json_text d) xs"
  by (induction xs) simp_all

lemma json_member_texts_map: "json_member_texts d kvs = map (map_prod id (json_text d)) kvs"
  by (induction kvs) auto

section \<open>Scanning a value\<close>

lemma join_concat: "join sep (x # xs) = x @ concat (map (\<lambda>y. sep @ y) xs)"
  by (induction xs arbitrary: x) (simp_all add: join_Cons)

definition scans :: "string \<Rightarrow> tok list \<Rightarrow> bool" where
  "scans s ts \<longleftrightarrow> (\<forall>t. after_number t \<longrightarrow> lex (s @ t) = map_option ((@) ts) (lex t))"

lemma append_fun: "(@) [] = (\<lambda>ys. ys)" "(@) (x # xs) = (\<lambda>ys. x # xs @ ys)"
  "(@) (xs @ zs) = (\<lambda>ys. xs @ zs @ ys)"
  by auto

lemma scansD: "scans s ts \<Longrightarrow> after_number t \<Longrightarrow> lex (s @ t) = map_option ((@) ts) (lex t)"
  by (simp add: scans_def)

lemma after_number_line: "after_number (json_line d @ t)" "after_number (CHR '','' # t)"
proof -
  have "\<not> number_char (chr 10)" "\<not> number_char (CHR '','')" by code_simp+
  then show "after_number (json_line d @ t)" "after_number (CHR '','' # t)"
    by (simp_all add: after_number_def json_line_def)
qed

lemma scans_rest:
  assumes "list_all2 scans ss tss"
  shows "lex (concat (map (\<lambda>y. (CHR '','' # json_line d) @ y) ss) @ json_line e @ t)
    = map_option ((@) (concat (map (\<lambda>t. TComma # t) tss))) (lex t)"
  using assms
proof (induction rule: list_all2_induct)
  case Nil
  then show ?case by (simp add: lex_line option.map_id del: lex.simps) (simp add: option.map_ident)
next
  case (Cons s ss ts tss)
  let ?rest = "concat (map (\<lambda>y. (CHR '','' # json_line d) @ y) ss) @ json_line e @ t"
  have "after_number ?rest" by (cases ss) (simp_all add: after_number_line)
  then have "lex (s @ ?rest) = map_option ((@) ts) (lex ?rest)" using Cons.hyps(1) by (rule scansD [rotated])
  then show ?case using Cons.IH
    by (simp add: lex_punctuation lex_line option.map_comp comp_def del: lex.simps)
qed

lemma scans_block:
  assumes "list_all2 scans ss tss"
    and "\<And>t. lex (a # t) = map_option ((#) ta) (lex t)" and "\<And>t. lex (b # t) = map_option ((#) tb) (lex t)"
  shows "scans (json_block a b d ss) (ta # sep_toks tss @ [tb])"
  unfolding scans_def
proof (intro allI impI)
  fix t assume "after_number t"
  show "lex (json_block a b d ss @ t) = map_option ((@) (ta # sep_toks tss @ [tb])) (lex t)"
  proof (cases ss)
    case Nil
    then show ?thesis using assms
      by (simp add: json_block_def sep_toks_def append_fun option.map_comp comp_def del: lex.simps)
  next
    case (Cons s ss')
    then obtain ts tss' where tss: "tss = ts # tss'" "scans s ts" "list_all2 scans ss' tss'"
      using assms(1) by (auto simp: list_all2_Cons1)
    let ?rest = "concat (map (\<lambda>y. (CHR '','' # json_line (Suc d)) @ y) ss') @ json_line d @ b # t"
    have "after_number ?rest" by (cases ss') (simp_all add: after_number_line)
    then have "lex (s @ ?rest) = map_option ((@) ts) (lex ?rest)" using tss(2) by (rule scansD [rotated])
    moreover have "json_block a b d ss @ t = a # json_line (Suc d) @ s @ ?rest"
      unfolding json_block_def Cons join_concat by (simp add: append_fun)
    ultimately show ?thesis using scans_rest [OF tss(3), of "Suc d" d "b # t"] assms(2,3)
      by (simp add: tss(1) sep_toks_def lex_line append_fun option.map_comp comp_def del: lex.simps)
  qed
qed

lemma scans_member:
  assumes "utf8 k" and "scans s ts"
  shows "scans (json_string k @ '': '' @ s) (TStr k # TColon # ts)"
  unfolding scans_def
proof (intro allI impI)
  fix t assume "after_number t"
  then have "lex (s @ t) = map_option ((@) ts) (lex t)" by (rule scansD [OF assms(2)])
  moreover have "json_space (CHR '' '')" by code_simp
  ultimately show "lex ((json_string k @ '': '' @ s) @ t) = map_option ((@) (TStr k # TColon # ts)) (lex t)"
    using lex_string [OF assms(1), of "'': '' @ s @ t"]
    by (simp add: lex_punctuation lex_space append_fun option.map_comp comp_def del: lex.simps)
qed

lemma scans_value: "readable v \<Longrightarrow> scans (json_text d v) (toks (raw_value v))"
proof (induction v arbitrary: d)
  case (JNum f)
  then show ?case using lex_itoa by (auto simp: small_int_def scans_def json_float_int append_fun simp del: json_float.simps lex.simps)
next
  case (JStr s)
  then show ?case using lex_string [of s] by (auto simp: scans_def append_fun simp del: lex.simps)
next
  case (JArr xs)
  have "list_all2 scans (map (json_text (Suc d)) xs) (map toks (map raw_value xs))"
    using JArr by (auto simp: list_all2_conv_all_nth list_all_iff)
  then show ?case using scans_block [of _ _ "CHR ''[''" TBrackL "CHR '']''" TBrackR d] lex_punctuation
    by (simp add: json_texts_map del: lex.simps)
next
  case (JObj kvs)
  let ?es = "go_entries kvs"
  have "list_all2 scans (map (\<lambda>(k, t). json_string k @ '': '' @ t) (map (map_prod id (json_text (Suc d))) ?es))
      (map (\<lambda>(k, ts). TStr k # TColon # ts) (map (map_prod id toks) (map (map_prod id raw_value) ?es)))"
    unfolding list_all2_map1 list_all2_map2
  proof (rule list.rel_refl_strong)
    fix p assume "p \<in> set ?es"
    then have p: "p \<in> set kvs" using go_entries_subset by blast
    then have "utf8 (fst p)" "readable (snd p)" using readable_obj [OF JObj.prems] by blast+
    moreover have "snd p \<in> Basic_BNFs.snds p" by (cases p) simp
    ultimately have "scans (json_string (fst p) @ '': '' @ json_text (Suc d) (snd p))
        (TStr (fst p) # TColon # toks (raw_value (snd p)))"
      using JObj.IH [OF p] scans_member by blast
    then show "scans (case map_prod id (json_text (Suc d)) p of (k, t) \<Rightarrow> json_string k @ '': '' @ t)
        (case map_prod id toks (map_prod id raw_value p) of (k, ts) \<Rightarrow> TStr k # TColon # ts)"
      by (cases p) simp
  qed
  then show ?case using scans_block [of _ _ "CHR ''{''" TBraceL "CHR ''}''" TBraceR d] lex_punctuation
    by (simp add: json_member_texts_map go_entries_map del: lex.simps map_map)
qed (use lex_word in \<open>simp_all add: scans_def append_fun del: lex.simps\<close>)

section \<open>Parsing a value\<close>

lemma bind_Some: "Option.bind (Some x) f = f x"
  by simp

lemma toks_first: "\<exists>t ts. toks v = t # ts \<and> t \<noteq> TBrackR \<and> t \<noteq> TBraceR"
  by (cases v) simp_all

text \<open>In the place of a first element the tokens of a value do the same as in any other place.\<close>

lemma parse_first: "parse_toks (toks v @ ts) (st, MFirstElem) = parse_toks (toks v @ ts) (st, MValue)"
proof -
  obtain t us where "toks v = t # us" "t \<noteq> TBrackR" using toks_first by blast
  then show ?thesis by simp
qed

definition parses :: "raw_json \<Rightarrow> bool" where
  "parses v \<longleftrightarrow> (\<forall>st ts. length st + nesting v \<le> max_depth \<longrightarrow>
     parse_toks (toks v @ ts) (st, MValue) = Option.bind (reduce v st) (parse_toks ts))"

lemma parsesD:
  "parses v \<Longrightarrow> length st + nesting v \<le> max_depth \<Longrightarrow>
     parse_toks (toks v @ ts) (st, MValue) = Option.bind (reduce v st) (parse_toks ts)"
  by (simp add: parses_def)

lemma parse_elements:
  assumes "\<forall>x \<in> set xs. parses x \<and> Suc (length st) + nesting x \<le> max_depth"
  shows "parse_toks (concat (map (\<lambda>x. TComma # toks x) xs) @ TBrackR # ts) (FArr ys # st, MAfter)
    = Option.bind (reduce (JArr (rev ys @ xs)) st) (parse_toks ts)"
  using assms
proof (induction xs arbitrary: ys)
  case (Cons x xs)
  then have "parses x" "length (FArr ys # st) + nesting x \<le> max_depth" by simp_all
  from parsesD [OF this] Cons show ?case by simp
qed simp

lemma parse_members:
  assumes "\<forall>(k, x) \<in> set kvs. parses x \<and> Suc (length st) + nesting x \<le> max_depth"
  shows "parse_toks (concat (map (\<lambda>(k, x). TComma # TStr k # TColon # toks x) kvs) @ TBraceR # ts)
      (FObj done None # st, MAfter)
    = Option.bind (reduce (JObj (rev done @ kvs)) st) (parse_toks ts)"
  using assms
proof (induction kvs arbitrary: "done")
  case (Cons p kvs)
  obtain k x where p: "p = (k, x)" by fastforce
  with Cons have "parses x" "length (FObj done (Some k) # st) + nesting x \<le> max_depth" by auto
  from parsesD [OF this] Cons p show ?case by simp
qed simp

lemma nesting_child:
  "x \<in> set xs \<Longrightarrow> Suc (nesting x) \<le> nesting (JArr xs)" "(k, x) \<in> set kvs \<Longrightarrow> Suc (nesting x) \<le> nesting (JObj kvs)"
  by (auto intro!: foldr_max_le simp: image_iff) force

lemma parses_value: "parses v"
proof (induction v)
  case (JArr xs)
  show ?case unfolding parses_def
  proof (intro allI impI)
    fix st :: "frame list" and ts
    assume d: "length st + nesting (JArr xs) \<le> max_depth"
    then have p: "push (FArr []) MFirstElem st = Some (FArr [] # st, MFirstElem)" by (simp add: push_def)
    have c: "\<forall>x \<in> set xs. parses x \<and> Suc (length st) + nesting x \<le> max_depth"
      using JArr d nesting_child(1) [of _ xs] by fastforce
    show "parse_toks (toks (JArr xs) @ ts) (st, MValue) = Option.bind (reduce (JArr xs) st) (parse_toks ts)"
    proof (cases xs)
      case Nil
      then show ?thesis by (simp add: p sep_toks_def)
    next
      case (Cons x xs')
      then have x: "parses x" "length (FArr [] # st) + nesting x \<le> max_depth" using c by simp_all
      have "parse_toks (toks (JArr xs) @ ts) (st, MValue) =
        parse_toks (toks x @ concat (map (\<lambda>x. TComma # toks x) xs') @ TBrackR # ts) (FArr [] # st, MFirstElem)"
        by (simp add: p Cons sep_toks_def comp_def)
      also have "\<dots> = parse_toks (concat (map (\<lambda>x. TComma # toks x) xs') @ TBrackR # ts) (FArr [x] # st, MAfter)"
        unfolding parse_first parsesD [OF x] by simp
      also have "\<dots> = Option.bind (reduce (JArr xs) st) (parse_toks ts)"
        using parse_elements [of xs' st ts "[x]"] c Cons by simp
      finally show ?thesis .
    qed
  qed
next
  case (JObj kvs)
  show ?case unfolding parses_def
  proof (intro allI impI)
    fix st :: "frame list" and ts
    assume d: "length st + nesting (JObj kvs) \<le> max_depth"
    then have p: "push (FObj [] None) MFirstKey st = Some (FObj [] None # st, MFirstKey)" by (simp add: push_def)
    have c: "parses x \<and> Suc (length st) + nesting x \<le> max_depth" if m: "(k, x) \<in> set kvs" for k x
    proof -
      have "parses x" using JObj.IH [OF m] by simp
      then show ?thesis using d nesting_child(2) [OF m] by linarith
    qed
    show "parse_toks (toks (JObj kvs) @ ts) (st, MValue) = Option.bind (reduce (JObj kvs) st) (parse_toks ts)"
    proof (cases kvs)
      case Nil
      then show ?thesis by (simp add: p sep_toks_def)
    next
      case (Cons m kvs')
      obtain k x where m: "m = (k, x)" by fastforce
      then have x: "parses x" "length (FObj [] (Some k) # st) + nesting x \<le> max_depth" using c [of k x] Cons by simp_all
      have "(#) TComma \<circ> ((\<lambda>(k, ts). TStr k # TColon # ts) \<circ> map_prod id toks)
          = (\<lambda>(k, x). TComma # TStr k # TColon # toks x)" by auto
      then have "parse_toks (toks (JObj kvs) @ ts) (st, MValue) =
        parse_toks (toks x @ concat (map (\<lambda>(k, x). TComma # TStr k # TColon # toks x) kvs') @ TBraceR # ts)
          (FObj [] (Some k) # st, MValue)"
        by (simp add: p Cons m sep_toks_def)
      also have "\<dots> = parse_toks (concat (map (\<lambda>(k, x). TComma # TStr k # TColon # toks x) kvs') @ TBraceR # ts)
          (FObj [(k, x)] None # st, MAfter)"
        unfolding parsesD [OF x] by simp
      also have "\<dots> = Option.bind (reduce (JObj kvs) st) (parse_toks ts)"
        using parse_members [of kvs' st ts "[(k, x)]"] c Cons m by auto
      finally show ?thesis .
    qed
  qed
qed (simp_all add: parses_def)

lemma parse_text:
  assumes "readable v" and "nesting (raw_value v) \<le> max_depth" and "after_number t" and "lex t = Some []"
  shows "json_parse (json_text d v @ t) = Some (raw_value v)"
  using scansD [OF scans_value [OF assms(1)] assms(3), of d] assms(4)
    parsesD [OF parses_value, of "[]" "raw_value v" "[]"] assms(2) by (simp add: json_parse_def)

section \<open>Decoding a value\<close>

lemma lower_digits: "\<forall>c \<in> set s. is_digit c \<Longrightarrow> lower_ascii s = s"
  by (induction s) (auto simp: lower_ascii_def ascii_lower_def is_digit_def)

lemma parse_float_itoa:
  assumes "\<bar>n\<bar> \<le> 10 ^ 15"
  shows "parse_float (itoa n) = Some (Fin (of_int n))"
proof -
  define m where "m = nat \<bar>n\<bar>"
  obtain c cs where c: "dec m = c # cs" "is_digit c" using dec_Cons by blast
  have d: "\<forall>c \<in> set (dec m). is_digit c" using dec_digits by blast
  have low: "lower_ascii (dec m) = dec m" using lower_digits [OF d] .
  have nd: "\<not> is_digit (CHR ''n'')" "\<not> is_digit (CHR ''i'')" "\<not> is_digit (CHR ''x'')" "\<not> is_digit (CHR ''_'')"
    "\<not> is_digit (CHR ''-'')" "\<not> is_digit (CHR ''+'')"
    by code_simp+
  have w: "dec m \<noteq> ''nan''" "dec m \<noteq> ''inf''" "dec m \<noteq> ''infinity''" "\<not> has_prefix (dec m) ''0x''"
    "CHR ''_'' \<notin> set (dec m)" "\<not> has_prefix (dec m) ''-''" "\<not> has_prefix (dec m) ''+''"
    using d nd c by (auto simp: has_prefix_iff append_eq_Cons_conv)
  have r: "round64 (of_int n) = Fin (of_int n)"
    using f64_of_int_exact [of n] assms by (simp add: f64_of_int_def)
  have i: "itoa n = (if n < 0 then CHR ''-'' # dec m else dec m)" by (simp add: itoa_def m_def)
  have v: "(if n < 0 then - of_nat m else of_nat m) = (of_int n :: rat)" by (simp add: m_def)
  show ?thesis
  proof (cases "n < 0")
    case True
    then have "(of_nat m :: rat) \<noteq> 0" by (simp add: m_def)
    with True show ?thesis using w low r v
      by (simp add: parse_float_def i float_literal_dec has_prefix_def)
  next
    case False
    moreover have "itoa 0 = dec 0" by (simp add: itoa_def)
    ultimately show ?thesis using w low r v
      by (cases "m = 0") (simp_all add: parse_float_def i float_literal_dec)
  qed
qed

lemma any_list_map: "\<forall>x \<in> set xs. any_of (f x) = Some (g x) \<Longrightarrow> any_list (map f xs) = Some (map g xs)"
  by (induction xs) simp_all

lemma any_members_map:
  "\<forall>p \<in> set kvs. any_of (f (snd p)) = Some (g (snd p)) \<Longrightarrow>
     any_members (map (map_prod id f) kvs) = Some (map (map_prod id g) kvs)"
  by (induction kvs) auto

lemma any_of_raw: "readable v \<Longrightarrow> any_of (raw_value v) = Some (canonical v)"
proof (induction v)
  case (JNum f)
  then show ?case by (auto simp: small_int_def json_float_int parse_float_itoa simp del: json_float.simps)
next
  case (JArr xs)
  then show ?case using any_list_map [of xs raw_value canonical] by (simp add: list_all_iff)
next
  case (JObj kvs)
  have "any_of (raw_value (snd p)) = Some (canonical (snd p))" if "p \<in> set (go_entries kvs)" for p
  proof -
    have p: "p \<in> set kvs" using that go_entries_subset by blast
    moreover have "snd p \<in> Basic_BNFs.snds p" by (cases p) simp
    moreover have "readable (snd p)" using readable_obj [OF JObj.prems p] by blast
    ultimately show ?thesis using JObj.IH by blast
  qed
  then show ?case using any_members_map [of "go_entries kvs" raw_value canonical]
    by (simp add: go_entries_map)
qed simp_all

lemma json_ok_lists: "json_ok_list xs = list_all json_ok xs" "json_ok_members kvs = list_all (json_ok \<circ> snd) kvs"
  by (induction xs) (simp_all, induction kvs, auto)

lemma json_ok_readable: "readable v \<Longrightarrow> json_ok v"
proof (induction v)
  case (JObj kvs)
  have "json_ok (snd p)" if "p \<in> set kvs" for p
  proof -
    have "snd p \<in> Basic_BNFs.snds p" by (cases p) simp
    then show ?thesis using JObj.IH [OF that] readable_obj [OF JObj.prems that] by blast
  qed
  then show ?case by (simp add: json_ok_lists list_all_iff)
qed (auto simp: json_ok_lists list_all_iff small_int_def)

text \<open>So the text of a value reads back as the value, with its keys sorted.\<close>

lemma marshal_reads_back:
  assumes "readable v" and "nesting (raw_value v) \<le> max_depth" and "after_number t" and "lex t = Some []"
    and "marshal_indent v = Some body"
  shows "Option.bind (json_parse (body @ t)) any_of = Some (canonical v)"
  using parse_text [OF assms(1-4), of 0] any_of_raw [OF assms(1)] assms(5)
  by (auto simp: marshal_indent_def split: if_splits)

lemma newest_distinct: "distinct (map fst kvs) \<Longrightarrow> newest kvs = kvs"
  by (induction kvs rule: newest.induct) (auto simp: image_iff)

lemma go_entries_lookup:
  assumes "distinct (map fst kvs)"
  shows "go_map (go_entries kvs) = map_of kvs"
proof -
  have s: "set (go_entries kvs) = set kvs" "distinct (map fst (rev (go_entries kvs)))"
    using assms by (simp_all add: go_entries_def newest_distinct rev_map [symmetric] distinct_map)
  then show ?thesis
    unfolding go_map_def using assms by (metis map_of_inject_set set_rev)
qed

text \<open>The text does not depend on the order in which a map was walked.\<close>

lemma go_entries_order:
  assumes "distinct (map fst kvs)" and "mset kvs = mset lvs"
  shows "go_entries kvs = go_entries lvs"
proof -
  have "distinct (map fst lvs)" using assms by (metis mset_map mset_eq_imp_distinct_iff)
  moreover have "sort_key fst kvs = sort_key fst lvs"
    by (rule sort_key_inj_key_eq) (use assms in \<open>auto simp: distinct_map inj_on_def\<close>)
  ultimately show ?thesis using assms(1) by (simp add: go_entries_def newest_distinct)
qed

end
