(* ===== verification/Debug.thy ===== *)
theory Debug
  imports Probe Preview Helpers Telemetry Config Json_Text
begin

text \<open>
  \<open>internal/debug/debug.go\<close>: one diagnostic dump. A section is the list of texts it writes, one per
  call of \<open>printf\<close> or \<open>println\<close>; what the printer answers is a record of its own. The order in which
  Go walks the merged report is the argument \<open>entries\<close>: its pairs, each key once.
\<close>

section \<open>The report\<close>

text \<open>A destination that takes only part of a write, or none of it, reports an error.\<close>

record report =
  rp_out :: string
  rp_tries :: nat
  rp_short :: "nat \<Rightarrow> nat option"
  rp_err :: bool

definition emit :: "string \<Rightarrow> report \<Rightarrow> report" where
  "emit text r =
     (if rp_err r then r
      else (case rp_short r (rp_tries r) of
              None \<Rightarrow> r\<lparr>rp_out := rp_out r @ text, rp_tries := Suc (rp_tries r)\<rparr>
            | Some n \<Rightarrow> r\<lparr>rp_out := rp_out r @ take n text, rp_tries := Suc (rp_tries r), rp_err := True\<rparr>))"

definition emits :: "string list \<Rightarrow> report \<Rightarrow> report" where
  "emits texts r = fold emit texts r"

definition line :: "string \<Rightarrow> string" where "line s = s @ [chr 10]"

text \<open>The verb \<open>%-ws\<close>.\<close>

definition pad_right :: "nat \<Rightarrow> string \<Rightarrow> string" where
  "pad_right w s = s @ replicate (w - length (runes s)) (CHR '' '')"

section \<open>The printer and its ports\<close>

definition messages_to_see :: nat where "messages_to_see = 2"
definition default_wait :: nanos where "default_wait = 20 * second"
definition debug_connect_wait :: nanos where "debug_connect_wait = 15 * second"
definition grab_timeout :: nanos where "grab_timeout = 25 * second"

definition result_row :: "string \<Rightarrow> string \<Rightarrow> string \<Rightarrow> string" where
  "result_row name status detail =
     line (''  '' @ pad_right 9 name @ '' '' @ pad_right 7 status @ '' '' @ detail)"

text \<open>\<open>printer\<close>.\<close>

definition printer_section ::
  "printer_net \<Rightarrow> 'd world \<Rightarrow> config \<Rightarrow> path option \<Rightarrow> 'd world \<times> string list" where
  "printer_section net w c frame =
     (let t = new_tools (c_ffmpeg c) (c_ffprobe c);
          cam = new_camera (c_host c) (c_code c) grab_timeout t;
          (w1, rs) = ask_printer net w (c_host c) (Some cam) frame;
          rows = map (\<lambda>r. result_row (r_name r) (if r_ok r then ''ok'' else ''FAILED'') (r_detail r)) rs
      in case frame of
           None \<Rightarrow> (w1, rows)
         | Some dest \<Rightarrow>
             (let (w2, width, height) = dimensions w1 t dest
              in (w2, rows @ [result_row ''size'' [] (itoa width @ ''x'' @ itoa height)])))"

definition probes :: "(string \<times> string \<times> string) list" where
  "probes =
     [(''990'', ''FTPS'', ''file store''),
      (''6000'', ''chamber-image'', ''P1/A1 protocol; vestigial on P2/H2 series'')]"

definition ports_section :: "printer_net \<Rightarrow> string list" where
  "ports_section net =
     map (\<lambda>(port, name, remark).
            line (''  '' @ pad_right 5 port @ '' '' @ pad_right 14 name @ '' ''
                  @ pad_right 7 (if pn_dial net port = None then ''open'' else ''CLOSED'') @ '' '' @ remark))
       probes"

section \<open>The file store\<close>

text \<open>\<open>files\<close>: two directories are listed; what the n-th data connection does is given.\<close>

definition debug_dirs :: "string list" where "debug_dirs = [''/'', ''/cache/'']"

definition dir_row :: "string \<Rightarrow> string \<Rightarrow> string" where
  "dir_row dir text = line (''  '' @ pad_right 9 dir @ '' '' @ text)"

fun list_dirs :: "(nat \<Rightarrow> data_conn) \<Rightarrow> nat \<Rightarrow> string list \<Rightarrow> conn \<Rightarrow> conn \<times> nat \<times> string list" where
  "list_dirs net n [] c = (c, 0, [])"
| "list_dirs net n (dir # dirs) c =
     (case list_dir dir (net n) c of
        (c1, Failed e) \<Rightarrow>
          (let (c2, k, texts) = list_dirs net (Suc n) dirs c1 in (c2, k, dir_row dir e # texts))
      | (c1, Got lines) \<Rightarrow>
          (let (c2, k, texts) = list_dirs net (Suc n) dirs c1
           in (c2, length lines + k, map (dir_row dir) lines @ texts)))"

definition files_section ::
  "(nat \<Rightarrow> data_conn) \<Rightarrow> string \<Rightarrow> conn option \<Rightarrow> config \<Rightarrow> conn option \<times> string list" where
  "files_section net why dialled c =
     (case dial_ftps (c_code c) why dialled of
        Inr e \<Rightarrow> (None, [line (''  unreachable: '' @ e)])
      | Inl (c1, Failed e) \<Rightarrow> (Some c1, [line (''  unreachable: '' @ e)])
      | Inl (c1, Got u) \<Rightarrow>
          (let (c2, n, texts) = list_dirs net 0 debug_dirs c1
           in (Some (close_ftps c2),
               texts @ (if n = 0 then [line ''  empty: no 3mf to take a plate preview from''] else []))))"

section \<open>The snapshot\<close>

text \<open>
  \<open>snapshot\<close>: reports arrive while the loop waits on a channel that holds one signal, so reports that
  come before the loop looks at it count once. The list says what happened, in order; None is a
  loop that still waits at the end of it. Reports that arrive while the client disconnects are
  merged too.
\<close>

datatype wake = Arrives bytes | Woken | Deadline | Cancelled

datatype snap = Seen tstate | Silent | Stopped

fun await_reports :: "wake list \<Rightarrow> tstate \<Rightarrow> bool \<Rightarrow> nat \<Rightarrow> snap option" where
  "await_reports [] st pending seen = None"
| "await_reports (Arrives p # ws) st pending seen =
     (let (st', ok) = merge st p in await_reports ws st' (pending \<or> ok) seen)"
| "await_reports (Woken # ws) st pending seen =
     (if \<not> pending then await_reports ws st pending seen
      else if messages_to_see \<le> Suc seen then Some (Seen st)
      else await_reports ws st False (Suc seen))"
| "await_reports (Deadline # ws) st pending seen = Some (if seen = 0 then Silent else Seen st)"
| "await_reports (Cancelled # ws) st pending seen = Some Stopped"

definition snapshot ::
  "string \<Rightarrow> handshake \<Rightarrow> wake list \<Rightarrow> bytes list \<Rightarrow> string \<Rightarrow> nanos \<Rightarrow> tstate outcome_of option" where
  "snapshot host hs ws late ended wait =
     (case hs of
        TimedOut \<Rightarrow>
          Some (Failed (''mqtt connect: no answer from '' @ host @ '' within ''
                        @ duration_string debug_connect_wait))
      | RefusedBy why \<Rightarrow> Some (Failed (''mqtt connect: '' @ why))
      | Accepted \<Rightarrow>
          (case await_reports ws new_state False 0 of
             None \<Rightarrow> None
           | Some (Seen st) \<Rightarrow> Some (Got (merge_all st late))
           | Some Silent \<Rightarrow> Some (Failed (''no report within '' @ duration_string wait))
           | Some Stopped \<Rightarrow> Some (Failed ended)))"

section \<open>The telemetry\<close>

text \<open>\<open>dumpRaw\<close>; None when the encoding fails.\<close>

definition dump_raw :: "(string \<times> any) list \<Rightarrow> string list option" where
  "dump_raw ents = map_option (\<lambda>body. [line body]) (marshal_indent (JObj ents))"

text \<open>\<open>summarise\<close>.\<close>

definition is_nested :: "any \<Rightarrow> bool" where
  "is_nested v = (case v of JObj kvs \<Rightarrow> True | JArr xs \<Rightarrow> True | _ \<Rightarrow> False)"

definition nested_keys :: "(string \<times> any) list \<Rightarrow> string list" where
  "nested_keys ents = sort (map fst (filter (\<lambda>(k, v). is_nested v) ents))"

definition show_member :: "(string \<rightharpoonup> any) \<Rightarrow> string \<Rightarrow> string" where
  "show_member ms k = (case ms k of None \<Rightarrow> ''<nil>'' | Some v \<Rightarrow> show_any v)"

definition job_lines :: "tstate \<Rightarrow> string list" where
  "job_lines st =
     [line (''  state          '' @ gcode_state st),
      line (''  job            '' @ job_name st),
      line (''  task id        '' @ task_id st @ ''   (resume key)''),
      line (''  layer          '' @ itoa (layer st) @ '' / '' @ itoa (total_layers st) @ ''  (''
            @ itoa (progress st) @ ''%)''),
      line (''  nozzle / bed   '' @ fmt_fixed 0 (nozzle st) @ degree @ ''C / '' @ fmt_fixed 0 (bed st)
            @ degree @ ''C''),
      line (''  filament       '' @ filament st)]"

definition camera_lines :: "(string \<times> any) list \<Rightarrow> string list" where
  "camera_lines ents =
     (case map_of ents ''ipcam'' of
        Some (JObj cam) \<Rightarrow>
          (let show = show_member (go_map cam) in
           [line (''  rtsp_url       '' @ show ''rtsp_url''),
            line (''  resolution     '' @ show ''resolution''),
            line (''  timelapse      '' @ show ''timelapse'' @ ''  (printer'' @ [CHR 0x27] @ ''s own recorder)''),
            line (''  internal store '' @ show ''tl_internal_free_kb'' @ '' KB free of ''
                  @ show ''tl_internal_total_kb''),
            line (''  external store '' @ show ''tl_external_total_kb'' @ '' KB total  (0 = no SD card)'')])
      | _ \<Rightarrow> [])"

definition summarise :: "tstate \<Rightarrow> (string \<times> any) list \<Rightarrow> string list" where
  "summarise st ents =
     (let nested = nested_keys ents in
      job_lines st @ [line (chr 10 # ''== camera & storage =='')] @ camera_lines ents
      @ [line (''  sdcard         '' @ show_member (map_of ents) ''sdcard''),
         line (chr 10 # ''== sections present ==''),
         line (''  nested ('' @ itoa (int (length nested)) @ ''): ['' @ join '' '' nested @ '']''),
         line (''  scalar ('' @ itoa (int (length ents - length nested))
               @ '' keys); use -raw for the full dump''),
         line (chr 10 # ''  note: no toolhead X/Y is reported, so capture cannot be gated on head position'')])"

section \<open>The dump\<close>

text \<open>Why a dump failed: there was no snapshot, it could not be encoded, or the destination failed.\<close>

datatype debug_error = No_Snapshot string | No_Encoding | No_Destination

text \<open>\<open>Run\<close>: the report, and the error it returns; None while it still waits for a snapshot. What the
  printer and the network do is one record.\<close>

record printer_side =
  ps_net :: printer_net
  ps_control :: "conn option"
  ps_why :: string
  ps_data :: "nat \<Rightarrow> data_conn"
  ps_handshake :: handshake
  ps_wakes :: "wake list"
  ps_late :: "bytes list"
  ps_ended :: string
  ps_entries :: "tstate \<Rightarrow> (string \<times> any) list"

record debug_options =
  do_raw :: bool
  do_wait :: nanos
  do_frame :: "path option"

definition head_texts ::
  "printer_side \<Rightarrow> 'd world \<Rightarrow> config \<Rightarrow> debug_options \<Rightarrow> nanos \<Rightarrow> 'd world \<times> string list" where
  "head_texts p w c opts wait =
     (let (w1, printer) = printer_section (ps_net p) w c (do_frame opts);
          (c1, files) = files_section (ps_data p) (ps_why p) (ps_control p) c
      in (w1, [''printer   '' @ c_host c @ [chr 10] @ ''serial    '' @ c_serial c @ [chr 10, chr 10],
               line ''== printer ==''] @ printer
              @ [line (chr 10 # ''== ports =='')] @ ports_section (ps_net p)
              @ [line (chr 10 # ''== file store =='')] @ files
              @ [line (chr 10 # ''== telemetry (waiting up to '' @ duration_string wait @ '') =='')]))"

definition run_debug ::
  "printer_side \<Rightarrow> 'd world \<Rightarrow> config \<Rightarrow> debug_options \<Rightarrow> report \<Rightarrow>
     'd world \<times> (report \<times> debug_error option) option" where
  "run_debug p w c opts out =
     (let wait = (if do_wait opts \<le> 0 then default_wait else do_wait opts);
          (w1, first) = head_texts p w c opts wait; r = emits first out;
          write_error = (\<lambda>r. if rp_err r then Some No_Destination else None)
      in (w1,
          case snapshot (c_host c) (ps_handshake p) (ps_wakes p) (ps_late p) (ps_ended p) wait of
            None \<Rightarrow> None
          | Some (Failed e) \<Rightarrow> Some (r, Some (No_Snapshot e))
          | Some (Got st) \<Rightarrow>
              (let ents = ps_entries p st in
               if do_raw opts
               then (case dump_raw ents of
                       None \<Rightarrow> Some (r, Some No_Encoding)
                     | Some texts \<Rightarrow> (let r' = emits texts r in Some (r', write_error r')))
               else (let r' = emits (summarise st ents) r in Some (r', write_error r')))))"

section \<open>Properties\<close>

text \<open>A destination that stops taking writes leaves a prefix of what was to be written.\<close>

lemma emit_out:
  "\<not> rp_err (emit t r) \<Longrightarrow> rp_out (emit t r) = rp_out r @ t \<and> \<not> rp_err r"
  by (auto simp: emit_def split: if_splits option.splits)

lemma emits_out: "\<not> rp_err (emits ts r) \<Longrightarrow> rp_out (emits ts r) = rp_out r @ concat ts \<and> \<not> rp_err r"
proof (induction ts arbitrary: r)
  case (Cons t ts)
  then show ?case using emit_out [of t r] Cons.IH [of "emit t r"] by (auto simp: emits_def)
qed (simp add: emits_def)

lemma emits_err: "rp_err r \<Longrightarrow> emits ts r = r"
  by (induction ts) (simp_all add: emits_def emit_def)

lemma emits_prefix: "prefix (rp_out (emits ts r)) (rp_out r @ concat ts)"
proof (induction ts arbitrary: r)
  case (Cons t ts)
  show ?case
  proof (cases "rp_err (emit t r)")
    case True
    then have "rp_out (emits (t # ts) r) = rp_out (emit t r)" using emits_err [of "emit t r" ts] by (simp add: emits_def)
    moreover have "prefix (rp_out (emit t r)) (rp_out r @ t)"
      by (auto simp: emit_def prefix_def split: option.split) (metis append_take_drop_id)
    ultimately show ?thesis using prefix_prefix [of "rp_out (emit t r)" "rp_out r @ t" "concat ts"] by simp
  next
    case False
    then show ?thesis using emit_out [OF False] Cons.IH [of "emit t r"] by (simp add: emits_def)
  qed
qed (simp add: emits_def)

lemma emits_append: "emits (a @ b) r = emits b (emits a r)"
  by (simp add: emits_def)

text \<open>What a dump writes when nothing goes wrong.\<close>

definition dump_texts :: "printer_side \<Rightarrow> debug_options \<Rightarrow> tstate \<Rightarrow> string list option" where
  "dump_texts p opts st =
     (if do_raw opts then dump_raw (ps_entries p st) else Some (summarise st (ps_entries p st)))"

lemma run_debug_success:
  assumes "run_debug p w c opts out = (w', Some (r, None))"
  obtains st texts wait where "dump_texts p opts st = Some texts" "\<not> rp_err r"
    "snapshot (c_host c) (ps_handshake p) (ps_wakes p) (ps_late p) (ps_ended p) wait = Some (Got st)"
    "rp_out r = rp_out out @ concat (snd (head_texts p w c opts wait)) @ concat texts"
proof -
  let ?wait = "if do_wait opts \<le> 0 then default_wait else do_wait opts"
  obtain w1 first where h: "head_texts p w c opts ?wait = (w1, first)" by fastforce
  obtain st where st: "snapshot (c_host c) (ps_handshake p) (ps_wakes p) (ps_late p) (ps_ended p) ?wait = Some (Got st)"
    using assms h by (auto simp: run_debug_def Let_def split: option.splits outcome_of.splits)
  obtain texts where t: "dump_texts p opts st = Some texts" "r = emits texts (emits first out)" "\<not> rp_err r"
    using assms h st by (auto simp: run_debug_def Let_def dump_texts_def split: option.splits if_splits)
  have "r = emits (first @ texts) out" using t(2) by (simp add: emits_append)
  then have "rp_out r = rp_out out @ concat (first @ texts)" using t(3) emits_out by blast
  then show thesis using that [OF t(1,3) st] h by simp
qed

text \<open>A dump that reports success has written everything, in order and once; and whatever the
  destination does, nothing but a prefix of that is ever written.\<close>

theorem dump_complete_or_error:
  assumes "run_debug p w c opts out = (w', Some (r, e))"
    and "run_debug p w c opts (out\<lparr>rp_short := (\<lambda>n. None), rp_err := False\<rparr>) = (w'', Some (full, e'))"
  shows "prefix (rp_out r) (rp_out full) \<and> (e = None \<longrightarrow> rp_out r = rp_out full \<and> e' = None)"
proof -
  let ?wait = "if do_wait opts \<le> 0 then default_wait else do_wait opts"
  let ?o = "out\<lparr>rp_short := (\<lambda>n. None), rp_err := False\<rparr>"
  have all: "rp_short (emits ts x) = rp_short x \<and> (rp_short x = (\<lambda>n. None) \<longrightarrow> rp_err (emits ts x) = rp_err x)"
    for ts and x :: report
    by (induction ts arbitrary: x) (simp_all add: emits_def emit_def split: option.split)
  have full: "rp_out (emits ts ?o) = rp_out out @ concat ts" for ts
    using emits_out [of ts ?o] all [of ts ?o] by simp
  obtain w1 first where h: "head_texts p w c opts ?wait = (w1, first)" by fastforce
  let ?s = "snapshot (c_host c) (ps_handshake p) (ps_wakes p) (ps_late p) (ps_ended p) ?wait"
  have "\<exists>ts. r = emits ts out \<and> full = emits ts ?o \<and> (e = None \<longrightarrow> \<not> rp_err r \<and> e' = None)"
  proof (cases "?s")
    case None
    then show ?thesis using assms(1) h by (simp add: run_debug_def Let_def)
  next
    case (Some x)
    show ?thesis
    proof (cases x)
      case (Failed why)
      then show ?thesis using Some assms h by (auto simp: run_debug_def Let_def)
    next
      case (Got st)
      show ?thesis
      proof (cases "dump_texts p opts st")
        case None
        then have "r = emits first out" "full = emits first ?o" "e \<noteq> None"
          using Some Got assms h by (auto simp: run_debug_def Let_def dump_texts_def split: if_splits)
        then show ?thesis by blast
      next
        case (Some texts)
        have "\<not> rp_err (emits (first @ texts) ?o)" using all by simp
        then have "r = emits (first @ texts) out" "full = emits (first @ texts) ?o"
          "e = None \<longrightarrow> \<not> rp_err r" "e' = None"
          using Some Got \<open>?s = Some x\<close> assms h
          by (auto simp: run_debug_def Let_def dump_texts_def emits_append split: if_splits)
        then show ?thesis by blast
      qed
    qed
  qed
  then obtain ts where ts: "r = emits ts out" "full = emits ts ?o" "e = None \<longrightarrow> \<not> rp_err r \<and> e' = None" by blast
  show ?thesis using emits_prefix [of ts out] emits_out [of ts out] ts full [of ts] by auto
qed

text \<open>The time to wait shows in the text of an error only.\<close>

lemma snapshot_wait:
  "snapshot host hs ws late ended wait = Some (Got st) \<longleftrightarrow> snapshot host hs ws late ended wait' = Some (Got st)"
  by (simp add: snapshot_def split: handshake.split option.split snap.split)


text \<open>The dump does not depend on the order in which Go walks the merged report.\<close>

theorem dump_order_independent:
  assumes "distinct (map fst es)" and "mset es = mset fs"
  shows "dump_raw es = dump_raw fs \<and> summarise st es = summarise st fs"
proof
  note m = map_of_order [OF assms]
  have "mset (map f es) = mset (map f fs)" for f :: "string \<times> any \<Rightarrow> string \<times> string" using assms(2) by simp
  moreover have "distinct (map fst (json_member_texts 1 es))" using assms(1) by (simp add: json_member_texts_map comp_def)
  ultimately have "go_entries (json_member_texts 1 es) = go_entries (json_member_texts 1 fs)"
    by (intro go_entries_order) (simp_all add: json_member_texts_map)
  moreover have "json_ok (JObj es) = json_ok (JObj fs)"
    by (simp add: json_ok_lists list_all_iff mset_eq_setD [OF assms(2)])
  ultimately show "dump_raw es = dump_raw fs" by (simp add: dump_raw_def marshal_indent_def)
  have "mset (map fst (filter (\<lambda>(k, v). is_nested v) es)) = mset (map fst (filter (\<lambda>(k, v). is_nested v) fs))"
    using assms(2) by simp
  then have "nested_keys es = nested_keys fs" by (simp add: nested_keys_def sort_cong_mset)
  moreover have "length es = length fs" using assms(2) by (metis size_mset)
  ultimately show "summarise st es = summarise st fs" by (simp add: summarise_def camera_lines_def m)
qed

text \<open>A snapshot is the merge of the reports that had arrived, and holds at least one of them; the loop
  that waits for it never ends with an empty view.\<close>

definition arrivals :: "wake list \<Rightarrow> bytes list" where
  "arrivals ws = concat (map (\<lambda>w. case w of Arrives p \<Rightarrow> [p] | _ \<Rightarrow> []) ws)"

lemma await_reports_seen:
  assumes "await_reports ws st pending seen = Some (Seen t)"
  shows "\<exists>ps. t = merge_all st ps \<and> prefix ps (arrivals ws)
    \<and> (pending \<or> 0 < seen \<or> (\<exists>p \<in> set ps. report_section p \<noteq> None))"
  using assms
proof (induction ws st pending seen rule: await_reports.induct)
  case (2 p ws st pending seen)
  obtain st' ok where m: "merge st p = (st', ok)" by fastforce
  then have "await_reports ws st' (pending \<or> ok) seen = Some (Seen t)" using "2.prems" by simp
  then obtain ps where ps: "t = merge_all st' ps" "prefix ps (arrivals ws)"
      "pending \<or> ok \<or> 0 < seen \<or> (\<exists>p \<in> set ps. report_section p \<noteq> None)"
    using "2.IH" [OF m [symmetric] refl] by blast
  moreover have "ok \<longleftrightarrow> report_section p \<noteq> None" using m by (auto simp: merge_def split: option.splits)
  ultimately show ?case using m by (intro exI [of _ "p # ps"]) (auto simp: arrivals_def)
next
  case (3 ws st pending seen)
  show ?case
  proof (cases "pending")
    case True
    show ?thesis
    proof (cases "messages_to_see \<le> Suc seen")
      case True
      then show ?thesis using "3.prems" \<open>pending\<close> by (intro exI [of _ "[]"]) simp
    next
      case False
      then show ?thesis using "3.prems" "3.IH"(2) \<open>pending\<close> by (auto simp: arrivals_def)
    qed
  next
    case False
    then show ?thesis using "3.prems" "3.IH"(1) by (auto simp: arrivals_def)
  qed
next
  case (4 ws st pending seen)
  then show ?case by (intro exI [of _ "[]"]) (simp split: if_splits)
qed simp_all

theorem snapshot_holds_reports:
  assumes "snapshot host hs ws late ended wait = Some (Got st)"
  shows "hs = Accepted \<and> (\<exists>ps. st = merge_all new_state (ps @ late) \<and> prefix ps (arrivals ws)
    \<and> (\<exists>p \<in> set ps. report_section p \<noteq> None))"
proof -
  obtain t where t: "hs = Accepted" "await_reports ws new_state False 0 = Some (Seen t)" "st = merge_all t late"
    using assms by (auto simp: snapshot_def split: handshake.splits option.splits snap.splits)
  have "merge_all s (a @ b) = merge_all (merge_all s a) b" for s a b by (induction a arbitrary: s) simp_all
  with t await_reports_seen [OF t(2)] show ?thesis by auto
qed

text \<open>The note about the file store is about two directories of the four. With nothing in the root and
  the cache the dump says there is no 3mf to take a preview from, although the fetch of the preview,
  which looks in two more, finds one there.\<close>

theorem empty_store_misreported:
  assumes "dial_ftps (c_code c) why dialled = Inl (c0, Got u)"
    and "list_dir ''/'' (net 0) c0 = (c1, Got [])" and "list_dir ''/cache/'' (net 1) c1 = (c2, Got [])"
    and "list_dir ''/sdcard/'' (net 2) c2 = (c3, Got [l])" and "list_dir ''/model/'' (net 3) c3 = (c4, Got [])"
    and "equal_fold_ascii (path_ext (listed_file l)) ''.3mf''"
  shows "snd (files_section net why dialled c) = [line ''  empty: no 3mf to take a plate preview from'']
    \<and> (case search net 0 search_dirs c0 of (c5, r) \<Rightarrow>
        r = Got [join_rooted ''/sdcard/'' (listed_file l)])"
  using assms by (simp add: files_section_def debug_dirs_def search_dirs_def archives_in_def numeral_2_eq_2 numeral_3_eq_3)

end
