(* ===== verification/Command_Line.thy ===== *)
theory Command_Line
  imports Startup Debug "HOL-Library.AList"
begin

text \<open>
  \<open>cmd/bambu-timelapse/main.go\<close>: from the arguments of the process to the running service, the clock
  of a timed capture, the dump, or an exit code. What \<open>main.go\<close> uses of the package \<open>flag\<close> is here
  too: a flag is \<open>-name\<close> or \<open>--name\<close>, a value follows after \<open>=\<close> or as the next argument, and the
  first argument that is not a flag, or \<open>--\<close>, ends them.
\<close>

section \<open>Flags\<close>

datatype flag_value = Bool_Flag bool | String_Flag string | Int_Flag int | Duration_Flag nanos

type_synonym flags = "(string \<times> flag_value) list"

text \<open>\<open>Value.Set\<close>: the kind of a flag decides how its text is read.\<close>

fun set_value :: "flag_value \<Rightarrow> string \<Rightarrow> flag_value option" where
  "set_value (Bool_Flag b) v = map_option Bool_Flag (parse_bool v)"
| "set_value (String_Flag s) v = Some (String_Flag v)"
| "set_value (Int_Flag n) v = map_option Int_Flag (parse_int0 v)"
| "set_value (Duration_Flag d) v = map_option Duration_Flag (parse_duration v)"

fun is_bool_flag :: "flag_value \<Rightarrow> bool" where
  "is_bool_flag (Bool_Flag b) = True"
| "is_bool_flag _ = False"

datatype flag_step = Flags_End "string list" | Bad_Flag | Flag_Set flags "string list"

definition set_flag :: "string \<Rightarrow> flag_value \<Rightarrow> string \<Rightarrow> flags \<Rightarrow> string list \<Rightarrow> flag_step" where
  "set_flag name old v fs args =
     (case set_value old v of None \<Rightarrow> Bad_Flag | Some new \<Rightarrow> Flag_Set (AList.update name new fs) args)"

definition split_flag :: "string \<Rightarrow> string \<times> string option" where
  "split_flag body =
     (case dropWhile (\<lambda>c. c \<noteq> CHR ''='') body of
        [] \<Rightarrow> (body, None)
      | e # v \<Rightarrow> (takeWhile (\<lambda>c. c \<noteq> CHR ''='') body, Some v))"

text \<open>\<open>parseOne\<close>. A flag nobody defined is an error, and so is a request for help.\<close>

fun parse_one :: "string list \<Rightarrow> flags \<Rightarrow> flag_step" where
  "parse_one [] fs = Flags_End []"
| "parse_one (s # args) fs =
     (if length s < 2 \<or> s ! 0 \<noteq> CHR ''-'' then Flags_End (s # args)
      else if s = ''--'' then Flags_End args
      else (let body = (if s ! 1 = CHR ''-'' then drop 2 s else drop 1 s) in
        if body = [] \<or> hd body = CHR ''-'' \<or> hd body = CHR ''='' then Bad_Flag
        else (let (name, value) = split_flag body in
          case map_of fs name of
            None \<Rightarrow> Bad_Flag
          | Some old \<Rightarrow>
              if is_bool_flag old
              then set_flag name old (case value of None \<Rightarrow> ''true'' | Some v \<Rightarrow> v) fs args
              else (case value of
                      Some v \<Rightarrow> set_flag name old v fs args
                    | None \<Rightarrow> (case args of
                                 [] \<Rightarrow> Bad_Flag
                               | v # rest \<Rightarrow> set_flag name old v fs rest)))))"

lemma set_flag_args: "set_flag name old v fs args = Flag_Set fs' rest \<Longrightarrow> rest = args"
  by (auto simp: set_flag_def split: option.splits)

lemma parse_one_shorter: "parse_one args fs = Flag_Set fs' rest \<Longrightarrow> length rest < length args"
  by (cases args) (auto simp: Let_def less_Suc_eq_le dest: set_flag_args split: if_splits prod.splits option.splits list.splits)

text \<open>\<open>FlagSet.Parse\<close>: None for an error.\<close>

function parse_flags :: "string list \<Rightarrow> flags \<Rightarrow> (flags \<times> string list) option" where
  "parse_flags args fs =
     (case parse_one args fs of
        Flags_End rest \<Rightarrow> Some (fs, rest)
      | Bad_Flag \<Rightarrow> None
      | Flag_Set fs' rest \<Rightarrow> parse_flags rest fs')"
  by pat_completeness auto
termination
  by (relation "measure (\<lambda>(args, fs). length args)") (auto dest: parse_one_shorter)

declare parse_flags.simps [simp del]

fun the_string :: "flag_value option \<Rightarrow> string" where
  "the_string (Some (String_Flag s)) = s"
| "the_string _ = []"

fun the_bool :: "flag_value option \<Rightarrow> bool" where
  "the_bool (Some (Bool_Flag b)) = b"
| "the_bool _ = False"

fun the_int :: "flag_value option \<Rightarrow> int" where
  "the_int (Some (Int_Flag n)) = n"
| "the_int (Some (Duration_Flag d)) = d"
| "the_int _ = 0"

section \<open>The subcommands\<close>

definition exit_error :: nat where "exit_error = 1"
definition exit_usage :: nat where "exit_usage = 2"
definition default_debug_wait :: nanos where "default_debug_wait = 20 * second"

definition record_flags :: flags where
  "record_flags =
     [(''out'', String_Flag ''.''), (''staging'', String_Flag ''./staging''), (''once'', Bool_Flag False),
      (''interval'', Duration_Flag 0), (''frames'', Int_Flag 0)]"

definition debug_flags :: flags where
  "debug_flags =
     [(''raw'', Bool_Flag False), (''frame'', String_Flag []), (''wait'', Duration_Flag default_debug_wait)]"

definition record_config :: "flags \<Rightarrow> config \<Rightarrow> config" where
  "record_config fs c =
     c\<lparr>c_output := the_string (map_of fs ''out''), c_staging := the_string (map_of fs ''staging''),
       c_once := the_bool (map_of fs ''once'')\<rparr>"

text \<open>What the process runs in, and what its calls answer.\<close>

record host =
  h_env :: env
  h_build :: "string \<times> string \<times> string"
  h_path :: "string \<Rightarrow> path"
  h_printable :: "rune \<Rightarrow> bool"
  h_font :: bytes
  h_look_path :: "string \<Rightarrow> string"
  h_net :: printer_net
  h_why :: string
  h_debug :: printer_side
  h_stdout :: report

text \<open>
  What an invocation comes to: an exit with its code, a service that watches the printer or captures
  on the clock, or a dump, which waits for the printer (None) or is written and exits.
\<close>

datatype launch =
    Exits "session world" nat
  | Prints string
  | Watches svc
  | Clocks svc nat int
  | Dumps "session world" "(report \<times> nat) option"

definition watch :: "host \<Rightarrow> svc \<Rightarrow> launch" where
  "watch h s =
     (let (s1, ok) = start_run (h_look_path h) (h_net h) (h_why h) s
      in if ok then Watches s1 else Exits (v_world s1) exit_error)"

definition clock_capture :: "host \<Rightarrow> int \<Rightarrow> svc \<Rightarrow> launch" where
  "clock_capture h most s =
     (let (s1, cs, ok) = preflight (h_look_path h) (h_net h) (h_why h) s in
      if \<not> ok then Exits (v_world s1) exit_error
      else (case open_timed s1 of
              (s2, None) \<Rightarrow> Exits (v_world s2) exit_error
            | (s2, Some i) \<Rightarrow> Clocks s2 i most))"

definition launch_service :: "host \<Rightarrow> config \<Rightarrow> session world \<Rightarrow> (svc \<Rightarrow> launch) \<Rightarrow> launch" where
  "launch_service h c w go =
     (case new_service (h_path h) (h_printable h) (h_font h) c w of
        (w1, None) \<Rightarrow> Exits w1 exit_error
      | (w1, Some s) \<Rightarrow> go s)"

text \<open>\<open>runRecord\<close>.\<close>

definition run_record :: "host \<Rightarrow> string list \<Rightarrow> session world \<Rightarrow> launch" where
  "run_record h args w =
     (case parse_flags args record_flags of
        None \<Rightarrow> Exits w exit_usage
      | Some (fs, rest) \<Rightarrow>
          (let (c, errs) = load_config False (h_env h) in
           if errs \<noteq> [] then Exits w exit_error
           else launch_service h (record_config fs c) w
                  (if 0 < the_int (map_of fs ''interval'')
                   then clock_capture h (the_int (map_of fs ''frames'')) else watch h)))"

text \<open>\<open>runDebug\<close> of \<open>main.go\<close>.\<close>

definition debug_command :: "host \<Rightarrow> string list \<Rightarrow> session world \<Rightarrow> launch" where
  "debug_command h args w =
     (case parse_flags args debug_flags of
        None \<Rightarrow> Exits w exit_usage
      | Some (fs, rest) \<Rightarrow>
          (let (c, errs) = load_config False (h_env h) in
           if errs \<noteq> [] then Exits w exit_error
           else (let frame = the_string (map_of fs ''frame'');
                     opts = \<lparr>do_raw = the_bool (map_of fs ''raw''),
                             do_wait = the_int (map_of fs ''wait''),
                             do_frame = (if frame = [] then None else Some (h_path h frame))\<rparr>;
                     (w1, r) = run_debug (h_debug h) w c opts (h_stdout h)
                 in Dumps w1 (map_option (\<lambda>(out, e). (out, if e = None then 0 else exit_error)) r))))"

definition version_line :: "string \<times> string \<times> string \<Rightarrow> string" where
  "version_line b =
     (let (v, c, d) = b in line (''bambu-timelapse '' @ v @ '' ('' @ c @ '', built '' @ d @ '')''))"

text \<open>\<open>run\<close>: the arguments without the name of the program.\<close>

definition run_main :: "host \<Rightarrow> string list \<Rightarrow> session world \<Rightarrow> launch" where
  "run_main h args w =
     (let cmd = (case args of [] \<Rightarrow> [] | a # rest \<Rightarrow> a) in
      if cmd = ''debug'' then debug_command h (tl args) w
      else if cmd = ''record'' then run_record h (tl args) w
      else if cmd = ''version'' then Prints (version_line (h_build h))
      else (let (c, errs) = load_config True (h_env h) in
            if errs \<noteq> [] then Exits w exit_error else launch_service h c w (watch h)))"

section \<open>Properties\<close>

text \<open>An argument that assigns a flag.\<close>

definition flag_arg :: "string \<times> string \<Rightarrow> string" where
  "flag_arg p = CHR ''-'' # fst p @ CHR ''='' # snd p"

text \<open>The flags after a list of assignments, in their order.\<close>

fun assign_all :: "(string \<times> string) list \<Rightarrow> flags \<Rightarrow> flags option" where
  "assign_all [] fs = Some fs"
| "assign_all ((k, v) # kvs) fs =
     (case Option.bind (map_of fs k) (\<lambda>old. set_value old v) of
        None \<Rightarrow> None
      | Some new \<Rightarrow> assign_all kvs (AList.update k new fs))"

definition flag_name :: "string \<Rightarrow> bool" where
  "flag_name k \<longleftrightarrow> k \<noteq> [] \<and> hd k \<noteq> CHR ''-'' \<and> CHR ''='' \<notin> set k"

lemma split_assignment: "CHR ''='' \<notin> set k \<Longrightarrow> split_flag (k @ CHR ''='' # v) = (k, Some v)"
  by (induction k) (auto simp: split_flag_def split: list.splits)

lemma parse_assignment:
  assumes "flag_name k"
  shows "parse_one (flag_arg (k, v) # args) fs =
    (case map_of fs k of None \<Rightarrow> Bad_Flag | Some old \<Rightarrow> set_flag k old v fs args)"
proof -
  obtain c cs where k: "k = c # cs" "c \<noteq> CHR ''-''" "c \<noteq> CHR ''=''" "CHR ''='' \<notin> set k"
    using assms by (cases k) (auto simp: flag_name_def)
  then have "split_flag (c # cs @ CHR ''='' # v) = (k, Some v)" using split_assignment [of k v] by simp
  with k show ?thesis by (simp add: flag_arg_def Let_def split: option.split)
qed

text \<open>The flags are assigned from left to right, so the last assignment of a flag counts; each value is
  read as its flag's kind says, and one that cannot be read, or a flag that is not known, fails the
  whole line whatever stands before and after it.\<close>

theorem flags_assigned_in_order:
  assumes "\<forall>(k, v) \<in> set kvs. flag_name k"
  shows "parse_flags (map flag_arg kvs @ rest) fs = Option.bind (assign_all kvs fs) (parse_flags rest)"
  using assms
proof (induction kvs arbitrary: fs)
  case (Cons p kvs)
  obtain k v where p: "p = (k, v)" by fastforce
  have "flag_name k" using Cons.prems p by simp
  from parse_assignment [OF this] Cons p show ?case
    by (subst parse_flags.simps) (simp add: set_flag_def split: option.split)
qed simp

text \<open>The first argument that is no flag ends them: whatever flags follow are not read, and nothing
  complains about them.\<close>

lemma stray_argument:
  "hd s \<noteq> CHR ''-'' \<Longrightarrow> parse_flags (s # args) fs = Some (fs, s # args)"
  by (cases s) (subst parse_flags.simps, simp)+

lemma watch_exit: "watch h s = Exits w n \<Longrightarrow> n = exit_error"
  by (auto simp: watch_def Let_def split: prod.splits if_splits)

lemma clock_exit: "clock_capture h most s = Exits w n \<Longrightarrow> n = exit_error"
  by (auto simp: clock_capture_def Let_def split: prod.splits if_splits option.splits)

lemma launch_exit:
  "launch_service h c w go = Exits w' n \<Longrightarrow> (\<And>s w n. go s = Exits w n \<Longrightarrow> n = exit_error) \<Longrightarrow> n = exit_error"
  by (auto simp: launch_service_def split: prod.splits option.splits)

definition bad_line :: "string list \<Rightarrow> bool" where
  "bad_line args \<longleftrightarrow>
     (case args of
        [] \<Rightarrow> False
      | cmd # rest \<Rightarrow>
          cmd = ''record'' \<and> parse_flags rest record_flags = None
          \<or> cmd = ''debug'' \<and> parse_flags rest debug_flags = None)"

definition bad_config :: "host \<Rightarrow> string list \<Rightarrow> bool" where
  "bad_config h args \<longleftrightarrow>
     (case args of
        [] \<Rightarrow> snd (load_config True (h_env h)) \<noteq> []
      | cmd # rest \<Rightarrow>
          cmd \<noteq> ''version'' \<and> snd (load_config (cmd \<notin> {''record'', ''debug''}) (h_env h)) \<noteq> [])"

lemma main_exit:
  assumes "run_main h args w = Exits w' n"
  shows "n = (if bad_line args then exit_usage else exit_error)"
proof -
  note launched = launch_exit [OF _ watch_exit] launch_exit [OF _ clock_exit]
  consider (dump) rest where "args = ''debug'' # rest" | (rec) rest where "args = ''record'' # rest"
    | (version) rest where "args = ''version'' # rest"
    | (daemon) "(case args of [] \<Rightarrow> [] | a # rest \<Rightarrow> a) \<notin> {''debug'', ''record'', ''version''}"
    by (cases args) auto
  then show ?thesis
  proof cases
    case dump
    with assms show ?thesis
      by (auto simp: run_main_def debug_command_def bad_line_def Let_def split: option.splits prod.splits if_splits)
  next
    case rec
    with assms show ?thesis
      by (auto simp: run_main_def run_record_def bad_line_def split: option.splits prod.splits if_splits
          intro: launched)
  next
    case version
    with assms show ?thesis by (simp add: run_main_def)
  next
    case daemon
    then have "\<not> bad_line args" by (auto simp: bad_line_def split: list.splits)
    with daemon assms show ?thesis by (auto simp: run_main_def Let_def split: if_splits prod.splits intro: launched)
  qed
qed

lemma refused_config:
  assumes "load_config False (h_env h) = (c, errs)" and "errs \<noteq> []"
  shows "parse_flags rest record_flags = Some p \<Longrightarrow> run_record h rest w = Exits w exit_error"
    and "parse_flags rest debug_flags = Some p \<Longrightarrow> debug_command h rest w = Exits w exit_error"
  using assms by (cases p; simp add: run_record_def debug_command_def)+

text \<open>C31: the exit codes tell a bad line from a failure: a line whose flags do not parse exits with 2, before
  the configuration is even read; one that is fine but for its configuration exits with 1; neither
  has touched anything; and whatever else exits before it has started something exits with 1.\<close>

theorem exit_codes_tell:
  "(bad_line args \<longrightarrow> run_main h args w = Exits w exit_usage)
   \<and> (\<not> bad_line args \<and> bad_config h args \<longrightarrow> run_main h args w = Exits w exit_error)
   \<and> (run_main h args w = Exits w' n \<longrightarrow> n = (if bad_line args then 2 else 1))"
proof (intro conjI impI)
  assume "bad_line args"
  then show "run_main h args w = Exits w exit_usage"
    by (auto simp: bad_line_def run_main_def run_record_def debug_command_def split: list.splits)
next
  assume a: "\<not> bad_line args \<and> bad_config h args"
  show "run_main h args w = Exits w exit_error"
  proof (cases "\<exists>cmd rest. args = cmd # rest \<and> cmd \<in> {''record'', ''debug''}")
    case True
    then obtain cmd rest where r: "args = cmd # rest" "cmd \<in> {''record'', ''debug''}" by blast
    obtain c errs where c: "load_config False (h_env h) = (c, errs)" by fastforce
    have "errs \<noteq> []" using a r c by (auto simp: bad_config_def)
    note refused = refused_config [OF c this]
    from r(2) consider "cmd = ''record''" | "cmd = ''debug''" by blast
    then show ?thesis
    proof cases
      case 1
      with a r obtain p where "parse_flags rest record_flags = Some p" by (auto simp: bad_line_def)
      from refused(1) [OF this] 1 r show ?thesis by (simp add: run_main_def)
    next
      case 2
      with a r obtain p where "parse_flags rest debug_flags = Some p" by (auto simp: bad_line_def)
      from refused(2) [OF this] 2 r show ?thesis by (simp add: run_main_def)
    qed
  next
    case False
    obtain c errs where c: "load_config True (h_env h) = (c, errs)" by fastforce
    have "errs \<noteq> [] \<and> (case args of [] \<Rightarrow> [] | a # rest \<Rightarrow> a) \<notin> {''debug'', ''record'', ''version''}"
      using a False c by (cases args) (auto simp: bad_config_def)
    with c show ?thesis by (simp add: run_main_def)
  qed
next
  assume "run_main h args w = Exits w' n"
  from main_exit [OF this] show "n = (if bad_line args then 2 else 1)"
    by (simp add: exit_usage_def exit_error_def)
qed

end
