(* ===== verification/Lifecycle.thy ===== *)
theory Lifecycle
  imports Startup
begin

text \<open>
  The life of a session, as an abstract machine that knows no disk, no clock and no network: a
  session is opened or found, it is handed over once, and it is done once. The daemon refines it
  step by step, and every finalisation uses up a measure.
\<close>

section \<open>The abstract machine\<close>

datatype life = Absent | Open | Ending | Done | Dropped

text \<open>What one report may do to one session. \<open>Dropped\<close> is a session of the live job that was found
  on disk before another one of the same job.\<close>

inductive report_move :: "life \<Rightarrow> life \<Rightarrow> bool" where
  keep: "report_move x x"
| opened: "report_move Absent Open"
| recovered: "report_move Absent Ending"
| shadowed: "report_move Absent Dropped"
| handed_over: "report_move Open Ending"

inductive_simps report_move_simps: "report_move x y"

definition finishing :: "event \<Rightarrow> bool" where
  "finishing e \<longleftrightarrow> (case e of Render k \<Rightarrow> True | Attempt k b r \<Rightarrow> True | WaitOver k \<Rightarrow> True | _ \<Rightarrow> False)"

definition reporting :: "event \<Rightarrow> bool" where
  "reporting e \<longleftrightarrow> (case e of Message p \<Rightarrow> True | _ \<Rightarrow> False)"

inductive life_step :: "(nat \<Rightarrow> life) \<Rightarrow> event \<Rightarrow> (nat \<Rightarrow> life) \<Rightarrow> bool" where
  report: "reporting e \<Longrightarrow> \<forall>i. report_move (a i) (b i) \<Longrightarrow> life_step a e b"
| finish: "finishing e \<Longrightarrow> a i = Ending \<Longrightarrow> life_step a e (a(i := Done))"
| stutter: "\<not> reporting e \<Longrightarrow> life_step a e a"

section \<open>The abstraction\<close>

definition ended :: "svc \<Rightarrow> nat \<Rightarrow> bool" where
  "ended s i \<longleftrightarrow> (\<exists>f \<in> set (v_finals s). f_ref f = i)"

definition finished :: "svc \<Rightarrow> nat \<Rightarrow> bool" where
  "finished s i \<longleftrightarrow> (\<exists>f \<in> set (v_finals s). f_ref f = i \<and> f_phase f = Finished)"

definition life_of :: "svc \<Rightarrow> nat \<Rightarrow> life" where
  "life_of s i =
     (if v_current s = Some i then Open
      else if finished s i then Done
      else if ended s i then Ending
      else if i < length (v_heap s) then Dropped else Absent)"

text \<open>Nothing is open before the sessions on disk have been settled.\<close>

definition settled_first :: "svc \<Rightarrow> bool" where
  "settled_first s \<longleftrightarrow> v_reconciled s \<or> v_current s = None"

section \<open>What a report does to the sessions\<close>

definition fresh_final :: "svc \<Rightarrow> string \<Rightarrow> bool \<Rightarrow> nat \<Rightarrow> final_task" where
  "fresh_final s e b i =
     \<lparr>f_ref = i, f_end = e, f_skip = b, f_phase = Draining (now s + capture_drain_limit)\<rparr>"

fun draining :: "phase \<Rightarrow> bool" where
  "draining (Draining l) = True"
| "draining p = False"

lemma draining_unfinished [simp]: "draining p \<Longrightarrow> p \<noteq> Finished"
  by auto

definition reported :: "svc \<Rightarrow> svc \<Rightarrow> bool" where
  "reported s t \<longleftrightarrow>
     (\<exists>fs. v_finals t = v_finals s @ fs
        \<and> (\<forall>f \<in> set fs. draining (f_phase f)
              \<and> (v_current s = Some (f_ref f) \<or> length (v_heap s) \<le> f_ref f))
        \<and> (\<forall>i. v_current s = Some i \<longrightarrow> v_current t = Some i \<or> i \<in> f_ref ` set fs))
     \<and> (\<forall>i. v_current t = Some i \<longrightarrow> v_current s = Some i \<or> length (v_heap s) \<le> i)
     \<and> length (v_heap s) \<le> length (v_heap t)"

lemma reported_same:
  "v_finals t = v_finals s \<Longrightarrow> v_current t = v_current s \<Longrightarrow> length (v_heap t) = length (v_heap s) \<Longrightarrow>
     reported s t"
  by (simp add: reported_def)

lemma reported_trans: "reported s t \<Longrightarrow> reported t u \<Longrightarrow> reported s u"
proof -
  assume a: "reported s t" and b: "reported t u"
  obtain fs where fs: "v_finals t = v_finals s @ fs"
    "\<forall>f \<in> set fs. draining (f_phase f) \<and> (v_current s = Some (f_ref f) \<or> length (v_heap s) \<le> f_ref f)"
    "\<forall>i. v_current s = Some i \<longrightarrow> v_current t = Some i \<or> i \<in> f_ref ` set fs"
    and s: "\<forall>i. v_current t = Some i \<longrightarrow> v_current s = Some i \<or> length (v_heap s) \<le> i"
      "length (v_heap s) \<le> length (v_heap t)"
    using a by (auto simp: reported_def)
  obtain gs where gs: "v_finals u = v_finals t @ gs"
    "\<forall>f \<in> set gs. draining (f_phase f) \<and> (v_current t = Some (f_ref f) \<or> length (v_heap t) \<le> f_ref f)"
    "\<forall>i. v_current t = Some i \<longrightarrow> v_current u = Some i \<or> i \<in> f_ref ` set gs"
    and t: "\<forall>i. v_current u = Some i \<longrightarrow> v_current t = Some i \<or> length (v_heap t) \<le> i"
      "length (v_heap t) \<le> length (v_heap u)"
    using b by (auto simp: reported_def)
  have "v_finals u = v_finals s @ (fs @ gs)" using fs(1) gs(1) by simp
  moreover have "\<forall>f \<in> set (fs @ gs). draining (f_phase f)
      \<and> (v_current s = Some (f_ref f) \<or> length (v_heap s) \<le> f_ref f)"
    using fs(2) gs(2) s by fastforce
  moreover have "\<forall>i. v_current s = Some i \<longrightarrow> v_current u = Some i \<or> i \<in> f_ref ` set (fs @ gs)"
    using fs(3) gs(3) by auto
  moreover have "\<forall>i. v_current u = Some i \<longrightarrow> v_current s = Some i \<or> length (v_heap s) \<le> i"
    using s t by fastforce
  ultimately show ?thesis using s(2) t(2) unfolding reported_def by (intro conjI exI [of _ "fs @ gs"]) auto
qed

lemma reported_hand_over:
  "v_current s = Some i \<Longrightarrow> reported s (start_finalize i e b (s\<lparr>v_current := None\<rparr>))"
  by (simp add: reported_def start_finalize_def)

lemma reported_switch: "reported s (switch_job s)"
  by (auto simp: switch_job_def reported_hand_over reported_same split: option.split)

lemma reported_begin: "v_current s = None \<Longrightarrow> reported s (fst (begin_job s))"
proof (cases s rule: begin_cases)
  case (failed f)
  then show ?thesis by (simp add: reported_same fields)
next
  case (opened f x resumed p)
  assume "v_current s = None"
  with opened(4) show ?thesis by (simp add: reported_def fields)
qed (simp add: reported_same)

lemma start_capture_fields [fields]:
  "v_finals (start_capture i ly s) = v_finals s" "v_current (start_capture i ly s) = v_current s"
  "v_heap (start_capture i ly s) = v_heap s" "v_reconciled (start_capture i ly s) = v_reconciled s"
  "v_tel (start_capture i ly s) = v_tel s" "v_metrics (start_capture i ly s) = v_metrics s"
  "obj (start_capture i ly s) j = obj s j"
  by (simp_all add: start_capture_def obj_def)

lemma save_obj_reconciled [fields]: "v_reconciled (save_obj i s) = v_reconciled s"
  by (simp add: save_obj_def fields)

lemma track_fields [fields]:
  "v_finals (track_layer i s) = v_finals s" "v_current (track_layer i s) = v_current s"
  "length (v_heap (track_layer i s)) = length (v_heap s)" "v_reconciled (track_layer i s) = v_reconciled s"
  by (simp_all add: track_layer_def Let_def fields)

lemma reported_running: "reported s (handle_running s)"
proof -
  obtain s1 cur where o: "open_job (switch_job s) = (s1, cur)" by fastforce
  have "reported (switch_job s) s1"
  proof (cases "v_current (switch_job s)")
    case None
    then show ?thesis using o reported_begin [OF None] by (simp add: open_job_def)
  next
    case (Some i)
    with o show ?thesis by (simp add: open_job_def reported_same)
  qed
  then have "reported s s1" by (rule reported_trans [OF reported_switch])
  moreover have "reported s1 (track_layer i s1)" for i by (simp add: reported_same fields)
  ultimately show ?thesis
    using o by (auto simp: handle_running_def intro: reported_trans split: option.split)
qed

lemma note_fields [fields]:
  "v_finals (note_idle st s) = v_finals s" "v_current (note_idle st s) = v_current s"
  "v_heap (note_idle st s) = v_heap s" "v_reconciled (note_idle st s) = v_reconciled s"
  by (simp_all add: note_idle_def)

lemma reported_handle: "reported s (handle s)"
  by (auto simp: handle_def handle_ended_def Let_def reported_running reported_hand_over reported_same fields
      split: option.split)

section \<open>Settling what an earlier run left\<close>

definition adopted :: "bool \<Rightarrow> string \<Rightarrow> session \<Rightarrow> bool" where
  "adopted running live x \<longleftrightarrow> running \<and> s_task x = live"

lemma settle_effect:
  "v_heap (settle running live xs s) = v_heap s @ xs
   \<and> v_finals (settle running live xs s) =
       v_finals s @ map (\<lambda>(i, x). fresh_final s state_finish True i)
         (filter (\<lambda>(i, x). \<not> adopted running live x) (enumerate (length (v_heap s)) xs))
   \<and> v_current (settle running live xs s) =
       (if filter (adopted running live) xs = [] then v_current s
        else Some (fst (last (filter (\<lambda>(i, x). adopted running live x) (enumerate (length (v_heap s)) xs)))))
   \<and> v_world (settle running live xs s) = v_world s \<and> v_capture (settle running live xs s) = v_capture s
   \<and> v_tel (settle running live xs s) = v_tel s \<and> v_reconciled (settle running live xs s) = v_reconciled s"
proof (induction xs arbitrary: s)
  case (Cons x xs)
  let ?s1 = "s\<lparr>v_heap := v_heap s @ [x]\<rparr>"
  have e: "filter (\<lambda>(i, x). adopted running live x) (enumerate n ys) = []
      \<longleftrightarrow> filter (adopted running live) ys = []" for n ys
    by (induction ys arbitrary: n) auto
  show ?case
  proof (cases "adopted running live x")
    case True
    then have "settle running live (x # xs) s = settle running live xs
        (count (\<lambda>m. m\<lparr>m_session_frames := s_frames x\<rparr>) (?s1\<lparr>v_current := Some (length (v_heap s))\<rparr>))"
      by (simp add: adopted_def Let_def)
    then show ?thesis
      using Cons.IH True by (simp add: fields now_def fresh_final_def e)
  next
    case False
    then have "settle running live (x # xs) s = settle running live xs
        (start_finalize (length (v_heap s)) state_finish True ?s1)"
      by (auto simp: adopted_def Let_def)
    then show ?thesis
      using Cons.IH False by (simp add: start_finalize_def now_def fresh_final_def)
  qed
qed simp

lemma enumerate_index: "(i, x) \<in> set (enumerate n xs) \<Longrightarrow> n \<le> i \<and> i < n + length xs"
  by (auto simp: in_set_enumerate_eq)

lemma adopted_enumerate:
  "filter (adopted running live) xs \<noteq> [] \<Longrightarrow>
     filter (\<lambda>(i, x). adopted running live x) (enumerate n xs) \<noteq> []"
  by (induction xs arbitrary: n) auto

lemma adopted_index:
  assumes "filter (adopted running live) xs \<noteq> []"
  shows "n \<le> fst (last (filter (\<lambda>(i, x). adopted running live x) (enumerate n xs)))"
proof -
  obtain i x where "last (filter (\<lambda>(i, x). adopted running live x) (enumerate n xs)) = (i, x)" by fastforce
  moreover have "last (filter (\<lambda>(i, x). adopted running live x) (enumerate n xs)) \<in> set (enumerate n xs)"
    using last_in_set [OF adopted_enumerate [OF assms]] by (metis filter_is_subset subsetD)
  ultimately show ?thesis using enumerate_index by fastforce
qed

lemma fresh_final_fields [simp]:
  "f_ref (fresh_final s e b i) = i" "draining (f_phase (fresh_final s e b i))"
  by (simp_all add: fresh_final_def)

lemma reported_settle:
  assumes "v_current s = None"
  shows "reported s (settle running live xs s)"
proof -
  let ?fs = "map (\<lambda>(i, x). fresh_final s state_finish True i)
      (filter (\<lambda>(i, x). \<not> adopted running live x) (enumerate (length (v_heap s)) xs))"
  note eff = settle_effect [of running live xs s]
  have "\<forall>f \<in> set ?fs. draining (f_phase f) \<and> (v_current s = Some (f_ref f) \<or> length (v_heap s) \<le> f_ref f)"
    using enumerate_index by fastforce
  moreover have "\<forall>i. v_current (settle running live xs s) = Some i \<longrightarrow> length (v_heap s) \<le> i"
    using eff assms adopted_index by (auto split: if_splits)
  ultimately show ?thesis
    using eff assms unfolding reported_def by (intro conjI exI [of _ ?fs]) auto
qed

lemma reported_reconcile: "v_current s = None \<Longrightarrow> reported s (reconcile s)"
proof -
  assume c: "v_current s = None"
  obtain s1 r where o: "on_disk (\<lambda>os. list_sessions os (v_store s)) s = (s1, r)" by fastforce
  then have s1: "s1 = fst (on_disk (\<lambda>os. list_sessions os (v_store s)) s)" by simp
  have "reported s s1" by (simp add: s1 reported_same fields)
  moreover have "reported s1 (settle running live xs s1)" for running live xs
    by (rule reported_settle) (simp add: s1 fields c)
  ultimately show ?thesis using o
    by (auto simp: reconcile_def Let_def intro: reported_trans split: option.split)
qed

lemma reconcile_reconciled: "v_reconciled (reconcile s) = v_reconciled s"
  using settle_effect
  by (simp add: reconcile_def Let_def split_beta fields split: option.split)

lemma reported_message: "settled_first s \<Longrightarrow> reported s (on_message p s)"
proof -
  assume w: "settled_first s"
  obtain t ok where m: "merge (v_tel s) p = (t, ok)" by fastforce
  let ?s1 = "s\<lparr>v_last_report := now s div second\<rparr>"
  let ?s2 = "observe (?s1\<lparr>v_tel := t\<rparr>)"
  have f: "v_finals ?s2 = v_finals s" "v_current ?s2 = v_current s" "v_heap ?s2 = v_heap s"
    "v_reconciled ?s2 = v_reconciled s"
    by (simp_all add: observe_def fields)
  have r1: "reported s ?s1" by (simp add: reported_same)
  have "reported s (first_pass ?s2)"
  proof (cases "\<not> v_reconciled s \<and> gcode_state (v_tel ?s2) \<noteq> []")
    case True
    then have "v_current ?s2 = None" using w f by (simp add: settled_first_def)
    then have "reported (?s2\<lparr>v_reconciled := True\<rparr>) (reconcile (?s2\<lparr>v_reconciled := True\<rparr>))"
      by (intro reported_reconcile) simp
    moreover have "reported s (?s2\<lparr>v_reconciled := True\<rparr>)" using f by (simp add: reported_same)
    ultimately show ?thesis using True f by (auto simp: first_pass_def intro: reported_trans)
  next
    case False
    then have "first_pass ?s2 = ?s2" using f by (auto simp: first_pass_def)
    then show ?thesis using f by (simp add: reported_same)
  qed
  then have "reported s (handle (first_pass ?s2))" by (rule reported_trans [OF _ reported_handle])
  with m r1 show ?thesis by (simp add: on_message_def Let_def)
qed

section \<open>The refinement\<close>

lemma final_unique:
  "refs_svc s \<Longrightarrow> f \<in> set (v_finals s) \<Longrightarrow> g \<in> set (v_finals s) \<Longrightarrow> f_ref f = f_ref g \<Longrightarrow> f = g"
  by (auto simp: refs_svc_def distinct_map inj_on_def)

lemma life_reported:
  assumes "reported s t" and "refs_svc s" and "refs_svc t"
  shows "report_move (life_of s i) (life_of t i)"
proof -
  obtain fs where fs: "v_finals t = v_finals s @ fs"
    "\<forall>f \<in> set fs. draining (f_phase f) \<and> (v_current s = Some (f_ref f) \<or> length (v_heap s) \<le> f_ref f)"
    "\<forall>i. v_current s = Some i \<longrightarrow> v_current t = Some i \<or> i \<in> f_ref ` set fs"
    and n: "\<forall>i. v_current t = Some i \<longrightarrow> v_current s = Some i \<or> length (v_heap s) \<le> i"
      "length (v_heap s) \<le> length (v_heap t)"
    using assms(1) by (auto simp: reported_def)
  have e: "ended t i \<longleftrightarrow> ended s i \<or> i \<in> f_ref ` set fs" "finished t i = finished s i"
    using fs(1,2) by (auto simp: ended_def finished_def)
  have r: "ended s i \<Longrightarrow> i < length (v_heap s) \<and> v_current s \<noteq> Some i"
    "finished s i \<Longrightarrow> ended s i" "v_current s = Some i \<Longrightarrow> i < length (v_heap s)"
    using assms(2) by (auto simp: refs_svc_def ended_def finished_def)
  have rt: "v_current t = Some i \<Longrightarrow> i \<notin> f_ref ` set fs"
    using assms(3) fs(1) by (auto simp: refs_svc_def)
  consider (opened) "v_current s = Some i" | (old) "i < length (v_heap s)" "v_current s \<noteq> Some i"
    | (new) "length (v_heap s) \<le> i" "v_current s \<noteq> Some i" by linarith
  then show ?thesis
  proof cases
    case opened
    then have "\<not> finished s i" "\<not> ended s i" using r by auto
    then show ?thesis using opened fs(3) e by (auto simp: life_of_def report_move_simps)
  next
    case old
    then have "v_current t \<noteq> Some i" "i \<notin> f_ref ` set fs" using n fs(2) by auto
    then have "life_of t i = life_of s i" using old n e by (simp add: life_of_def)
    then show ?thesis by (simp add: report_move_simps)
  next
    case new
    then have "\<not> ended s i" "\<not> finished s i" using r by auto
    then show ?thesis using new e by (auto simp: life_of_def report_move_simps)
  qed
qed

lemma life_same:
  "v_current t = v_current s \<Longrightarrow> v_finals t = v_finals s \<Longrightarrow> length (v_heap t) = length (v_heap s) \<Longrightarrow>
     life_of t = life_of s"
  by (rule ext) (auto simp: life_of_def ended_def finished_def)

text \<open>What a step of a finalisation does: the phase of one task, and nothing else of the bookkeeping.\<close>

definition phase_moved :: "svc \<Rightarrow> nat \<Rightarrow> phase \<Rightarrow> svc \<Rightarrow> bool" where
  "phase_moved s k p t \<longleftrightarrow>
     v_finals t = (v_finals s)[k := (v_finals s ! k)\<lparr>f_phase := p\<rparr>]
     \<and> v_current t = v_current s \<and> length (v_heap t) = length (v_heap s)
     \<and> v_reconciled t = v_reconciled s"

lemma job_fields [fields]:
  "v_finals (discard_job i s) = v_finals s" "v_current (discard_job i s) = v_current s"
  "v_heap (discard_job i s) = v_heap s" "v_reconciled (discard_job i s) = v_reconciled s"
  "v_metrics (discard_job i s) = v_metrics s"
  "v_finals (park_job i r s) = v_finals s" "v_current (park_job i r s) = v_current s"
  "length (v_heap (park_job i r s)) = length (v_heap s)" "v_reconciled (park_job i r s) = v_reconciled s"
  "v_metrics (park_job i r s) = v_metrics s"
  by (simp_all add: discard_job_def park_job_def split_beta fields)

lemma deliver_fields [fields]:
  "v_finals (deliver_locally i v c x n s) = v_finals s" "v_current (deliver_locally i v c x n s) = v_current s"
  "length (v_heap (deliver_locally i v c x n s)) = length (v_heap s)"
  "v_reconciled (deliver_locally i v c x n s) = v_reconciled s"
  by (simp_all add: deliver_locally_def split_beta fields)

lemma request_fields [fields]:
  "v_finals (fst (job_request i v c x n s)) = v_finals s" "v_current (fst (job_request i v c x n s)) = v_current s"
  "v_heap (fst (job_request i v c x n s)) = v_heap s"
  "v_reconciled (fst (job_request i v c x n s)) = v_reconciled s"
  "v_metrics (fst (job_request i v c x n s)) = v_metrics s"
  by (simp_all add: job_request_def split_beta fields)

lemma phase_moved_set:
  "v_finals u = v_finals s \<Longrightarrow> v_current u = v_current s \<Longrightarrow> length (v_heap u) = length (v_heap s) \<Longrightarrow>
     v_reconciled u = v_reconciled s \<Longrightarrow> phase_moved s k p (set_phase k p u)"
  by (simp add: phase_moved_def set_phase_def)

lemma end_drain_phase: "\<exists>e l d. phase_moved s k (Covering e l d) (end_drain k s)"
proof -
  have "phase_moved s k p (set_phase k p s)" for p by (rule phase_moved_set) (rule refl)+
  then show ?thesis unfolding end_drain_def Let_def by blast
qed

lemma take_cover_phase: "\<exists>cover. phase_moved s k (Rendering e cover) (take_cover k e l s)"
proof -
  have "phase_moved s k p (set_phase k p (s\<lparr>v_world := w\<rparr>))" for p w by (rule phase_moved_set) simp_all
  then show ?thesis unfolding take_cover_def Let_def split_beta by blast
qed

text \<open>The four ways out of \<open>render\<close>.\<close>

lemma render_outcome:
  obtains (few) "s_frames (obj s (f_ref (v_finals s ! k))) < c_min_frames (v_cfg s)"
      "render k e cover s = set_phase k Finished
         (discard_job (f_ref (v_finals s ! k)) (count (count_upload ''skipped'') s))"
  | (broken) w where "c_min_frames (v_cfg s) \<le> s_frames (obj s (f_ref (v_finals s ! k)))"
      "render k e cover s = set_phase k Finished
         (park_job (f_ref (v_finals s ! k)) ''encode-failed'' (count (count_upload ''failed'') (s\<lparr>v_world := w\<rparr>)))"
  | (kept) f :: "disk \<Rightarrow> disk \<times> bool" and w video cap name where "c_min_frames (v_cfg s) \<le> s_frames (obj s (f_ref (v_finals s ! k)))"
      "c_api_url (v_cfg s) = []"
      "render k e cover s = set_phase k Finished
         (deliver_locally (f_ref (v_finals s ! k)) video cover cap name (fst (on_disk f (s\<lparr>v_world := w\<rparr>))))"
  | (posting) f :: "disk \<Rightarrow> disk \<times> bool" and w video cap name where "c_min_frames (v_cfg s) \<le> s_frames (obj s (f_ref (v_finals s ! k)))"
      "c_api_url (v_cfg s) \<noteq> []"
      "render k e cover s = set_phase k
         (Posting (snd (job_request (f_ref (v_finals s ! k)) video cover cap name (fst (on_disk f (s\<lparr>v_world := w\<rparr>))))) 1)
         (fst (job_request (f_ref (v_finals s ! k)) video cover cap name (fst (on_disk f (s\<lparr>v_world := w\<rparr>)))))"
proof -
  let ?x = "obj s (f_ref (v_finals s ! k))"
  let ?i = "f_ref (v_finals s ! k)" and ?name = "filename (c_printer (v_cfg s)) ?x"
  let ?v = "s_dir ?x @ [?name]" and ?cap = "caption (c_printer (v_cfg s)) ?x (f_end (v_finals s ! k) = state_finish) e"
  obtain w ok where enc: "encode_job (v_world s) (svc_tools s) (v_cfg s) (v_font s) ?x ?v cover = (w, ok)"
    by fastforce
  let ?s2 = "fst (on_disk (\<lambda>os. os_write os (s_dir ?x @ [''caption.txt'']) (Bytes ?cap)) (s\<lparr>v_world := w\<rparr>))"
  show ?thesis
  proof (cases "s_frames ?x < c_min_frames (v_cfg s)")
    case True
    then show ?thesis by (intro few) (simp_all add: render_def Let_def)
  next
    case False
    consider "\<not> ok" | "ok" "c_api_url (v_cfg s) = []" | "ok" "c_api_url (v_cfg s) \<noteq> []" by blast
    then show ?thesis
    proof cases
      case 1
      with False enc show ?thesis by (intro broken) (simp_all add: render_def Let_def)
    next
      case 2
      with False enc have "render k e cover s = set_phase k Finished (deliver_locally ?i ?v cover ?cap ?name ?s2)"
        by (simp add: render_def Let_def)
      then show ?thesis by (rule kept [rotated 2]) (use 2 False in simp_all)
    next
      case 3
      with False enc have "render k e cover s =
          set_phase k (Posting (snd (job_request ?i ?v cover ?cap ?name ?s2)) 1) (fst (job_request ?i ?v cover ?cap ?name ?s2))"
        by (simp add: render_def Let_def split_beta)
      then show ?thesis by (rule posting [rotated 2]) (use 3 False in simp_all)
    qed
  qed
qed

lemma render_phase:
  "phase_moved s k Finished (render k e cover s) \<or> (\<exists>rq. phase_moved s k (Posting rq 1) (render k e cover s))"
proof (cases rule: render_outcome [where s = s and k = k and e = e and cover = cover])
  case (posting f w video cap name)
  have "phase_moved s k p (set_phase k p (fst (job_request i video cover cap name (fst (on_disk f (s\<lparr>v_world := w\<rparr>))))))"
    for p i by (rule phase_moved_set) (simp_all add: fields)
  then show ?thesis unfolding posting(3) by blast
qed (auto simp: fields intro!: phase_moved_set disjI1)

lemma give_up_phase: "phase_moved s k Finished (give_up k s)"
  unfolding give_up_def by (rule phase_moved_set) (simp_all add: fields)

lemma attempt_phase:
  "phase_moved s k Finished (attempt k rq n seed r s)
   \<or> (\<exists>due. phase_moved s k (Waiting rq n due) (attempt k rq n seed r s))"
proof (cases rule: attempt_outcome [where s = s and k = k and rq = rq and n = n and seed = seed and r = r])
  case (given_up w)
  with give_up_phase [of "s\<lparr>v_world := w\<rparr>" k] show ?thesis by (simp add: phase_moved_def)
next
  case (again w)
  have "phase_moved s k p (set_phase k p (s\<lparr>v_world := w\<rparr>))" for p by (rule phase_moved_set) simp_all
  with again(2) show ?thesis by metis
qed (auto simp: fields intro!: phase_moved_set)

lemma after_wait_phase:
  "phase_moved s k (if n < upload_attempts then Posting rq (Suc n) else Finished) (after_wait k rq n s)"
  by (simp add: after_wait_def give_up_phase phase_moved_set)

lemma ended_alt: "ended s i \<longleftrightarrow> i \<in> f_ref ` set (v_finals s)"
  by (auto simp: ended_def)

lemma finished_nth:
  "finished s i \<longleftrightarrow>
     (\<exists>j < length (v_finals s). f_ref (v_finals s ! j) = i \<and> f_phase (v_finals s ! j) = Finished)"
  by (auto simp: finished_def set_conv_nth)

lemma finished_moved:
  assumes "phase_moved s k p t" and "k < length (v_finals s)" and "refs_svc s"
    and "f_phase (v_finals s ! k) \<noteq> Finished"
  shows "finished t i = (if i = f_ref (v_finals s ! k) then p = Finished else finished s i)"
    and "\<not> finished s (f_ref (v_finals s ! k))"
proof -
  let ?r = "f_ref (v_finals s ! k)"
  have m: "v_finals s ! k \<in> set (v_finals s)" using assms(2) by simp
  have u: "f = v_finals s ! k" if "f \<in> set (v_finals s)" "f_ref f = ?r" for f
    using final_unique [OF assms(3) that(1) m that(2)] .
  show nf: "\<not> finished s ?r" using u assms(4) by (auto simp: finished_def)
  have d: "distinct (map f_ref (v_finals s))" using assms(3) by (simp add: refs_svc_def)
  show "finished t i = (if i = ?r then p = Finished else finished s i)"
  proof -
    have j: "v_finals t ! j = (if j = k then (v_finals s ! k)\<lparr>f_phase := p\<rparr> else v_finals s ! j)"
      if "j < length (v_finals s)" for j
      using assms(1) that by (simp add: phase_moved_def nth_list_update)
    have l: "length (v_finals t) = length (v_finals s)" using assms(1) by (simp add: phase_moved_def)
    have uk: "f_ref (v_finals s ! j) = ?r \<longleftrightarrow> j = k" if "j < length (v_finals s)" for j
      using d assms(2) that by (simp add: distinct_conv_nth) (metis length_map nth_map)
    have "finished t i \<longleftrightarrow> (\<exists>j < length (v_finals s). (if j = k then ?r = i \<and> p = Finished
        else f_ref (v_finals s ! j) = i \<and> f_phase (v_finals s ! j) = Finished))"
      using j unfolding finished_nth l by (metis final_task.select_convs(1,4) final_task.surjective final_task.update_convs(4))
    then show ?thesis
      using uk assms(2,4) by (auto simp: finished_nth)
  qed
qed

lemma life_phase_moved:
  assumes "phase_moved s k p t" and "k < length (v_finals s)" and "refs_svc s"
    and "f_phase (v_finals s ! k) \<noteq> Finished"
  shows "life_of t = (if p = Finished then (life_of s)(f_ref (v_finals s ! k) := Done) else life_of s)"
    and "life_of s (f_ref (v_finals s ! k)) = Ending"
proof -
  let ?r = "f_ref (v_finals s ! k)"
  have m: "v_finals s ! k \<in> set (v_finals s)" using assms(2) by simp
  have c: "v_current s \<noteq> Some ?r" using assms(3) m by (auto simp: refs_svc_def)
  have u: "f = v_finals s ! k" if "f \<in> set (v_finals s)" "f_ref f = ?r" for f
    using final_unique [OF assms(3) that(1) m that(2)] .
  have e: "ended t i = ended s i" for i
  proof -
    have "f_ref ` set (v_finals t) = f_ref ` set (v_finals s)"
      using assms(1) map_update_same [of k "v_finals s" f_ref "(v_finals s ! k)\<lparr>f_phase := p\<rparr>"]
      by (metis final_task.select_convs(1) final_task.surjective final_task.update_convs(4) phase_moved_def
          list.set_map)
    then show ?thesis by (simp only: ended_alt)
  qed
  note nf = finished_moved(2) [OF assms] and f = finished_moved(1) [OF assms]
  have cu: "v_current t = v_current s" "length (v_heap t) = length (v_heap s)"
    using assms(1) by (simp_all add: phase_moved_def)
  have en: "ended s ?r" using m by (auto simp: ended_def)
  show "life_of s ?r = Ending" using c nf en by (simp add: life_of_def)
  show "life_of t = (if p = Finished then (life_of s)(?r := Done) else life_of s)"
    by (rule ext) (use c nf en e f cu in \<open>auto simp: life_of_def\<close>)
qed

lemma finish_or_stay:
  assumes "phase_moved s k p t" and "k < length (v_finals s)" and "refs_svc s"
    and "f_phase (v_finals s ! k) \<noteq> Finished" and "\<not> reporting e" and "p = Finished \<Longrightarrow> finishing e"
  shows "life_step (life_of s) e (life_of t)"
  using life_phase_moved [OF assms(1-4)] assms(5,6) by (auto intro: life_step.intros)

lemma quiet_fields [fields]:
  "v_finals (finish_grab c d s) = v_finals s" "v_current (finish_grab c d s) = v_current s"
  "length (v_heap (finish_grab c d s)) = length (v_heap s)"
  "v_reconciled (finish_grab c d s) = v_reconciled s"
  "v_finals (keep_preview i img s) = v_finals s" "v_current (keep_preview i img s) = v_current s"
  "v_heap (keep_preview i img s) = v_heap s" "v_reconciled (keep_preview i img s) = v_reconciled s"
  "v_finals (retry_next net s) = v_finals s" "v_current (retry_next net s) = v_current s"
  "v_heap (retry_next net s) = v_heap s" "v_reconciled (retry_next net s) = v_reconciled s"
  "v_finals (shoot c s) = v_finals s" "v_current (shoot c s) = v_current s"
  "v_heap (shoot c s) = v_heap s" "v_reconciled (shoot c s) = v_reconciled s"
  "v_finals (advance n s) = v_finals s" "v_current (advance n s) = v_current s"
  "v_heap (advance n s) = v_heap s" "v_reconciled (advance n s) = v_reconciled s"
  by (simp_all add: finish_grab_def keep_preview_def retry_next_def shoot_def advance_def Let_def fields
      split: prod.split option.split list.split)

lemma event_kinds [simp]:
  "reporting (Message p)" "\<not> reporting (Connected b)" "\<not> reporting (Advance d)" "\<not> reporting (SpaceIs x)"
  "\<not> reporting Stop" "\<not> reporting Shoot" "\<not> reporting GiveUpShot" "\<not> reporting GrabEnds"
  "\<not> reporting (Preview i img)" "\<not> reporting (Drained k)" "\<not> reporting (CoverDue k)"
  "\<not> reporting (Render k)" "\<not> reporting (Attempt k sd r)" "\<not> reporting (WaitOver k)"
  "\<not> reporting (RetryNext sd r)"
  "finishing (Render k)" "finishing (Attempt k sd r)" "finishing (WaitOver k)"
  by (simp_all add: reporting_def finishing_def)

lemma quiet_step:
  "\<not> reporting e \<Longrightarrow> v_current t = v_current s \<Longrightarrow> v_finals t = v_finals s \<Longrightarrow>
     length (v_heap t) = length (v_heap s) \<Longrightarrow> life_step (life_of s) e (life_of t)"
  using life_same [of t s] by (simp add: life_step.stutter)

lemma daemon_step:
  assumes "transition s e t" and "good s" and "settled_first s"
  shows "life_step (life_of s) e (life_of t)"
proof -
  have r: "refs_svc s" and rt: "refs_svc t"
    using assms(2) good_transition [OF assms(1,2)] by (simp_all add: good_def)
  note step = finish_or_stay [OF _ _ r]
  from assms(1) show ?thesis
  proof (cases rule: transition.cases)
    case (message p)
    then have "reported s t" using reported_message [OF assms(3)] by simp
    then show ?thesis using message life_reported [OF _ r rt] by (auto intro: life_step.report)
  next
    case (drained k limit)
    with end_drain_phase show ?thesis by (metis event_kinds(10) phase.distinct step)
  next
    case (cover_due k elapsed lst due)
    with take_cover_phase show ?thesis by (metis event_kinds(11) phase.distinct step)
  next
    case (render k elapsed cover)
    with render_phase show ?thesis by (metis event_kinds(12,16) phase.distinct step)
  next
    case (attempt k rq n seed r)
    with attempt_phase show ?thesis by (metis event_kinds(13,17) phase.distinct step)
  next
    case (wait_over k rq n due)
    with after_wait_phase show ?thesis by (metis event_kinds(14,18) phase.distinct step)
  qed (auto intro!: quiet_step simp: fields)
qed

section \<open>Runs\<close>

lemma begin_reconciled: "v_reconciled (fst (begin_job s)) = v_reconciled s"
  by (cases s rule: begin_cases) (simp_all add: fields)

lemma handle_reconciled: "v_reconciled (handle s) = v_reconciled s"
proof -
  have sw: "v_reconciled (switch_job s) = v_reconciled s"
    by (simp add: switch_job_def start_finalize_def split: option.split)
  have "v_reconciled (fst (open_job (switch_job s))) = v_reconciled s"
    using begin_reconciled [of "switch_job s"] sw by (simp add: open_job_def split: option.split)
  then have "v_reconciled (handle_running s) = v_reconciled s"
    by (simp add: handle_running_def split_beta fields split: option.split)
  then show ?thesis
    by (simp add: handle_def handle_ended_def Let_def start_finalize_def fields split: option.split)
qed

lemma handle_silent: "gcode_state (v_tel s) = [] \<Longrightarrow> handle s = s"
  by (simp add: handle_def gcode_states)

lemma first_pass_reconciled:
  "gcode_state (v_tel s) \<noteq> [] \<Longrightarrow> v_reconciled (first_pass s)"
  "gcode_state (v_tel s) = [] \<Longrightarrow> first_pass s = s"
  by (simp_all add: first_pass_def reconcile_reconciled)

lemma settled_message: "settled_first s \<Longrightarrow> settled_first (on_message p s)"
proof -
  assume w: "settled_first s"
  obtain t ok where m: "merge (v_tel s) p = (t, ok)" by fastforce
  let ?s2 = "observe (s\<lparr>v_last_report := now s div second, v_tel := t\<rparr>)"
  have "settled_first (handle (first_pass ?s2))"
  proof (cases "gcode_state (v_tel ?s2) = []")
    case True
    have "settled_first ?s2" using w by (simp add: settled_first_def observe_def fields)
    then show ?thesis by (simp add: first_pass_reconciled(2) [OF True] handle_silent [OF True])
  next
    case False
    then show ?thesis by (simp add: settled_first_def handle_reconciled first_pass_reconciled(1))
  qed
  with m w show ?thesis by (simp add: on_message_def Let_def settled_first_def)
qed

lemma settled_moved: "settled_first s \<Longrightarrow> phase_moved s k p t \<Longrightarrow> settled_first t"
  by (simp add: settled_first_def phase_moved_def)

lemma settled_transition: "transition s e t \<Longrightarrow> settled_first s \<Longrightarrow> settled_first t"
proof (induction rule: transition.induct)
  case (drained k s limit)
  with end_drain_phase settled_moved show ?case by metis
next
  case (cover_due k s elapsed lst due)
  with take_cover_phase settled_moved show ?case by metis
next
  case (render k s elapsed cover)
  with render_phase settled_moved show ?case by metis
next
  case (attempt k s rq n seed r)
  with attempt_phase settled_moved show ?case by metis
next
  case (wait_over k s rq n due)
  with after_wait_phase settled_moved show ?case by metis
qed (simp_all add: settled_message, simp_all add: settled_first_def fields)

definition sound :: "svc \<Rightarrow> bool" where
  "sound s \<longleftrightarrow> good s \<and> settled_first s"

interpretation lives: kept_invariant transition sound
  by unfold_locales (auto simp: sound_def intro: good_transition settled_transition)

text \<open>The stages of a life are ordered, and the abstract machine only ever moves up in that order, for
  all sessions at once.\<close>

fun life_rank :: "life \<Rightarrow> nat" where
  "life_rank Absent = 0"
| "life_rank Open = 1"
| "life_rank Ending = 2"
| "life_rank Done = 3"
| "life_rank Dropped = 4"

lemma life_rank_inj: "life_rank a = life_rank b \<Longrightarrow> a = b"
  by (cases a; cases b) simp_all

instantiation life :: linorder
begin

definition less_eq_life :: "life \<Rightarrow> life \<Rightarrow> bool" where
  "less_eq_life a b \<longleftrightarrow> life_rank a \<le> life_rank b"

definition less_life :: "life \<Rightarrow> life \<Rightarrow> bool" where
  "less_life a b \<longleftrightarrow> life_rank a < life_rank b"

instance
  by standard (auto simp: less_eq_life_def less_life_def intro: life_rank_inj)

end

lemma report_move_up: "report_move x y \<Longrightarrow> x \<le> y"
  by (induction rule: report_move.induct) (simp_all add: less_eq_life_def)

lemma life_step_mono: "life_step a e b \<Longrightarrow> a \<le> b"
  by (induction rule: life_step.induct) (auto simp: le_fun_def less_eq_life_def intro: report_move_up [unfolded less_eq_life_def])

lemma life_run_mono: "run_of life_step a es b \<Longrightarrow> a \<le> b"
  by (induction rule: run_of.induct) (auto dest: life_step_mono)

lemma runs_refine: "run_of transition s es t \<Longrightarrow> sound s \<Longrightarrow> run_of life_step (life_of s) es (life_of t)"
proof (induction rule: run_of.induct)
  case (run_step s e t es u)
  then have "sound t" by (auto simp: sound_def intro: good_transition settled_transition)
  with run_step daemon_step show ?case by (auto simp: sound_def)
qed simp

section \<open>Every finalisation ends\<close>

text \<open>What is left to do in a phase; an upload is tried three times at most.\<close>

fun phase_work :: "phase \<Rightarrow> nat" where
  "phase_work (Draining l) = 9"
| "phase_work (Covering e l d) = 8"
| "phase_work (Rendering e c) = 7"
| "phase_work (Posting rq n) = 2 * (upload_attempts - n) + 2"
| "phase_work (Waiting rq n d) = 2 * (upload_attempts - n) + 1"
| "phase_work Finished = 0"

definition work :: "svc \<Rightarrow> nat" where
  "work s = sum_list (map (phase_work \<circ> f_phase) (v_finals s))"

definition finalising :: "event \<Rightarrow> nat option" where
  "finalising e =
     (case e of Drained k \<Rightarrow> Some k | CoverDue k \<Rightarrow> Some k | Render k \<Rightarrow> Some k
      | Attempt k sd r \<Rightarrow> Some k | WaitOver k \<Rightarrow> Some k | _ \<Rightarrow> None)"

lemma finalising_simps [simp]:
  "finalising (Message p) = None" "finalising (Connected b) = None" "finalising (Advance d) = None"
  "finalising (SpaceIs x) = None" "finalising Stop = None" "finalising Shoot = None"
  "finalising GiveUpShot = None" "finalising GrabEnds = None" "finalising (Preview i img) = None"
  "finalising (Drained k) = Some k" "finalising (CoverDue k) = Some k" "finalising (Render k) = Some k"
  "finalising (Attempt k sd r) = Some k" "finalising (WaitOver k) = Some k"
  "finalising (RetryNext sd r) = None"
  by (simp_all add: finalising_def)

text \<open>A finalisation event moves one task to a phase with less left to do.\<close>

lemma finalising_moves:
  assumes "transition s e t" and "finalising e = Some k"
  shows "k < length (v_finals s)
    \<and> (\<exists>p. phase_moved s k p t \<and> phase_work p < phase_work (f_phase (v_finals s ! k)))"
  using assms
proof (cases rule: transition.cases)
  case (drained k' limit)
  then show ?thesis using assms(2) end_drain_phase [of s k'] by auto
next
  case (cover_due k' elapsed lst due)
  then show ?thesis using assms(2) take_cover_phase [of s k' elapsed lst] by fastforce
next
  case (render k' elapsed cover)
  then show ?thesis using assms(2) render_phase [of s k' elapsed cover] by (fastforce simp: upload_attempts_def)
next
  case (attempt k' rq n seed r)
  then show ?thesis using assms(2) attempt_phase [of s k' rq n seed r] by fastforce
next
  case (wait_over k' rq n due)
  then show ?thesis using assms(2) after_wait_phase [of s k' n rq]
    by (auto simp: upload_attempts_def split: if_splits intro!: exI)
qed auto

lemma sum_list_update_less:
  "k < length xs \<Longrightarrow> f y < f (xs ! k) \<Longrightarrow> sum_list (map f (xs[k := y])) < sum_list (map f xs :: nat list)"
  by (induction xs arbitrary: k) (auto split: nat.split)

lemma work_moved:
  "phase_moved s k p t \<Longrightarrow> k < length (v_finals s) \<Longrightarrow> phase_work p < phase_work (f_phase (v_finals s ! k)) \<Longrightarrow>
     work t < work s"
  by (simp add: work_def phase_moved_def sum_list_update_less)

lemma work_quiet:
  "transition s e t \<Longrightarrow> finalising e = None \<Longrightarrow> \<not> reporting e \<Longrightarrow> work t = work s"
  by (cases rule: transition.cases) (auto simp: work_def fields)

lemma work_finalising: "transition s e t \<Longrightarrow> finalising e \<noteq> None \<Longrightarrow> work t < work s"
  using finalising_moves work_moved by blast

lemma run_work:
  "run_of transition s es t \<Longrightarrow> \<forall>e \<in> set es. \<not> reporting e \<Longrightarrow>
     length (filter (\<lambda>e. finalising e \<noteq> None) es) + work t \<le> work s"
proof (induction rule: run_of.induct)
  case (run_step s e t es u)
  then show ?case
    using work_quiet [OF run_step(1)] work_finalising [OF run_step(1)] by (cases "finalising e") auto
qed simp

lemma work_bound: "work s \<le> 9 * length (v_finals s)"
proof -
  have "phase_work p \<le> 9" for p by (cases p) (simp_all add: upload_attempts_def)
  then have "sum_list (map (phase_work \<circ> f_phase) fs) \<le> 9 * length fs" for fs
    by (induction fs) (simp_all add: add_mono)
  then show ?thesis by (simp add: work_def)
qed

text \<open>What is left to post for one task.\<close>

fun posts_left :: "phase \<Rightarrow> nat" where
  "posts_left (Posting rq n) = Suc upload_attempts - n"
| "posts_left (Waiting rq n d) = upload_attempts - n"
| "posts_left Finished = 0"
| "posts_left p = upload_attempts"

fun in_range :: "phase \<Rightarrow> bool" where
  "in_range (Posting rq n) \<longleftrightarrow> 1 \<le> n \<and> n \<le> upload_attempts"
| "in_range (Waiting rq n d) \<longleftrightarrow> 1 \<le> n \<and> n \<le> upload_attempts"
| "in_range p \<longleftrightarrow> True"

definition attempts_in_range :: "svc \<Rightarrow> bool" where
  "attempts_in_range s \<longleftrightarrow> (\<forall>f \<in> set (v_finals s). in_range (f_phase f))"

definition task_posts :: "svc \<Rightarrow> nat \<Rightarrow> nat" where
  "task_posts s k = (if k < length (v_finals s) then posts_left (f_phase (v_finals s ! k)) else upload_attempts)"

definition posting :: "nat \<Rightarrow> event \<Rightarrow> bool" where
  "posting k e \<longleftrightarrow> (case e of Attempt j sd r \<Rightarrow> j = k | _ \<Rightarrow> False)"

lemma in_range_moved:
  "attempts_in_range s \<Longrightarrow> phase_moved s k p t \<Longrightarrow> in_range p \<Longrightarrow> attempts_in_range t"
  by (auto simp: attempts_in_range_def phase_moved_def dest!: set_update_subset_insert [THEN subsetD])

lemma in_range_nth:
  "attempts_in_range s \<Longrightarrow> k < length (v_finals s) \<Longrightarrow> f_phase (v_finals s ! k) = Posting rq n \<Longrightarrow>
     1 \<le> n \<and> n \<le> upload_attempts"
  "attempts_in_range s \<Longrightarrow> k < length (v_finals s) \<Longrightarrow> f_phase (v_finals s ! k) = Waiting rq n d \<Longrightarrow>
     1 \<le> n \<and> n \<le> upload_attempts"
  unfolding attempts_in_range_def by (metis in_range.simps(1) nth_mem, metis in_range.simps(2) nth_mem)

lemma draining_in_range: "draining p \<Longrightarrow> in_range p"
  by (cases p) auto

lemma reported_finals:
  assumes "reported s t"
  obtains fs where "v_finals t = v_finals s @ fs" "\<forall>f \<in> set fs. draining (f_phase f)"
  using assms unfolding reported_def by blast

lemma in_range_reported: "attempts_in_range s \<Longrightarrow> reported s t \<Longrightarrow> attempts_in_range t"
  by (erule reported_finals) (auto simp: attempts_in_range_def draining_in_range)

text \<open>One step changes what is left to post for a task by at most one, and only an attempt does.\<close>

lemma posts_step:
  assumes "transition s e t" and "settled_first s" and "attempts_in_range s"
  shows "attempts_in_range t \<and> task_posts t k + (if posting k e then 1 else 0) \<le> task_posts s k"
proof -
  have moved: "attempts_in_range t \<and> task_posts t k + (if posting k e then 1 else 0) \<le> task_posts s k"
    if m: "phase_moved s j p t" "j < length (v_finals s)"
      and c: "in_range p"
      and l: "posts_left p + (if posting j e then 1 else 0) \<le> posts_left (f_phase (v_finals s ! j))"
      and e: "posting k e \<Longrightarrow> k = j" for j p
  proof -
    have "task_posts t k = (if k = j then posts_left p else task_posts s k)"
      using m(2) m(1) [unfolded phase_moved_def, THEN conjunct1] by (simp add: task_posts_def)
    moreover have "task_posts s j = posts_left (f_phase (v_finals s ! j))" using m(2) by (simp add: task_posts_def)
    ultimately have "task_posts t k + (if posting k e then 1 else 0) \<le> task_posts s k"
      using l e by (cases "k = j") auto
    with in_range_moved [OF assms(3) m(1) c] show ?thesis by simp
  qed
  from assms(1) show ?thesis
  proof (cases rule: transition.cases)
    case (message p)
    then have r: "reported s t" using reported_message [OF assms(2)] by simp
    obtain fs where fs: "v_finals t = v_finals s @ fs" "\<forall>f \<in> set fs. draining (f_phase f)"
      using r by (rule reported_finals)
    have d: "posts_left (f_phase f) = upload_attempts" if "f \<in> set fs" for f
      using fs(2) that by (cases "f_phase f") auto
    have "task_posts t k \<le> task_posts s k"
      by (auto simp: task_posts_def fs(1) nth_append intro!: d [THEN eq_refl])
    with message r in_range_reported [OF assms(3)] show ?thesis by (simp add: posting_def)
  next
    case (drained j limit)
    obtain a l d where "phase_moved s j (Covering a l d) t" using drained end_drain_phase by blast
    then show ?thesis by (rule moved) (use drained in \<open>simp_all add: posting_def\<close>)
  next
    case (cover_due j elapsed lst due)
    obtain c where "phase_moved s j (Rendering elapsed c) t" using cover_due take_cover_phase by blast
    then show ?thesis by (rule moved) (use cover_due in \<open>simp_all add: posting_def\<close>)
  next
    case (render j elapsed cover)
    then consider "phase_moved s j Finished t" | rq where "phase_moved s j (Posting rq 1) t"
      using render_phase by blast
    then show ?thesis
      by cases (erule moved; use render in \<open>simp add: posting_def upload_attempts_def\<close>)+
  next
    case (attempt j rq n seed r)
    then have n: "1 \<le> n" "n \<le> upload_attempts" using in_range_nth(1) [OF assms(3)] by auto
    consider "phase_moved s j Finished t" | due where "phase_moved s j (Waiting rq n due) t"
      using attempt attempt_phase by blast
    then show ?thesis
      by cases (erule moved; use attempt n in \<open>auto simp: posting_def upload_attempts_def\<close>)+
  next
    case (wait_over j rq n due)
    then have "phase_moved s j (if n < upload_attempts then Posting rq (Suc n) else Finished) t"
      using after_wait_phase by blast
    then show ?thesis
      by (rule moved) (use wait_over in \<open>auto simp: posting_def upload_attempts_def\<close>)
  qed (use assms(3) in \<open>simp_all add: fields posting_def attempts_in_range_def task_posts_def\<close>)
qed

lemma run_posts:
  "run_of transition s es t \<Longrightarrow> settled_first s \<Longrightarrow> attempts_in_range s \<Longrightarrow>
     length (filter (posting k) es) + task_posts t k \<le> task_posts s k"
proof (induction rule: run_of.induct)
  case (run_step s e t es u)
  note p = posts_step [OF run_step(1,4,5), of k]
  have "settled_first t" by (rule settled_transition [OF run_step(1,4)])
  with run_step.IH p have "length (filter (posting k) es) + task_posts u k \<le> task_posts t k" by simp
  with p show ?case by auto
qed simp

lemma now_advance [simp]: "now (advance d s) = now s + d"
  by (simp add: now_def advance_def)

lemma moved_phase:
  "phase_moved s k p t \<Longrightarrow> k < length (v_finals s) \<Longrightarrow>
     length (v_finals t) = length (v_finals s) \<and> f_phase (v_finals t ! k) = p"
  by (simp add: phase_moved_def)

text \<open>Whatever the phase, waiting long enough lets the finalisation take its next step.\<close>

lemma next_finalising:
  assumes "k < length (v_finals s)" and "f_phase (v_finals s ! k) \<noteq> Finished"
  shows "\<exists>d e t. 0 \<le> d \<and> finalising e = Some k \<and> transition (advance d s) e t"
proof (cases "f_phase (v_finals s ! k)")
  case (Draining l)
  show ?thesis
    by (rule exI [of _ "max 0 (l - now s)"], rule exI [of _ "Drained k"])
      (use assms(1) Draining in \<open>auto simp: transition_simps fields\<close>)
next
  case (Covering e l due)
  show ?thesis
    by (rule exI [of _ "max 0 (due - now s)"], rule exI [of _ "CoverDue k"])
      (use assms(1) Covering in \<open>auto simp: transition_simps fields\<close>)
next
  case (Rendering e c)
  show ?thesis
    by (rule exI [of _ 0], rule exI [of _ "Render k"])
      (use assms(1) Rendering in \<open>auto simp: transition_simps fields\<close>)
next
  case (Posting rq n)
  show ?thesis
    by (rule exI [of _ 0], rule exI [of _ "Attempt k None r"])
      (use assms(1) Posting in \<open>auto simp: transition_simps fields\<close>)
next
  case (Waiting rq n due)
  show ?thesis
    by (rule exI [of _ "max 0 (due - now s)"], rule exI [of _ "WaitOver k"])
      (use assms(1) Waiting in \<open>auto simp: transition_simps fields\<close>)
qed (use assms in simp)

lemma finalisation_completes:
  "k < length (v_finals s) \<Longrightarrow>
     \<exists>es t. run_of transition s es t \<and> f_phase (v_finals t ! k) = Finished
       \<and> (\<forall>e \<in> set es. finalising e = Some k \<or> (\<exists>d. e = Advance d))"
proof (induction "phase_work (f_phase (v_finals s ! k))" arbitrary: s rule: less_induct)
  case less
  show ?case
  proof (cases "f_phase (v_finals s ! k) = Finished")
    case True
    then show ?thesis by (intro exI [of _ "[]"] exI [of _ s]) simp
  next
    case False
    obtain d e t where d: "0 \<le> d" "finalising e = Some k" "transition (advance d s) e t"
      using next_finalising [OF less.prems False] by blast
    obtain p where p: "phase_moved (advance d s) k p t" "phase_work p < phase_work (f_phase (v_finals s ! k))"
      using finalising_moves [OF d(3,2)] by (auto simp: fields)
    have t: "k < length (v_finals t)" "f_phase (v_finals t ! k) = p"
      using moved_phase [OF p(1)] less.prems by (simp_all add: fields)
    obtain es u where "run_of transition t es u" "f_phase (v_finals u ! k) = Finished"
      "\<forall>e \<in> set es. finalising e = Some k \<or> (\<exists>d. e = Advance d)"
      using less.hyps [of t] p(2) t by blast
    moreover have "transition s (Advance d) (advance d s)" using d(1) by (rule transition.advance)
    ultimately show ?thesis
      using d by (intro exI [of _ "Advance d # e # es"] exI [of _ u]) auto
  qed
qed

end
