(* ===== verification/Daemon.thy ===== *)
theory Daemon
  imports Lifecycle
begin

text \<open>
  What the running daemon guarantees, from its start on: consistency of its sessions, one end for
  each of them, captures that never overlap, a bounded number of uploads, and what it does at the
  edges, when it stops, restarts or is handed the same job again.
\<close>

section \<open>Starting\<close>

text \<open>A service as \<open>New\<close> and the start of \<open>Run\<close> leave it, whatever free space there was, in a world
  whose stored sessions are well-formed.\<close>

definition started :: "svc \<Rightarrow> bool" where
  "started s \<longleftrightarrow>
     (\<exists>to_path printable ttf c w w' s0 space look_path net why.
        new_service to_path printable ttf c w = (w', Some s0)
        \<and> start_run look_path net why (s0\<lparr>v_statfs := space\<rparr>) = (s, True))
     \<and> docs_ok wf_session (w_os (v_world s))"

lemma started_fields:
  "started s \<Longrightarrow>
     v_heap s = [] \<and> v_current s = None \<and> v_capture s = None \<and> v_finals s = [] \<and> \<not> v_reconciled s"
proof -
  assume "started s"
  then obtain to_path printable ttf c w w' s0 space look_path net why
    where n: "new_service to_path printable ttf c w = (w', Some s0)"
      and r: "start_run look_path net why (s0\<lparr>v_statfs := space\<rparr>) = (s, True)"
    by (auto simp: started_def)
  show ?thesis
    using new_service_fields [OF n] start_run_books [of look_path net why "s0\<lparr>v_statfs := space\<rparr>"] r by simp
qed

lemma started_sound: "started s \<Longrightarrow> sound s"
  using started_fields [of s]
  by (simp add: sound_def settled_first_def good_def wf_svc_def refs_svc_def started_def)

lemma started_in_range: "started s \<Longrightarrow> attempts_in_range s"
  using started_fields [of s] by (simp add: attempts_in_range_def)

lemma started_sound_run: "started s \<Longrightarrow> run_of transition s es t \<Longrightarrow> sound t"
  using lives.run_keeps started_sound by blast

section \<open>Sessions\<close>

text \<open>In every state the daemon can reach, each session it holds has exactly as many layers as
  frames and every layer is positive, so a captioned video always carries its layer counter; a
  session being captured or open exists; and no session ever counts a pause, although the caption
  has a line for them.\<close>

theorem sessions_consistent:
  assumes "started s" and "run_of transition s es t" and "x \<in> set (v_heap t)"
  shows "s_frames x = int (length (s_layers x)) \<and> (\<forall>ly \<in> set (s_layers x). 0 < ly) \<and> s_pauses x = 0"
  using started_sound_run [OF assms(1,2)] assms(3)
  by (auto simp: sound_def good_def wf_svc_def wf_session_def)

text \<open>C1: the daemon refines the abstract life of a session. Seen through \<open>life_of\<close>, every run from a
  start is a run of the abstract machine with the same events: only a report opens a session or
  hands one over, only the encode, an upload or the end of a wait makes one done, and only one that
  was handed over. So no session goes back: what was handed over is never open again, and what is
  done stays done.\<close>

theorem daemon_refines_lives:
  assumes "started s" and "run_of transition s es t" and "run_of transition t es' u"
  shows "run_of life_step (life_of s) es (life_of t) \<and> life_of s = (\<lambda>i. Absent)
    \<and> life_of t \<le> life_of u"
proof -
  have "sound s" "sound t" using started_sound [OF assms(1)] started_sound_run [OF assms(1,2)] .
  then have "run_of life_step (life_of s) es (life_of t)" "run_of life_step (life_of t) es' (life_of u)"
    using runs_refine assms(2,3) by blast+
  moreover have "life_of s = (\<lambda>i. Absent)"
    using started_fields [OF assms(1)] by (auto simp: life_of_def ended_def finished_def)
  ultimately show ?thesis using life_run_mono by blast
qed

text \<open>C8: no session is finalised twice, and none while it is open: in every reachable state the
  finalisations are of different sessions, each of which exists, and the open session is not among
  them.\<close>

theorem one_end_each:
  assumes "started s" and "run_of transition s es t"
  shows "distinct (map f_ref (v_finals t)) \<and> (\<forall>f \<in> set (v_finals t). f_ref f < length (v_heap t))
    \<and> (\<forall>i. v_current t = Some i \<longrightarrow> i < length (v_heap t) \<and> i \<notin> f_ref ` set (v_finals t))"
  using started_sound_run [OF assms] by (auto simp: sound_def good_def refs_svc_def)

section \<open>Reports\<close>


lemma record_report_fields [simp]: "s_last_layer (record_report t x) = s_last_layer x"
  by (simp add: record_report_def Let_def)

lemma low_space_fields: "v_cfg t = v_cfg s \<Longrightarrow> v_statfs t = v_statfs s \<Longrightarrow> low_space t = low_space s"
  by (simp add: low_space_def split: option.split)

lemma track_layer_effect:
  assumes "i < length (v_heap s)"
  shows "v_capture (track_layer i s) =
      (if changed_layer (layer (v_tel s)) (s_last_layer (obj s i)) \<and> v_capture s = None \<and> \<not> low_space s
       then Some \<lparr>cp_ref = i, cp_layer = layer (v_tel s), cp_dest = None\<rparr> else v_capture s)
    \<and> s_last_layer (obj (track_layer i s) i) =
      (if changed_layer (layer (v_tel s)) (s_last_layer (obj s i)) then layer (v_tel s)
       else s_last_layer (obj s i))
    \<and> v_tel (track_layer i s) = v_tel s"
proof -
  let ?s1 = "upd_obj i (record_report (v_tel s)) s"
  let ?s2 = "save_obj i (upd_obj i (\<lambda>x. x\<lparr>s_last_layer := layer (v_tel s)\<rparr>) ?s1)"
  have "low_space ?s2 = low_space s" by (rule low_space_fields) (simp_all add: fields)
  moreover have "s_last_layer (obj ?s1 i) = s_last_layer (obj s i)" using assms by (simp add: obj_upd)
  moreover have "s_last_layer (obj ?s2 i) = layer (v_tel s)" using assms by (simp add: fields obj_upd)
  ultimately show ?thesis
    by (auto simp: track_layer_def Let_def start_capture_def fields obj_def)
qed


section \<open>Recovery\<close>

lemma list_sessions_disk:
  "on_disk (\<lambda>os. list_sessions os (v_store s)) s = (s1, r) \<Longrightarrow>
     r = snd (list_sessions (w_os (v_world s)) (v_store s)) \<and> v_heap s1 = v_heap s \<and> v_finals s1 = v_finals s
     \<and> v_current s1 = v_current s \<and> now s1 = now (s\<lparr>v_world := v_world s1\<rparr>)"
  using on_disk_pair [of "\<lambda>os. list_sessions os (v_store s)" s s1 r] by (simp add: now_def)

text \<open>C16: what a restart makes of the sessions it finds. Every one of them becomes an object; while the
  printer is printing or paused those of its job are adopted, the last one found being the open one,
  and all others are finalised at once, as finished and without a wait for a final frame; in any
  other state all of them are.\<close>

theorem recovery_sorts_sessions:
  assumes "snd (list_sessions (w_os (v_world s)) (v_store s)) = Some xs" and "v_current s = None"
    and "running = (gcode_state (v_tel s) = state_running \<or> gcode_state (v_tel s) = state_pause)"
  shows "v_heap (reconcile s) = v_heap s @ xs
    \<and> (\<exists>fs. v_finals (reconcile s) = v_finals s @ fs
        \<and> map f_ref fs = map fst (filter (\<lambda>(i, x). \<not> (running \<and> s_task x = task_id (v_tel s)))
                                (enumerate (length (v_heap s)) xs))
        \<and> (\<forall>f \<in> set fs. f_end f = state_finish \<and> f_skip f \<and> draining (f_phase f)))
    \<and> (case v_current (reconcile s) of
         None \<Rightarrow> \<forall>x \<in> set xs. \<not> (running \<and> s_task x = task_id (v_tel s))
       | Some i \<Rightarrow> running \<and> length (v_heap s) \<le> i \<and> s_task (obj (reconcile s) i) = task_id (v_tel s))"
proof -
  let ?live = "task_id (v_tel s)"
  obtain s1 r where o: "on_disk (\<lambda>os. list_sessions os (v_store s)) s = (s1, r)" by fastforce
  note l = list_sessions_disk [OF o]
  have rec: "reconcile s = settle running ?live xs s1"
    using o l assms(1,3) by (simp add: reconcile_def Let_def)
  let ?new = "filter (\<lambda>(i, x). \<not> adopted running ?live x) (enumerate (length (v_heap s)) xs)"
  let ?old = "filter (\<lambda>(i, x). adopted running ?live x) (enumerate (length (v_heap s)) xs)"
  let ?fs = "map (\<lambda>(i, x). fresh_final s1 state_finish True i) ?new"
  note eff = settle_effect [of running ?live xs s1]
  have fs: "map f_ref ?fs = map fst ?new" "\<forall>f \<in> set ?fs. f_end f = state_finish \<and> f_skip f \<and> draining (f_phase f)"
    by (auto simp: fresh_final_def)
  have "v_finals (reconcile s) = v_finals s @ ?fs" using eff l by (simp add: rec)
  moreover have h: "v_heap (reconcile s) = v_heap s @ xs" using eff l by (simp add: rec)
  moreover have "case v_current (reconcile s) of
         None \<Rightarrow> \<forall>x \<in> set xs. \<not> adopted running ?live x
       | Some i \<Rightarrow> running \<and> length (v_heap s) \<le> i \<and> s_task (obj (reconcile s) i) = ?live"
  proof (cases "filter (adopted running ?live) xs = []")
    case True
    then show ?thesis using eff l assms(2) by (simp add: rec filter_empty_conv)
  next
    case False
    obtain i x where last_old: "last ?old = (i, x)" by fastforce
    then have m: "(i, x) \<in> set (enumerate (length (v_heap s)) xs)" and a: "adopted running ?live x"
      using last_in_set [OF adopted_enumerate [OF False, of "length (v_heap s)"]] by auto
    have "v_current (reconcile s) = Some i" using eff l False last_old by (simp add: rec)
    moreover have "obj (reconcile s) i = x"
      using m h by (auto simp: obj_def in_set_enumerate_eq nth_append)
    ultimately show ?thesis using a enumerate_index [OF m] by (simp add: adopted_def)
  qed
  ultimately have "v_heap (reconcile s) = v_heap s @ xs
    \<and> (\<exists>fs. v_finals (reconcile s) = v_finals s @ fs \<and> map f_ref fs = map fst ?new
        \<and> (\<forall>f \<in> set fs. f_end f = state_finish \<and> f_skip f \<and> draining (f_phase f)))
    \<and> (case v_current (reconcile s) of
         None \<Rightarrow> \<forall>x \<in> set xs. \<not> adopted running ?live x
       | Some i \<Rightarrow> running \<and> length (v_heap s) \<le> i \<and> s_task (obj (reconcile s) i) = ?live)"
    using fs by blast
  then show ?thesis by (simp only: adopted_def)
qed

text \<open>Recovery needs the job's identity in the very first report with a state. When that report has
  none, the session of the job that is printing is not adopted: it is finalised like a left-over,
  although the print goes on.\<close>

theorem recovery_without_identity:
  assumes "snd (list_sessions (w_os (v_world s)) (v_store s)) = Some xs" and "v_current s = None"
    and "task_id (v_tel s) = []" and "\<forall>x \<in> set xs. s_task x \<noteq> []"
  shows "v_current (reconcile s) = None \<and> length (v_finals (reconcile s)) = length (v_finals s) + length xs"
proof -
  obtain s1 r where o: "on_disk (\<lambda>os. list_sessions os (v_store s)) s = (s1, r)" by fastforce
  note l = list_sessions_disk [OF o]
  obtain running where rec: "reconcile s = settle running [] xs s1"
    using o l assms(1,3) by (simp add: reconcile_def Let_def)
  have n: "filter (adopted running []) xs = []" using assms(4) by (simp add: filter_empty_conv adopted_def)
  have "filter (\<lambda>(i, x). \<not> adopted running [] x) (enumerate k ys) = enumerate k ys" if "set ys \<subseteq> set xs" for k ys
    using that assms(4) by (induction ys arbitrary: k) (auto simp: adopted_def)
  with settle_effect [of running "[]" xs s1] n l assms(2) show ?thesis by (simp add: rec)
qed

section \<open>The end of a job\<close>

text \<open>C4: a finalisation posts at most three times. In any run of the daemon, whatever the endpoint
  answers and in whatever order things happen, each finalisation makes at most three attempts.\<close>

theorem three_attempts_at_most:
  assumes "started s" and "run_of transition s es t"
  shows "length (filter (posting k) es) \<le> 3"
proof -
  have "settled_first s" using started_sound [OF assms(1)] by (simp add: sound_def)
  moreover have "task_posts s k = 3"
    using started_fields [OF assms(1)] by (simp add: task_posts_def upload_attempts_def)
  ultimately show ?thesis
    using run_posts [OF assms(2) _ started_in_range [OF assms(1)], of k] by simp
qed

text \<open>C3: the finalisations use up a measure. As long as no further report comes, a run has at most nine
  finalisation steps for each of them, whatever else happens: no finalisation loops.\<close>

theorem finalisations_terminate:
  assumes "run_of transition s es t" and "\<forall>e \<in> set es. \<not> reporting e"
  shows "length (filter (\<lambda>e. finalising e \<noteq> None) es) \<le> 9 * length (v_finals s)"
  using run_work [OF assms] work_bound [of s] by linarith

text \<open>C5: and none gets stuck: from any state each finalisation can be run to its end by letting time
  pass and taking its own steps, whatever phase it is in.\<close>

theorem finalisations_complete:
  assumes "k < length (v_finals s)"
  shows "\<exists>es t. run_of transition s es t \<and> f_phase (v_finals t ! k) = Finished
    \<and> (\<forall>e \<in> set es. finalising e = Some k \<or> (\<exists>d. e = Advance d))"
  using finalisation_completes [OF assms] .

text \<open>Asking the daemon to stop does not stop an upload from being retried: a wait that was cut
  short is followed by the next attempt at once, not by parking the job, and nothing on disk or in
  the log of processes has changed in between.\<close>

theorem stopping_still_retries:
  assumes "k < length (v_finals s)" and "f_phase (v_finals s ! k) = Waiting rq n due"
    and "n < upload_attempts" and "v_stopping s"
  shows "\<exists>t. transition s (WaitOver k) t \<and> f_phase (v_finals t ! k) = Posting rq (Suc n)
    \<and> v_world t = v_world s \<and> v_metrics t = v_metrics s"
  by (rule exI [of _ "after_wait k rq n s"])
    (use assms in \<open>auto simp: transition_simps after_wait_def set_phase_def\<close>)

section \<open>Counting the outcomes\<close>

definition result_labels :: "string list" where
  "result_labels = [''ok'', ''failed'', ''skipped'', ''local'']"

definition uploads_total :: "metrics \<Rightarrow> nat" where
  "uploads_total m = sum_list (map (\<lambda>r. case m_uploads m r of None \<Rightarrow> 0 | Some n \<Rightarrow> n) result_labels)"

lemma count_upload_total:
  "r \<in> set result_labels \<Longrightarrow> uploads_total (count_upload r m) = Suc (uploads_total m)"
  by (auto simp: uploads_total_def count_upload_def result_labels_def)

lemma uploads_total_other: "m_uploads m' = m_uploads m \<Longrightarrow> uploads_total m' = uploads_total m"
  by (simp add: uploads_total_def)

lemma set_phase_metrics: "v_metrics (set_phase k p s) = v_metrics s"
  by (simp add: set_phase_def)

lemma phase_of_set_phase:
  "k < length (v_finals u) \<Longrightarrow> f_phase (v_finals (set_phase k p u) ! k) = p"
  by (simp add: set_phase_def)

lemma deliver_metrics:
  "v_metrics (deliver_locally i v c x n s) = v_metrics s
   \<or> v_metrics (deliver_locally i v c x n s) = count_upload ''local'' (v_metrics s)"
  by (simp add: deliver_locally_def split_beta fields)

lemma give_up_metrics: "v_metrics (give_up k s) = count_upload ''failed'' (v_metrics s)"
  by (simp add: give_up_def set_phase_metrics fields)

lemma give_up_total: "uploads_total (v_metrics (give_up k s)) = Suc (uploads_total (v_metrics s))"
  by (simp add: give_up_metrics count_upload_total result_labels_def)

definition counted :: "svc \<Rightarrow> nat \<Rightarrow> svc \<Rightarrow> bool" where
  "counted s k t \<longleftrightarrow>
     uploads_total (v_metrics t) = uploads_total (v_metrics s) + (if f_phase (v_finals t ! k) = Finished then 1 else 0)"

lemma counted_render:
  assumes "k < length (v_finals s)"
  shows "counted s k (render k e cover s)
    \<or> c_api_url (v_cfg s) = [] \<and> f_phase (v_finals (render k e cover s) ! k) = Finished
      \<and> v_metrics (render k e cover s) = v_metrics s"
proof (cases rule: render_outcome [where s = s and k = k and e = e and cover = cover])
  case few
  then show ?thesis using assms
    by (simp add: counted_def set_phase_metrics phase_of_set_phase fields count_upload_total result_labels_def)
next
  case (broken w)
  then show ?thesis using assms
    by (simp add: counted_def set_phase_metrics phase_of_set_phase fields count_upload_total result_labels_def)
next
  case (kept f w video cap name)
  let ?u = "deliver_locally (f_ref (v_finals s ! k)) video cover cap name (fst (on_disk f (s\<lparr>v_world := w\<rparr>)))"
  have "v_metrics ?u = v_metrics s \<or> v_metrics ?u = count_upload ''local'' (v_metrics s)"
    using deliver_metrics [of "f_ref (v_finals s ! k)" video cover cap name "fst (on_disk f (s\<lparr>v_world := w\<rparr>))"]
    by (simp add: fields)
  then show ?thesis using assms kept(2)
    by (auto simp: kept(3) counted_def set_phase_metrics phase_of_set_phase fields count_upload_total
        result_labels_def)
next
  case (posting f w video cap name)
  then show ?thesis using assms
    by (simp add: counted_def set_phase_metrics phase_of_set_phase fields)
qed

lemma counted_attempt:
  assumes "k < length (v_finals s)"
  shows "counted s k (attempt k rq n seed r s)"
proof (cases rule: attempt_outcome [where s = s and k = k and rq = rq and n = n and seed = seed and r = r])
  case (posted w)
  have "uploads_total ((count_upload ''ok'' m)\<lparr>m_last_upload := x\<rparr>) = Suc (uploads_total m)" for m x
    using count_upload_total [of "''ok''" m] uploads_total_other [of _ "count_upload ''ok'' m"]
    by (simp add: result_labels_def uploads_total_def)
  with posted assms show ?thesis by (simp add: counted_def set_phase_metrics phase_of_set_phase fields)
next
  case (again w)
  with assms show ?thesis by (simp add: counted_def set_phase_metrics phase_of_set_phase fields)
next
  case (given_up w)
  have "f_phase (v_finals (give_up k (s\<lparr>v_world := w\<rparr>)) ! k) = Finished"
    using give_up_phase [of "s\<lparr>v_world := w\<rparr>" k] assms by (simp add: phase_moved_def)
  with given_up show ?thesis by (simp add: counted_def give_up_total)
qed


end
