(* ===== verification/Settings.thy ===== *)
theory Settings
  imports Daemon
begin

text \<open>
  What stays as it is while a service runs: its configuration with what was derived from it, the
  parked uploads, and the time of the last report, which only a report changes.
\<close>

section \<open>What the bookkeeping leaves alone\<close>

text \<open>
  The interface: a view of the service that does not depend on the sessions and what is done with
  them, on the disk, the telemetry or the metrics. Then it is the same after every block of a
  finalisation, and, when it does not depend on the previews still to be fetched either, after every
  handler of a report.
\<close>

named_theorems keeps_settings "what leaves a view of the settings alone"

locale off_books =
  fixes view :: "svc \<Rightarrow> 'a"
  assumes books [keeps_settings]:
    "view (s\<lparr>v_world := w\<rparr>) = view s" "view (s\<lparr>v_heap := h\<rparr>) = view s" "view (s\<lparr>v_tel := t\<rparr>) = view s"
    "view (s\<lparr>v_current := cu\<rparr>) = view s" "view (s\<lparr>v_reconciled := r\<rparr>) = view s"
    "view (s\<lparr>v_capture := ca\<rparr>) = view s"
    "view (s\<lparr>v_finals := fs\<rparr>) = view s" "view (s\<lparr>v_metrics := m\<rparr>) = view s"
    "view (s\<lparr>v_idle_state := st\<rparr>) = view s" "view (s\<lparr>v_idle_logged := il\<rparr>) = view s"
    "view (s\<lparr>v_idle_notes := n\<rparr>) = view s"
begin

lemma blocks [keeps_settings]:
  "view (fst (on_disk f s)) = view s" "view (count g s) = view s" "view (upd_obj i h s) = view s"
  "view (save_obj i s) = view s" "view (set_phase k p s) = view s" "view (start_finalize i e b s) = view s"
  by (simp_all add: on_disk_fst count_def upd_obj_def save_obj_def set_phase_def start_finalize_def books)

lemma through_disk: "on_disk f s = (t, x) \<Longrightarrow> view t = view s"
  by (metis fst_conv blocks(1))

lemma jobs [keeps_settings]:
  "view (discard_job i s) = view s" "view (park_job i r s) = view s" "view (fst (job_request i v c x n s)) = view s"
  "view (give_up k s) = view s" "view (note_idle st s) = view s" "view (observe s) = view s"
  "view (start_capture i ly s) = view s" "view (track_layer i s) = view s" "view (after_wait k rq m s) = view s"
  by (simp_all add: discard_job_def park_job_def job_request_def give_up_def note_idle_def
      observe_def start_capture_def track_layer_def after_wait_def Let_def split_beta books blocks)

lemma settles [keeps_settings]: "view (settle running live xs s) = view s"
  by (induction xs arbitrary: s) (simp_all add: Let_def books blocks)

lemma reconciles [keeps_settings]: "view (reconcile s) = view s"
  by (auto simp: reconcile_def Let_def settles through_disk split: prod.split option.split)

lemma attempts [keeps_settings]: "view (attempt k rq n seed r s) = view s"
  by (cases rule: attempt_outcome [where s = s and k = k and rq = rq and n = n and seed = seed and r = r])
    (simp_all add: books blocks jobs)

text \<open>Steps that are no report. A recording that is delivered may stop the service, and four events come
  from outside.\<close>

lemma quiet_view:
  assumes "transition s e t" and "\<not> reporting e" and "\<forall>k. e \<noteq> Render k" and "\<forall>i img. e \<noteq> Preview i img"
    and "e \<noteq> Stop" and "\<forall>x. e \<noteq> SpaceIs x" and "\<forall>seed r. e \<noteq> RetryNext seed r"
  shows "view t = view s"
  using assms(1)
  by (cases rule: transition.cases)
    (use assms(2-) in \<open>simp_all add: end_drain_def take_cover_def shoot_def finish_grab_def
      advance_def Let_def split_beta books blocks jobs attempts\<close>)

end

locale untouched = off_books +
  assumes previews [keeps_settings]: "view (s\<lparr>v_previews := p\<rparr>) = view s"
begin

lemma begins [keeps_settings]: "view (fst (begin_job s)) = view s"
  by (auto simp: begin_job_def Let_def books blocks previews through_disk split: prod.split option.split)

lemma handles [keeps_settings]: "view (handle s) = view s"
proof -
  have "view (switch_job s) = view s" by (simp add: switch_job_def books blocks split: option.split)
  then have "view (fst (open_job (switch_job s))) = view s" by (simp add: open_job_def begins split: option.split)
  then show ?thesis
    by (auto simp: handle_def handle_running_def handle_ended_def Let_def books blocks jobs split: prod.split option.split)
qed

lemma message: "view (on_message p s) = view (s\<lparr>v_last_report := now s div second\<rparr>)"
  by (simp add: on_message_def first_pass_def Let_def split_beta books jobs reconciles handles)

lemma transition_view:
  assumes "transition s e t" and "\<not> reporting e" and "\<forall>k. e \<noteq> Render k"
    and "e \<noteq> Stop" and "\<forall>x. e \<noteq> SpaceIs x" and "\<forall>seed r. e \<noteq> RetryNext seed r"
  shows "view t = view s"
proof (cases "\<exists>i img. e = Preview i img")
  case True
  then obtain i img where "t = keep_preview i img (s\<lparr>v_previews := remove1 i (v_previews s)\<rparr>)"
    using assms(1) by (auto elim!: transition.cases)
  then show ?thesis by (simp add: keep_preview_def previews blocks split: option.split)
qed (use quiet_view [OF assms(1-3)] assms(4-) in blast)

end

section \<open>What a run leaves alone\<close>

text \<open>The configuration with what was derived from it at the start, and the parked uploads still to be
  retried.\<close>

definition settings :: "svc \<Rightarrow> (config \<times> store \<times> string \<times> path \<times> (rune \<Rightarrow> bool)) \<times> (string \<times> bool) list \<times> int" where
  "settings s = ((v_cfg s, v_store s, v_font s, v_output s, v_printable s), v_parked s, v_last_report s)"

interpretation kept: untouched settings
  by unfold_locales (simp_all add: settings_def)

lemma settings_outside [keeps_settings]:
  "settings (s\<lparr>v_stopping := b\<rparr>) = settings s" "settings (s\<lparr>v_statfs := x\<rparr>) = settings s"
  by (simp_all add: settings_def)

lemma settings_deliver [keeps_settings]: "settings (deliver_locally i v c x n s) = settings s"
  by (simp add: deliver_locally_def Let_def split_beta keeps_settings)

lemma settings_message:
  "settings (on_message p s) = (fst (settings s), fst (snd (settings s)), now s div second)"
  by (simp add: kept.message) (simp add: settings_def)

lemma settings_render [keeps_settings]: "settings (render k e cover s) = settings s"
  by (cases rule: render_outcome [where s = s and k = k and e = e and cover = cover]) (simp_all add: keeps_settings)

text \<open>Only a report and the retry of a parked upload touch any of it: the one notes its time, the other
  takes the first upload off.\<close>

lemma settings_transition:
  assumes "transition s e t"
  shows "settings t =
    (fst (settings s),
     if \<exists>seed r. e = RetryNext seed r then tl (v_parked s) else v_parked s,
     if reporting e then now s div second else v_last_report s)"
  using assms
proof (cases rule: transition.cases)
  case (message p)
  then show ?thesis by (simp add: settings_message) (simp add: settings_def)
next
  case (retry seed r)
  then show ?thesis by (auto simp: settings_def retry_next_def split: list.splits prod.split)
next
  case (render k elapsed cover)
  then show ?thesis by (simp add: settings_render) (simp add: settings_def)
next
  case (space x)
  then show ?thesis by (simp add: settings_def)
next
  case stop
  then show ?thesis by (simp add: settings_def)
qed (use kept.transition_view [OF assms] in \<open>simp; simp add: settings_def\<close>)+

lemma run_config: "run_of transition s es t \<Longrightarrow> v_cfg t = v_cfg s \<and> v_output t = v_output s"
proof (induction rule: run_of.induct)
  case (run_step s e t es u)
  then show ?case using settings_transition [OF run_step(1)] by (simp add: settings_def)
qed simp

lemma run_last_report:
  "run_of transition s es t \<Longrightarrow> \<forall>e \<in> set es. \<not> reporting e \<Longrightarrow> v_last_report t = v_last_report s"
proof (induction rule: run_of.induct)
  case (run_step s e t es u)
  then show ?case using settings_transition [OF run_step(1)] by (simp add: settings_def)
qed simp

end
