(* ===== verification/Objects.thy ===== *)
theory Objects
  imports Settings
begin

text \<open>
  What a report leaves alone in the sessions the daemon already holds, and what it promises of the
  ones it adds. The locale \<open>object_view\<close> is the interface: a view of a session that neither the
  statistics nor the last layer are part of, and a promise that both ways to a session, opening and
  finding one, keep. Its instances are the counter of frames and the directory.
\<close>

locale object_view =
  fixes view :: "session \<Rightarrow> 'v" and promised :: "store \<Rightarrow> session \<Rightarrow> bool"
  assumes reported_view: "view (record_report t x) = view x"
    and layer_view: "view (x\<lparr>s_last_layer := l\<rparr>) = view x"
    and opened_promised: "snd (create os st tid name tot cur) = Some (x, resumed) \<Longrightarrow> promised st x"
    and promised_by_view: "view y = view x \<Longrightarrow> promised st x \<Longrightarrow> promised st y"
    and found_promised: "snd (list_sessions os st) = Some xs \<Longrightarrow> x \<in> set xs \<Longrightarrow> promised st x"
begin

definition same :: "svc \<Rightarrow> svc \<Rightarrow> bool" where
  "same s t \<longleftrightarrow>
     v_store t = v_store s \<and> length (v_heap s) \<le> length (v_heap t)
     \<and> (\<forall>i < length (v_heap s). view (obj t i) = view (obj s i))
     \<and> (\<forall>i < length (v_heap t). length (v_heap s) \<le> i \<longrightarrow> promised (v_store s) (obj t i))"

lemma store_settings: "settings t = settings s \<Longrightarrow> v_store t = v_store s"
  by (simp add: settings_def)

lemma same_refl: "v_heap t = v_heap s \<Longrightarrow> settings t = settings s \<Longrightarrow> same s t"
  using store_settings [of t s] by (simp add: same_def obj_def)

lemma same_trans:
  assumes "same s t" and "same t u"
  shows "same s u"
proof -
  have "promised (v_store s) (obj u i)" if "i < length (v_heap u)" "length (v_heap s) \<le> i" for i
  proof (cases "i < length (v_heap t)")
    case True
    then have "promised (v_store s) (obj t i)" "view (obj u i) = view (obj t i)"
      using assms that by (simp_all add: same_def)
    then show ?thesis by (rule promised_by_view [rotated])
  next
    case False
    then show ?thesis using assms that by (simp add: same_def)
  qed
  with assms show ?thesis by (auto simp: same_def)
qed

lemma promised_view:
  assumes "same s t" and "i < length (v_heap t)"
  shows "i < length (v_heap s) \<and> view (obj t i) = view (obj s i) \<or> promised (v_store s) (obj t i)"
  using assms by (cases "i < length (v_heap s)") (simp_all add: same_def)

lemma same_append:
  "v_heap t = v_heap s @ xs \<Longrightarrow> settings t = settings s \<Longrightarrow> \<forall>x \<in> set xs. promised (v_store s) x \<Longrightarrow> same s t"
  using store_settings [of t s] by (auto simp: same_def obj_def nth_append)

lemma same_upd: "view (f (obj s i)) = view (obj s i) \<Longrightarrow> same s (upd_obj i f s)"
  by (auto simp: same_def upd_obj_def obj_def) (metis nth_list_update_eq nth_list_update_neq)

lemma same_track: "same s (track_layer i s)"
proof -
  let ?s1 = "upd_obj i (record_report (v_tel s)) s"
  let ?s2 = "upd_obj i (\<lambda>x. x\<lparr>s_last_layer := layer (v_tel s)\<rparr>) ?s1"
  have a: "same s ?s1" "same ?s1 ?s2" by (rule same_upd, simp add: reported_view layer_view)+
  have b: "same ?s2 (start_capture i ly (save_obj i ?s2))" for ly
    by (rule same_refl) (simp_all add: fields keeps_settings)
  show ?thesis
    using a(1) same_trans [OF same_trans [OF a] b] by (simp add: track_layer_def Let_def)
qed

lemma same_begin: "same s (fst (begin_job s))"
proof -
  let ?f = "\<lambda>os. create os (v_store s) (task_id (v_tel s)) (job_name (v_tel s)) (total_layers (v_tel s)) (layer (v_tel s))"
  obtain s1 r where o: "on_disk ?f s = (s1, r)" by fastforce
  have h: "v_heap s1 = v_heap s" and r: "r = snd (?f (w_os (v_world s)))" using on_disk_pair [OF o] by simp_all
  have k: "settings s1 = settings s" by (rule kept.through_disk [OF o])
  show ?thesis
  proof (cases "task_id (v_tel s) = [] \<or> r = None")
    case True
    with o h have "v_heap (fst (begin_job s)) = v_heap s" by (auto simp: begin_job_def Let_def)
    then show ?thesis by (rule same_refl) (rule kept.begins)
  next
    case False
    then obtain x resumed where p: "r = Some (x, resumed)" by auto
    have new: "promised (v_store s) x" using opened_promised r p by metis
    from o h False p have "v_heap (fst (begin_job s)) = v_heap s @ [x]" by (simp add: begin_job_def Let_def)
    then show ?thesis by (rule same_append [OF _ kept.begins]) (use new in simp)
  qed
qed

lemma same_switch: "same s (switch_job s)"
  by (rule same_refl) (simp_all add: switch_job_def start_finalize_def keeps_settings split: option.split)

lemma same_handle: "same s (handle s)"
proof -
  have o: "same s (fst (open_job (switch_job s)))"
    using same_trans [OF same_switch same_begin, of s] same_switch [of s]
    by (simp add: open_job_def split: option.split)
  then have "same s (handle_running s)"
    using same_trans [OF o same_track] by (simp add: handle_running_def split_beta split: option.split)
  moreover have "same s (handle_ended st s)" for st
    by (rule same_refl) (simp_all add: handle_ended_def start_finalize_def fields keeps_settings split: option.split)
  ultimately show ?thesis by (simp add: handle_def Let_def same_refl)
qed

lemma same_reconcile: "same s (reconcile s)"
proof -
  obtain s1 r where o: "on_disk (\<lambda>os. list_sessions os (v_store s)) s = (s1, r)" by fastforce
  have h: "v_heap s1 = v_heap s" and r: "r = snd (list_sessions (w_os (v_world s)) (v_store s))"
    using on_disk_pair [OF o] by simp_all
  have k: "settings s1 = settings s" by (rule kept.through_disk [OF o])
  have a: "same s s1" by (rule same_refl [OF h k])
  show ?thesis
  proof (cases r)
    case None
    with o a show ?thesis by (simp add: reconcile_def Let_def)
  next
    case (Some xs)
    have new: "\<forall>x \<in> set xs. promised (v_store s1) x"
      using found_promised r Some store_settings [OF k] by metis
    have "same s1 (settle running live xs s1)" for running live
      by (rule same_append [OF _ _ new]) (use settle_effect in \<open>blast, simp add: keeps_settings\<close>)
    with o a Some same_trans show ?thesis by (auto simp: reconcile_def Let_def)
  qed
qed

lemma same_message: "same s (on_message p s)"
proof -
  obtain t ok where m: "merge (v_tel s) p = (t, ok)" by fastforce
  let ?s1 = "s\<lparr>v_last_report := now s div second\<rparr>"
  let ?s2 = "observe (?s1\<lparr>v_tel := t\<rparr>)"
  have one: "same s u" if "v_heap u = v_heap s" "v_store u = v_store s" for u
    using that by (simp add: same_def obj_def)
  have "same s ?s2" by (rule one) (simp_all add: observe_def fields)
  moreover have "same ?s2 (?s2\<lparr>v_reconciled := True\<rparr>)" by (rule same_refl) (simp_all add: keeps_settings)
  then have "same ?s2 (first_pass ?s2)"
    using same_trans [OF _ same_reconcile] by (auto simp: first_pass_def same_refl)
  ultimately have "same s (handle (first_pass ?s2))"
    using same_trans same_handle by blast
  moreover have "same s ?s1" by (rule one) simp_all
  ultimately show ?thesis using m by (simp add: on_message_def Let_def)
qed

end

lemma record_report_keeps [simp]: "s_frames (record_report t x) = s_frames x" "s_dir (record_report t x) = s_dir x"
  by (simp_all add: record_report_def Let_def)

text \<open>Where the store keeps the jobs it works on: next to \<open>failed\<close>, never below it.\<close>

definition in_store :: "store \<Rightarrow> session \<Rightarrow> bool" where
  "in_store st x \<longleftrightarrow> (\<exists>n. s_dir x = st_root st @ [n] \<and> n \<noteq> ''failed'')"

lemma job_in_store: "s_dir x = st_root st @ [''job-'' @ n] \<Longrightarrow> in_store st x"
  by (simp add: in_store_def)

lemma created_in_store:
  "snd (create os st tid name tot cur) = Some (x, resumed) \<Longrightarrow> in_store st x"
  by (rule job_in_store [where n = "sanitize tid"])
    (auto simp: create_def load_def fresh_session_def job_dir_def Let_def
      split: prod.splits option.splits if_splits content.splits)

lemma loaded_in_store: "x \<in> set (snd (load_all os (st_root st) es)) \<Longrightarrow> in_store st x"
proof (induction os "st_root st" es rule: load_all.induct)
  case (2 os name d es)
  show ?case
  proof (cases "\<not> d \<or> \<not> has_prefix name ''job-''")
    case True
    with 2 show ?thesis by simp
  next
    case False
    obtain os1 y where l: "load os (st_root st @ [name]) = (os1, y)" by fastforce
    have y: "s_dir z = st_root st @ [name]" if "y = Some z" for z
      using l that by (auto simp: load_def split: prod.splits option.splits content.splits)
    have n: "name \<noteq> ''failed''" using False by (auto simp: has_prefix_def)
    have "x \<in> set (snd (load_all os1 (st_root st) es)) \<or> y = Some x"
      using "2.prems" False l by (auto split: prod.splits option.splits)
    then show ?thesis using "2.hyps"(2) [OF _ l [symmetric] refl] False y n by (auto simp: in_store_def)
  qed
qed simp

lemma listed_in_store:
  assumes "snd (list_sessions os st) = Some xs" and "x \<in> set xs"
  shows "in_store st x"
proof -
  obtain os1 es where r: "os_read_dir os (st_root st) = (os1, Some es)"
    using assms(1) by (auto simp: list_sessions_def split: prod.splits option.splits)
  obtain os2 ys where l: "load_all os1 (st_root st) es = (os2, ys)" by fastforce
  have "set xs = set ys" using assms(1) r l by (auto simp: list_sessions_def)
  then show ?thesis using assms(2) loaded_in_store [of x os1 st es] l by simp
qed

interpretation frames: object_view s_frames "\<lambda>st x. True"
  by unfold_locales simp_all

interpretation dirs: object_view s_dir in_store
  by unfold_locales (simp_all add: created_in_store listed_in_store, simp add: in_store_def)

end
