(* ===== verification/Captures.thy ===== *)
theory Captures
  imports Objects
begin

text \<open>
  The frames. The counter of a session's frames moves only when a grab has succeeded, so the grab in
  flight always writes the frame after the last one held, and a refused upload leaves every file
  where it was.
\<close>

section \<open>Frame counters\<close>

definition frames_same :: "svc \<Rightarrow> svc \<Rightarrow> bool" where
  "frames_same s t \<longleftrightarrow>
     length (v_heap s) \<le> length (v_heap t)
     \<and> (\<forall>i < length (v_heap s). s_frames (obj t i) = s_frames (obj s i))"

lemma frames_same_refl: "v_heap t = v_heap s \<Longrightarrow> frames_same s t"
  by (simp add: frames_same_def obj_def)

lemma frames_same_trans: "frames_same s t \<Longrightarrow> frames_same t u \<Longrightarrow> frames_same s u"
  by (simp add: frames_same_def)

lemma frames_same_upd: "s_frames (f (obj s i)) = s_frames (obj s i) \<Longrightarrow> frames_same s (upd_obj i f s)"
  unfolding frames_same_def upd_obj_def obj_def
  by simp (metis nth_list_update_eq nth_list_update_neq)

lemma frames_message: "frames_same s (on_message p s)"
  using frames.same_message by (simp add: frames_same_def frames.same_def)

section \<open>The grab in flight\<close>

definition numbered :: "svc \<Rightarrow> bool" where
  "numbered s \<longleftrightarrow>
     (\<forall>c d. v_capture s = Some c \<and> cp_dest c = Some d \<longrightarrow>
        (\<exists>dir. d = dir @ [frame_name (s_frames (obj s (cp_ref c)) + 1)]))"

lemma numbered_same:
  "numbered s \<Longrightarrow> refs_svc s \<Longrightarrow> frames_same s t \<Longrightarrow>
     (\<And>c. v_capture t = Some c \<Longrightarrow> cp_dest c \<noteq> None \<Longrightarrow> v_capture s = Some c) \<Longrightarrow> numbered t"
  by (fastforce simp: numbered_def refs_svc_def frames_same_def)

lemma capture_track: "v_capture (track_layer i s) = Some c \<Longrightarrow> cp_dest c \<noteq> None \<Longrightarrow> v_capture s = Some c"
  by (auto simp: track_layer_def Let_def start_capture_def fields split: if_splits)

lemma capture_begin [fields]: "v_capture (fst (begin_job s)) = v_capture s"
  by (cases s rule: begin_cases) (simp_all add: fields)

lemma capture_handle: "v_capture (handle s) = Some c \<Longrightarrow> cp_dest c \<noteq> None \<Longrightarrow> v_capture s = Some c"
proof -
  assume a: "v_capture (handle s) = Some c" "cp_dest c \<noteq> None"
  have sw: "v_capture (switch_job s) = v_capture s"
    by (simp add: switch_job_def start_finalize_def split: option.split)
  obtain s1 cur where o: "open_job (switch_job s) = (s1, cur)" by fastforce
  have s1: "v_capture s1 = v_capture s"
    using o sw capture_begin [of "switch_job s"] by (auto simp: open_job_def split: option.splits)
  have e: "v_capture (handle_ended st s) = v_capture s" for st
    by (simp add: handle_ended_def start_finalize_def note_idle_def split: option.split)
  show ?thesis using a o s1 e capture_track [of _ s1 c]
    by (auto simp: handle_def handle_running_def Let_def split: option.splits if_splits)
qed

lemma capture_message: "v_capture (on_message p s) = Some c \<Longrightarrow> cp_dest c \<noteq> None \<Longrightarrow> v_capture s = Some c"
proof -
  assume a: "v_capture (on_message p s) = Some c" "cp_dest c \<noteq> None"
  obtain t ok where m: "merge (v_tel s) p = (t, ok)" by fastforce
  let ?s2 = "observe (s\<lparr>v_last_report := now s div second, v_tel := t\<rparr>)"
  have s2: "v_capture ?s2 = v_capture s" by (simp add: observe_def fields)
  have "v_capture (reconcile u) = v_capture u" for u
    using settle_effect by (simp add: reconcile_def Let_def split_beta fields split: option.split)
  then have "v_capture (first_pass ?s2) = v_capture s" using s2 by (simp add: first_pass_def)
  then show ?thesis using a m capture_handle [of "first_pass ?s2" c]
    by (auto simp: on_message_def Let_def split: if_splits)
qed

lemma frames_park: "frames_same s (park_job i reason s)"
proof -
  let ?f = "\<lambda>os. let (os', x, ok) = park os (v_store s) (obj s i) reason in (os', x)"
  obtain s1 x where o: "on_disk ?f s = (s1, x)" by fastforce
  have "x = snd (?f (w_os (v_world s)))" and h: "v_heap s1 = v_heap s" using on_disk_pair [OF o] by simp_all
  then have "s_frames x = s_frames (obj s i)" by (simp add: park_def Let_def split_beta)
  then have "s_frames x = s_frames (obj s1 i)" using h by (simp add: obj_def)
  then have "frames_same s1 (upd_obj i (\<lambda>_. x) s1)" by (rule frames_same_upd)
  with frames_same_refl [OF h] have "frames_same s (upd_obj i (\<lambda>_. x) s1)" by (rule frames_same_trans)
  with o show ?thesis by (simp add: park_job_def)
qed

lemma job_capture [fields]:
  "v_capture (discard_job i s) = v_capture s" "v_capture (park_job i r s) = v_capture s"
  "v_capture (deliver_locally i v c x n s) = v_capture s"
  "v_capture (fst (job_request i v c x n s)) = v_capture s"
  by (simp_all add: discard_job_def park_job_def deliver_locally_def job_request_def split_beta fields)

lemma set_phase_capture [fields]: "v_capture (set_phase k p s) = v_capture s"
  by (simp add: set_phase_def)

lemma frames_set_phase: "frames_same s (set_phase k p s)"
  by (rule frames_same_refl) (simp add: set_phase_def)

lemma frames_set_phase_trans: "frames_same s t \<Longrightarrow> frames_same s (set_phase k p t)"
  using frames_same_trans frames_set_phase by blast

lemma frames_park_trans: "frames_same s t \<Longrightarrow> frames_same s (park_job i r t)"
  using frames_same_trans frames_park by blast

lemma frames_deliver: "frames_same s (deliver_locally i v c x n s)"
proof -
  obtain s1 ok where o: "on_disk (\<lambda>os. deliver_files os (v_output s) v c x n) s = (s1, ok)" by fastforce
  have "v_heap s1 = v_heap s" using on_disk_pair [OF o] by simp
  then show ?thesis using o
    by (auto simp: deliver_locally_def fields intro: frames_park_trans frames_same_refl)
qed

lemma frames_finalising:
  assumes "transition s e t" and "finalising e \<noteq> None"
  shows "frames_same s t \<and> v_capture t = v_capture s"
proof -
  have give: "frames_same u (give_up k u) \<and> v_capture (give_up k u) = v_capture u" for u k
    by (simp add: give_up_def fields) (intro frames_set_phase_trans frames_park_trans frames_same_refl, simp add: fields)
  show ?thesis using assms
  proof (cases rule: transition.cases)
    case (render k el cover)
    have h: "v_heap (fst (on_disk f (s\<lparr>v_world := w\<rparr>))) = v_heap s" for f :: "disk \<Rightarrow> disk \<times> bool" and w
      by (simp add: fields)
    show ?thesis
    proof (cases rule: render_outcome [where s = s and k = k and e = el and cover = cover])
      case (broken w)
      have "frames_same s (park_job i ''encode-failed'' (count f (s\<lparr>v_world := w\<rparr>)))" for i f
        by (rule frames_park_trans) (rule frames_same_refl, simp add: fields)
      with broken render show ?thesis by (simp add: fields frames_set_phase_trans)
    next
      case (kept f w video cap name)
      have "frames_same s (deliver_locally i video cover cap name (fst (on_disk f (s\<lparr>v_world := w\<rparr>))))" for i
        by (rule frames_same_trans [OF frames_same_refl [OF h] frames_deliver])
      with kept render show ?thesis by (simp add: fields frames_set_phase_trans)
    next
      case (posting f w video cap name)
      then show ?thesis using render by (auto simp: fields intro!: frames_set_phase_trans frames_same_refl)
    qed (use render in \<open>auto simp: fields intro!: frames_set_phase_trans frames_same_refl\<close>)
  next
    case (attempt k rq n seed r)
    have u: "frames_same s (s\<lparr>v_world := w\<rparr>)" for w by (rule frames_same_refl) simp
    have g: "frames_same s (give_up k (s\<lparr>v_world := w\<rparr>)) \<and> v_capture (give_up k (s\<lparr>v_world := w\<rparr>)) = v_capture s" for w
      using frames_same_trans [OF u [of w]] give [where u = "s\<lparr>v_world := w\<rparr>" and k = k] by simp
    show ?thesis
      by (cases rule: attempt_outcome [where s = s and k = k and rq = rq and n = n and seed = seed and r = r])
        (use attempt g in \<open>auto simp: fields intro!: frames_set_phase_trans frames_same_refl\<close>)
  next
    case (wait_over k rq n due)
    with give [of s k] show ?thesis by (auto simp: after_wait_def fields intro!: frames_set_phase_trans frames_same_refl)
  qed (auto simp: end_drain_def take_cover_def Let_def split_beta fields intro!: frames_set_phase_trans frames_same_refl)
qed

lemma numbered_transition:
  assumes "transition s e t" and "sound s" and "numbered s"
  shows "numbered t"
proof -
  have r: "refs_svc s" using assms(2) by (simp add: sound_def good_def)
  note same = numbered_same [OF assms(3) r]
  show ?thesis
  proof (cases "finalising e = None")
    case False
    with frames_finalising [OF assms(1)] show ?thesis by (auto intro: same)
  next
    case True
    with assms(1) show ?thesis
    proof (cases rule: transition.cases)
      case (message p)
      then show ?thesis using frames_message capture_message by (metis same)
    next
      case (shoot c)
      then show ?thesis by (auto simp: numbered_def shoot_def frame_path_def obj_def)
    next
      case (grab_ends c dest)
      then show ?thesis by (simp add: numbered_def finish_grab_def Let_def fields split_beta)
    qed (auto intro!: same frames_same_refl
        simp: fields keep_preview_def retry_next_def advance_def split: option.splits list.splits prod.splits)
  qed
qed

definition orderly :: "svc \<Rightarrow> bool" where
  "orderly s \<longleftrightarrow> sound s \<and> numbered s"

interpretation shots: kept_invariant transition orderly
  by unfold_locales
    (auto simp: orderly_def intro: numbered_transition dest: lives.kept)

lemma started_orderly: "started s \<Longrightarrow> orderly s"
  using started_sound [of s] started_fields [of s] by (simp add: orderly_def numbered_def)

lemma finish_grab_frames:
  assumes "cp_ref c < length (v_heap s)"
  shows "s_frames (obj (finish_grab c dest s) (cp_ref c)) =
      s_frames (obj s (cp_ref c)) + (if snd (grab (v_world s) (svc_camera s) dest) then 1 else 0)"
proof -
  obtain w ok where g: "grab (v_world s) (svc_camera s) dest = (w, ok)" by fastforce
  have "obj (s\<lparr>v_world := w, v_capture := None\<rparr>) i = obj s i" for i by (simp add: obj_def)
  with g assms show ?thesis by (simp add: finish_grab_def Let_def fields obj_upd keep_frame_def)
qed


section \<open>A refused upload\<close>

text \<open>An upload that failed but may be tried again costs nothing: the job waits ten seconds, twenty
  after the second attempt and forty after the third, and every file is where it was; no counter and
  no session has changed either.\<close>

theorem refused_upload_waits:
  assumes "k < length (v_finals s)" and "t = attempt k rq n seed r s"
    and "f_phase (v_finals t ! k) \<noteq> Finished"
  shows "f_phase (v_finals t ! k) = Waiting rq n (now s + 5 * 2 ^ n * second)
    \<and> (\<forall>q. file_at (w_os (v_world t)) q = file_at (w_os (v_world s)) q)
    \<and> v_heap t = v_heap s \<and> v_metrics t = v_metrics s"
proof (cases rule: attempt_outcome [where s = s and k = k and rq = rq and n = n and seed = seed and r = r])
  case (posted w)
  with assms show ?thesis by (simp add: phase_of_set_phase fields)
next
  case (again w)
  have "file_at (w_os w) q = file_at (w_os (v_world s)) q" for q by (rule views_tree(1) [OF again(1)])
  with again(2) assms(1,2) show ?thesis by (simp add: phase_of_set_phase fields backoff_def)
next
  case (given_up w)
  have "f_phase (v_finals (give_up k (s\<lparr>v_world := w\<rparr>)) ! k) = Finished"
    using give_up_phase [of "s\<lparr>v_world := w\<rparr>" k] assms(1) by (simp add: phase_moved_def)
  with given_up assms(2,3) show ?thesis by simp
qed

section \<open>The same job again\<close>

text \<open>A job that is opened again while its first recording is still being finalised shares the
  directory with it. The new session lives in the very directory the finalisation of the first will
  remove or move away, whatever is captured into it meanwhile.\<close>

theorem reopened_job_shares_directory:
  assumes "begin_job s = (t, Some i)" and "f \<in> set (v_finals s)" and "f_ref f < length (v_heap s)"
    and "s_dir (obj s (f_ref f)) = job_dir (v_store s) (task_id (v_tel s))"
  shows "i \<noteq> f_ref f \<and> s_dir (obj t i) = s_dir (obj t (f_ref f)) \<and> f \<in> set (v_finals t)
    \<and> discard (w_os (v_world t)) (obj t (f_ref f)) = discard (w_os (v_world t)) (obj t i)"
proof (cases s rule: begin_cases)
  case (opened g x resumed p)
  have d: "s_dir x = job_dir (v_store s) (task_id (v_tel s))"
    using opened(3) unfolding opened(2)
    by (auto simp: create_def load_def fresh_session_def Let_def split: prod.splits option.splits if_splits content.splits)
  have i: "i = length (v_heap s)" and h: "v_heap t = v_heap s @ [x]" and fin: "v_finals t = v_finals s"
    using opened(1,4) assms(1) by (simp_all add: fields)
  have "obj t i = x" "obj t (f_ref f) = obj s (f_ref f)"
    using i h assms(3) by (simp_all add: obj_def nth_append)
  then show ?thesis using d i fin assms(2,3,4) by (simp add: discard_def)
qed (use assms(1) in simp_all)

end
