(* ===== verification/Restarts.thy ===== *)
theory Restarts
  imports Daemon
begin

text \<open>
  One life of the daemon after another, on the same disk. A life begins with \<open>New\<close> and the start of
  \<open>Run\<close> and is cut off anywhere; the next finds the disk as it was left, and nothing else. That what
  a start finds on the disk is consistent is then no assumption any more.
\<close>

section \<open>The disk through a start\<close>

lemma docs_new_store [docs]: "docs_ok P os \<Longrightarrow> docs_ok P (fst (new_store os base))"
  by (simp add: new_store_def Let_def split_beta docs)

lemma docs_resolve_font [docs]:
  "docs_ok P (w_os w) \<Longrightarrow> docs_ok P (w_os (fst (resolve_font to_path ttf c base w)))"
proof -
  assume d: "docs_ok P (w_os w)"
  obtain w1 info where w1: "(if c_overlay_font c = [] then (w, None)
      else on_os (\<lambda>os. os_stat os (to_path (c_overlay_font c))) w) = (w1, info)"
    by fastforce
  have d1: "docs_ok P (w_os w1)"
  proof (cases "c_overlay_font c = []")
    case True
    with w1 d show ?thesis by simp
  next
    case False
    with w1 have "on_os (\<lambda>os. os_stat os (to_path (c_overlay_font c))) w = (w1, info)" by simp
    from docs_on_os_pair [OF this docs_stat d] show ?thesis .
  qed
  have "docs_ok P (fst (bundled_font ttf (w_os w1) base))"
    using d1 docs_stat [OF d1, of "base @ [bundled_font_name]"]
    by (simp add: bundled_font_def Let_def split_beta docs)
  then have "docs_ok P (w_os (fst (on_os (\<lambda>os. bundled_font ttf os base) w1)))" by (rule docs_on_os)
  with w1 d1 show ?thesis by (simp add: resolve_font_def Let_def split_beta)
qed

lemma docs_new_service:
  assumes "docs_ok P (w_os w)" and "new_service to_path printable ttf c w = (w', r)"
  shows "docs_ok P (w_os w') \<and> (\<forall>s. r = Some s \<longrightarrow> v_world s = w')"
proof -
  obtain w1 st where w1: "on_os (\<lambda>os. new_store os (to_path (c_staging c))) w = (w1, st)" by fastforce
  from docs_on_os_pair [OF this docs_new_store assms(1)] have d1: "docs_ok P (w_os w1)" .
  show ?thesis
  proof (cases st)
    case None
    with w1 d1 assms(2) show ?thesis by (auto simp: new_service_def)
  next
    case (Some store)
    obtain w2 font where w2: "(if c_overlay c then resolve_font to_path ttf c (to_path (c_staging c)) w1 else (w1, []))
        = (w2, font)"
      by fastforce
    have "docs_ok P (w_os w2)"
      using w2 d1 docs_resolve_font [OF d1, of to_path ttf c "to_path (c_staging c)"] by (auto split: if_splits)
    with w1 Some w2 assms(2) show ?thesis by (auto simp: new_service_def Let_def)
  qed
qed

lemma docs_detect [docs]: "docs_ok P (w_os w) \<Longrightarrow> docs_ok P (w_os (fst (detect w look_path t)))"
  by (simp add: detect_def exec_def Let_def)

lemma docs_staging_writable [docs]: "docs_ok P os \<Longrightarrow> docs_ok P (fst (staging_writable os base))"
  by (simp add: staging_writable_def Let_def split_beta docs)

lemma docs_shoot_still [docs]:
  "docs_ok P (w_os w) \<Longrightarrow> docs_ok P (w_os (fst (shoot_still net w cam dest frame)))"
proof -
  assume d: "docs_ok P (w_os w)"
  obtain w1 ok where g: "grab w cam dest = (w1, ok)" by fastforce
  have d1: "docs_ok P (w_os w1)" using docs_grab [OF d, of cam dest] g by simp
  have "docs_ok P (w_os (fst (on_os (\<lambda>os. os_stat os p) w1)))" for p
    by (rule docs_on_os) (rule docs_stat [OF d1])
  with g d1 show ?thesis by (simp add: shoot_still_def split_beta split: option.split)
qed

lemma docs_grab_check [docs]:
  "docs_ok P (w_os w) \<Longrightarrow> docs_ok P (w_os (fst (grab_check net w cam frame)))"
proof -
  assume d: "docs_ok P (w_os w)"
  have mk: "docs_ok P (w_os (fst (on_os (\<lambda>os. os_mkdir_all os p) w)))" for p
    by (rule docs_on_os) (rule docs_mkdir_all [OF d])
  have rm: "docs_ok P (w_os (fst (on_os (\<lambda>os. os_remove_all os p) x)))" if "docs_ok P (w_os x)" for p and x :: "'a world"
    by (rule docs_on_os) (rule docs_remove_all [OF that])
  note still = docs_shoot_still [OF mk, where cam = cam and net = net]
  show ?thesis
  proof (cases frame)
    case None
    show ?thesis
    proof (cases "pn_temp net")
      case (Some dir)
      from rm [OF still, of dir dir "dir @ [''probe.jpg'']" None] None Some
      show ?thesis by (simp add: grab_check_def Let_def split_beta)
    qed (use None d in \<open>simp add: grab_check_def\<close>)
  next
    case (Some dest)
    then show ?thesis using mk still by (simp add: grab_check_def split_beta)
  qed
qed

lemma docs_ask_printer [docs]:
  "docs_ok P (w_os w) \<Longrightarrow> docs_ok P (w_os (fst (ask_printer net w host cam frame)))"
  by (simp add: ask_printer_def Let_def split_beta docs_grab_check split: option.split)

lemma docs_preflight:
  assumes "docs_ok P (w_os (v_world s))"
  shows "docs_ok P (w_os (v_world (fst (preflight look_path net why s))))"
proof -
  let ?w1 = "fst (detect (v_world s) look_path (svc_tools s))"
  have d1: "docs_ok P (w_os ?w1)" by (rule docs_detect [OF assms])
  have d2: "docs_ok P (w_os (fst (on_os (\<lambda>os. staging_writable os (st_root (v_store s))) ?w1)))"
    by (rule docs_on_os) (rule docs_staging_writable [OF d1])
  have "v_world (fst (caption_checks sp x)) = v_world x" for sp x
    by (simp add: caption_checks_def overlay_checks_def tail_checks_def intro_checks_def split_beta)
  then show ?thesis using d2
    by (simp add: preflight_def printer_checks_def Let_def split_beta docs_ask_printer)
qed

lemma docs_sweep_entries: "docs_ok P os \<Longrightarrow> docs_ok P (fst (sweep_entries os failed cutoff es))"
proof (induction os failed cutoff es rule: sweep_entries.induct)
  case (2 os failed cutoff name d es)
  obtain os1 info where s: "os_stat os (failed @ [name]) = (os1, info)" by fastforce
  have d1: "docs_ok P os1" using docs_stat [OF "2.prems", of "failed @ [name]"] s by simp
  show ?case
  proof (cases info)
    case None
    with s d1 "2.IH"(1) [OF refl s [symmetric]] show ?thesis by simp
  next
    case (Some im)
    obtain sz mtime where im: "im = (sz, mtime)" by fastforce
    obtain os2 ok where r: "os_remove_all os1 (failed @ [name]) = (os2, ok)" by fastforce
    have d2: "docs_ok P os2" using docs_remove_all [OF d1, of "failed @ [name]"] r by simp
    show ?thesis
      using s Some im r d1 d2 "2.IH"(2) [OF refl s [symmetric] Some im [symmetric]]
        "2.IH"(3) [OF refl s [symmetric] Some im [symmetric] _ refl r [symmetric]]
      by (simp add: split_beta)
  qed
qed simp

lemma docs_sweep [docs]: "docs_ok P os \<Longrightarrow> docs_ok P (fst (sweep_failed os st ttl))"
  using docs_read_dir [of P os "st_failed st"]
  by (auto simp: sweep_failed_def docs_sweep_entries split: prod.split option.split)

lemma docs_start_run:
  assumes "docs_ok P (w_os (v_world s))" and "start_run look_path net why s = (t, ok)"
  shows "docs_ok P (w_os (v_world t))"
proof -
  obtain s1 cs fit where p: "preflight look_path net why s = (s1, cs, fit)" using prod_cases3 by blast
  have d1: "docs_ok P (w_os (v_world s1))" using docs_preflight [OF assms(1), of look_path net why] p by simp
  let ?sweep = "on_disk (\<lambda>os. sweep_failed os (v_store s1) (c_failed_ttl (v_cfg s1))) s1"
  have d2: "docs_ok P (w_os (v_world (fst ?sweep)))"
    by (simp add: on_disk_fst docs_on_os docs_sweep d1)
  have "docs_ok P (w_os (v_world (fst (on_disk (\<lambda>os. os_read_dir os p) (fst ?sweep)))))" for p
    by (simp add: on_disk_fst [of _ "fst ?sweep"] docs_on_os docs_read_dir d2)
  with p d1 d2 assms(2) show ?thesis
    by (auto simp: start_run_def Let_def split_beta split: if_splits)
qed

section \<open>Lives\<close>

text \<open>A start that succeeds, on the disk and with the processes of a world.\<close>

definition boots :: "session world \<Rightarrow> svc \<Rightarrow> bool" where
  "boots w s \<longleftrightarrow>
     (\<exists>to_path printable ttf c w' s0 space look_path net why.
        new_service to_path printable ttf c w = (w', Some s0)
        \<and> start_run look_path net why (s0\<lparr>v_statfs := space\<rparr>) = (s, True))"

lemma boots_evaluated:
  assumes "case snd (new_service to_path printable ttf c w) of None \<Rightarrow> False | Some s \<Rightarrow> True"
    and "snd (start_run look_path net why ((the (snd (new_service to_path printable ttf c w)))\<lparr>v_statfs := space\<rparr>)) = True"
  shows "boots w (fst (start_run look_path net why
    ((the (snd (new_service to_path printable ttf c w)))\<lparr>v_statfs := space\<rparr>)))"
proof -
  have "snd (new_service to_path printable ttf c w) = Some (the (snd (new_service to_path printable ttf c w)))"
    using assms(1) by (auto split: option.splits)
  from result_pair [OF this] result_pair [OF assms(2)] show ?thesis unfolding boots_def by blast
qed

text \<open>
  The worlds a start can find: a disk no session was ever saved on; the disk of a life that was cut
  off after any run; and that of a start that was refused, by \<open>New\<close> or by the checks. Each with any
  clock, any outcomes of the calls to come and any processes. A crash in the middle of a step is
  the step whose remaining calls fail. The lives are those of \<open>Run\<close>: the session of a timed capture
  has frames and no layers.
\<close>

inductive lived :: "session world \<Rightarrow> bool" where
  never: "docs_ok (\<lambda>x. False) (w_os w) \<Longrightarrow> lived w"
| cut_off: "lived w \<Longrightarrow> boots w s \<Longrightarrow> run_of transition s es t \<Longrightarrow>
    tree (w_os w') = tree (w_os (v_world t)) \<Longrightarrow> lived w'"
| refused: "lived w \<Longrightarrow> new_service to_path printable ttf c w = (w1, r) \<Longrightarrow>
    tree (w_os w') = tree (w_os w1) \<Longrightarrow> lived w'"
| unfit: "lived w \<Longrightarrow> new_service to_path printable ttf c w = (w1, Some s0) \<Longrightarrow>
    start_run look_path net why (s0\<lparr>v_statfs := space\<rparr>) = (s, False) \<Longrightarrow>
    tree (w_os w') = tree (w_os (v_world s)) \<Longrightarrow> lived w'"

lemma boots_docs: "boots w s \<Longrightarrow> docs_ok P (w_os w) \<Longrightarrow> docs_ok P (w_os (v_world s))"
proof -
  assume "boots w s" and d: "docs_ok P (w_os w)"
  then obtain to_path printable ttf c w' s0 space look_path net why
    where n: "new_service to_path printable ttf c w = (w', Some s0)"
      and r: "start_run look_path net why (s0\<lparr>v_statfs := space\<rparr>) = (s, True)"
    by (auto simp: boots_def)
  have "docs_ok P (w_os (v_world (s0\<lparr>v_statfs := space\<rparr>)))" using docs_new_service [OF d n] by simp
  from docs_start_run [OF this r] show ?thesis .
qed

lemma boots_started: "boots w s \<Longrightarrow> docs_ok wf_session (w_os w) \<Longrightarrow> started s"
  using boots_docs [of w s wf_session] unfolding boots_def started_def by blast

lemma lived_docs: "lived w \<Longrightarrow> docs_ok wf_session (w_os w)"
proof (induction rule: lived.induct)
  case (never w)
  have "doc_node wf_session n" if "doc_node (\<lambda>x. False) n" for n
    using that by (cases n) (auto simp: content_ok_def)
  with never show ?case by (auto simp: docs_ok_def nodes_ok_def)
next
  case (cut_off w s es t w')
  then have "sound t" using boots_started started_sound_run by blast
  then have "docs_ok wf_session (w_os (v_world t))" by (simp add: sound_def good_docs)
  with cut_off.hyps show ?case by (simp add: docs_ok_def)
next
  case (refused w to_path printable ttf c w1 r w')
  from docs_new_service [OF refused.IH refused.hyps(2)] refused.hyps(3) show ?case by (simp add: docs_ok_def)
next
  case (unfit w to_path printable ttf c w1 s0 look_path net why space s w')
  have "docs_ok wf_session (w_os (v_world (s0\<lparr>v_statfs := space\<rparr>)))"
    using docs_new_service [OF unfit.IH unfit.hyps(2)] by simp
  from docs_start_run [OF this unfit.hyps(3)] unfit.hyps(4) show ?case by (simp add: docs_ok_def)
qed

text \<open>C7: nothing is assumed about the disk a daemon starts on but its history. After any number of earlier
  lives, each cut off at any point, and of starts that were refused, a start is one the properties
  of runs speak of; and all along its run every session in memory, and every one that can be read
  back from the disk wherever it lies, has as many layers as frames, all of them positive, and no
  pauses.\<close>

theorem consistent_across_lives:
  assumes "lived w" and "boots w s" and "run_of transition s es t"
    and "x \<in> set (v_heap t) \<or> snd (load (w_os (v_world t)) dir) = Some x"
  shows "started s \<and> s_frames x = int (length (s_layers x)) \<and> (\<forall>ly \<in> set (s_layers x). 0 < ly) \<and> s_pauses x = 0"
proof -
  have st: "started s" using boots_started [OF assms(2) lived_docs [OF assms(1)]] .
  then have "sound t" using started_sound_run assms(3) by blast
  then have g: "good t" by (simp add: sound_def)
  have "wf_session x" using assms(4)
  proof
    assume "snd (load (w_os (v_world t)) dir) = Some x"
    then show ?thesis by (rule wf.load_ok [OF good_docs [OF g]])
  qed (use g in \<open>simp add: good_def wf_svc_def\<close>)
  with st show ?thesis by (simp add: wf_session_def)
qed

end
