(* ===== verification/Sample_Run.thy ===== *)
theory Sample_Run
  imports Captures Preview Restarts
begin

text \<open>
  A concrete daemon and the beginning of a run of it: it starts on an empty staging tree, is told of
  a print, and takes its first frame. The properties of runs are applied to it here.
\<close>

section \<open>A start\<close>

definition boot_world :: "session world" where
  "boot_world =
     \<lparr>w_os = \<lparr>tree = [([], Dir 0)], clock = 100, zone = 0, tick = 0, outcomes = (\<lambda>n. Works)\<rparr>,
      w_runs = (\<lambda>n. Run True ''640x480'' (Some ''jpg'')), w_next = 0, w_log = []\<rparr>"

definition quiet_net :: printer_net where
  "quiet_net = \<lparr>pn_dial = (\<lambda>p. Some ''refused''), pn_handshake = TimedOut, pn_temp = None, pn_why = (\<lambda>c. ''e'')\<rparr>"

definition booting :: "session world \<times> svc option" where
  "booting = new_service (\<lambda>p. [''staging'']) (\<lambda>r. True) ''ttf'' sample_config boot_world"

definition boot :: svc where "boot = the (snd booting)"

definition booted :: svc where
  "booted = fst (start_run (\<lambda>b. b) quiet_net ''e'' (boot\<lparr>v_statfs := None\<rparr>))"

lemma booted_boots: "boots boot_world booted"
proof -
  have "case snd booting of None \<Rightarrow> False | Some s \<Rightarrow> True" by code_simp
  moreover have "snd (start_run (\<lambda>b. b) quiet_net ''e'' ((the (snd booting))\<lparr>v_statfs := None\<rparr>)) = True" by code_simp
  ultimately show ?thesis unfolding booted_def boot_def booting_def by (rule boots_evaluated)
qed

lemma booted_started: "started booted"
  by (rule boots_started [OF booted_boots]) code_simp

section \<open>The first report\<close>

definition printing :: bytes where
  \<open>printing = ''{"print":{"gcode_state":"RUNNING","task_id":"42","layer_num":"3"}}''\<close>

definition printing_section :: view where
  "printing_section =
     go_map [(''gcode_state'', JStr ''RUNNING''), (''task_id'', JStr ''42''), (''layer_num'', JStr ''3'')]"

lemma printing_section: "report_section printing = Some printing_section"
  unfolding printing_section_def by (rule report_section_members) code_simp

definition printing_state :: tstate where
  "printing_state = \<lparr>tfields = printing_section\<rparr>"

lemma printing_merged: "merge new_state printing = (printing_state, True)"
  by (simp add: merge_def printing_section merge_section_def announces_new_job_def printing_section_def
      printing_state_def new_state_def go_map_def id_keys_def string_field_def task_id_def
      forget_previous_job_def)

lemma printing_fields:
  "gcode_state printing_state = state_running" "task_id printing_state = ''42''" "layer printing_state = 3"
  by (simp_all add: printing_state_def printing_section_def go_map_def gcode_state_def string_field_def
      task_id_def id_keys_def state_running_def layer_def int_field_def atoi_def parse_nat_def is_digit_def
      byte_def in_int64_def)

lemma booted_books:
  "v_heap booted = []" "v_current booted = None" "v_capture booted = None" "v_finals booted = []"
  "\<not> v_reconciled booted" "v_tel booted = new_state" "v_statfs booted = None"
proof -
  have "case snd booting of None \<Rightarrow> False | Some s \<Rightarrow> True" by code_simp
  then have "snd booting = Some boot" by (auto simp: boot_def split: option.splits)
  then have "booting = (fst booting, Some boot)" by (rule result_pair)
  from new_service_fields [OF this [unfolded booting_def]]
  show "v_heap booted = []" "v_current booted = None" "v_capture booted = None" "v_finals booted = []"
    "\<not> v_reconciled booted" "v_tel booted = new_state" "v_statfs booted = None"
    by (simp_all add: booted_def start_run_books)
qed

text \<open>The state the lifecycle sees: the report merged, nothing found on disk.\<close>

definition seen :: svc where
  "seen = (observe (booted\<lparr>v_last_report := now booted div second, v_tel := printing_state\<rparr>))\<lparr>v_reconciled := True\<rparr>"

definition seen_world :: "session world" where
  "seen_world = fst (on_os (\<lambda>os. list_sessions os (v_store booted)) (v_world booted))"

lemma observe_books:
  "v_world (observe s) = v_world s" "v_store (observe s) = v_store s" "v_heap (observe s) = v_heap s"
  "v_current (observe s) = v_current s" "v_capture (observe s) = v_capture s" "v_tel (observe s) = v_tel s"
  "v_finals (observe s) = v_finals s" "v_statfs (observe s) = v_statfs s" "v_cfg (observe s) = v_cfg s"
  by (simp_all add: observe_def fields)

lemma seen_books:
  "v_world seen = v_world booted" "v_store seen = v_store booted" "v_heap seen = []" "v_current seen = None"
  "v_capture seen = None" "v_tel seen = printing_state" "v_finals seen = []" "v_statfs seen = None"
  by (simp_all add: seen_def observe_books booted_books)

lemma nothing_listed: "snd (list_sessions (w_os (v_world booted)) (v_store booted)) = Some []"
proof -
  have "(case snd (list_sessions (w_os (v_world booted)) (v_store booted)) of Some [] \<Rightarrow> True | _ \<Rightarrow> False)"
    by code_simp
  then show ?thesis by (auto split: option.splits list.splits)
qed

lemma seen_reconciled: "reconcile seen = seen\<lparr>v_world := seen_world\<rparr>"
proof -
  obtain s1 r where o: "on_disk (\<lambda>os. list_sessions os (v_store seen)) seen = (s1, r)" by fastforce
  then have "s1 = seen\<lparr>v_world := seen_world\<rparr>" "r = Some []"
    using on_disk_pair [OF o] nothing_listed by (simp_all add: seen_books seen_world_def)
  with o show ?thesis by (simp add: reconcile_def Let_def)
qed

lemma created:
  "\<exists>x. snd (create (w_os seen_world) (v_store booted) ''42'' (job_name printing_state)
       (total_layers printing_state) 3) = Some (x, False) \<and> s_last_layer x = - 1 \<and> s_frames x = 0"
proof -
  have "job_name printing_state = []" "total_layers printing_state = 0"
    by (simp_all add: job_name_def total_layers_def string_field_def int_field_def printing_state_def
        printing_section_def go_map_def)
  moreover have "case snd (create (w_os seen_world) (v_store booted) ''42'' [] 0 3) of
      None \<Rightarrow> False | Some (x, resumed) \<Rightarrow> \<not> resumed \<and> s_last_layer x = - 1 \<and> s_frames x = 0"
    by code_simp
  ultimately show ?thesis by (auto split: option.splits prod.splits)
qed

definition told :: svc where "told = on_message printing booted"

lemma first_pass_seen:
  "first_pass (observe (booted\<lparr>v_last_report := now booted div second, v_tel := printing_state\<rparr>)) = reconcile seen"
proof -
  have "gcode_state (v_tel (observe (booted\<lparr>v_last_report := now booted div second, v_tel := printing_state\<rparr>))) \<noteq> []"
    by (simp add: observe_books printing_fields state_running_def)
  then show ?thesis by (simp add: first_pass_def seen_def observe_def count_def booted_books)
qed

lemma told_handled: "told = handle (reconcile seen)"
  using first_pass_seen by (simp add: told_def on_message_def Let_def booted_books printing_merged)

text \<open>Told of the print, the daemon has opened its session and started a grab.\<close>

lemma told_state:
  "length (v_heap told) = 1 \<and> s_frames (obj told 0) = 0
   \<and> v_capture told = Some \<lparr>cp_ref = 0, cp_layer = 3, cp_dest = None\<rparr>"
proof -
  let ?s = "seen\<lparr>v_world := seen_world\<rparr>"
  obtain s4 cur where b: "begin_job ?s = (s4, cur)" by fastforce
  obtain x where x: "snd (create (w_os seen_world) (v_store booted) ''42'' (job_name printing_state)
       (total_layers printing_state) 3) = Some (x, False)" "s_last_layer x = - 1" "s_frames x = 0"
    using created by blast
  have some: "snd (begin_job ?s) \<noteq> None"
    using x(1) by (simp add: begin_job_def Let_def split_beta on_disk_snd seen_books printing_fields)
  have s4: "v_heap s4 = [x] \<and> v_capture s4 = None \<and> v_tel s4 = printing_state \<and> v_statfs s4 = None \<and> cur = Some 0"
  proof (cases ?s rule: begin_cases)
    case (opened f y resumed p)
    have "y = x" using opened(2,3) x(1) by (simp add: seen_books printing_fields)
    then show ?thesis using opened b by (auto simp: fields seen_books)
  qed (use some in auto)
  have sw: "switch_job ?s = ?s" by (simp add: switch_job_def seen_books)
  have "open_job ?s = (s4, Some 0)" using b s4 by (simp add: open_job_def seen_books)
  then have t: "told = track_layer 0 s4"
    by (simp add: told_handled seen_reconciled handle_def handle_running_def sw seen_books printing_fields)
  have "0 < length (v_heap s4)" using s4 by simp
  note eff = track_layer_effect [OF this]
  have "frames.same s4 told" unfolding t by (rule frames.same_track)
  then have "s_frames (obj told 0) = s_frames x" using s4 by (simp add: frames.same_def obj_def)
  moreover have "\<not> low_space s4" using s4 by (simp add: low_space_def free_bytes_def)
  ultimately show ?thesis
    using eff s4 x by (simp add: t fields obj_def changed_layer_def printing_fields)
qed

lemma run_told: "run_of transition booted [Message printing] told"
  by (simp add: told_def transition.message)

section \<open>The properties on it\<close>

lemma told_first: "0 < length (v_heap told)" "obj told 0 \<in> set (v_heap told)"
  using told_state by (simp_all add: obj_def)

theorem sessions_consistent_witness:
  "s_frames (obj told 0) = int (length (s_layers (obj told 0))) \<and> s_pauses (obj told 0) = 0"
  using sessions_consistent [OF booted_started run_told told_first(2)] by blast

theorem daemon_refines_lives_witness:
  "run_of life_step (life_of booted) [Message printing] (life_of told) \<and> life_of booted = (\<lambda>i. Absent)"
  using daemon_refines_lives [OF booted_started run_told run_of.run_stop] by blast

theorem one_end_each_witness: "distinct (map f_ref (v_finals told))"
  using one_end_each [OF booted_started run_told] by blast


theorem three_attempts_at_most_witness: "length (filter (posting 0) [Message printing]) \<le> 3"
  by (rule three_attempts_at_most [OF booted_started run_told])

text \<open>The print has ended and its session is being finalised.\<close>

definition ending :: svc where
  "ending = told\<lparr>v_current := None, v_capture := None,
     v_finals := [\<lparr>f_ref = 0, f_end = state_finish, f_skip = True, f_phase = Rendering 0 None\<rparr>]\<rparr>"

theorem finalisations_terminate_witness:
  "length (filter (\<lambda>e. finalising e \<noteq> None) [Render 0]) \<le> 9 * length (v_finals ending)"
proof -
  have "transition ending (Render 0) (render 0 0 None ending)"
    by (simp add: transition_simps) (simp add: ending_def)
  then show ?thesis by (intro finalisations_terminate) auto
qed

theorem finalisations_complete_witness:
  "\<exists>es t. run_of transition ending es t \<and> f_phase (v_finals t ! 0) = Finished"
proof -
  have "0 < length (v_finals ending)" by (simp add: ending_def)
  from finalisations_complete [OF this] show ?thesis by blast
qed


definition retrying :: "request \<Rightarrow> svc" where
  "retrying rq = told\<lparr>v_stopping := True,
     v_finals := [\<lparr>f_ref = 0, f_end = state_finish, f_skip = True, f_phase = Waiting rq 1 500\<rparr>]\<rparr>"

theorem stopping_still_retries_witness:
  "\<exists>t. transition (retrying sample_request) (WaitOver 0) t
     \<and> f_phase (v_finals t ! 0) = Posting sample_request (Suc 1)"
  using stopping_still_retries [of 0 "retrying sample_request" sample_request 1 500]
  by (auto simp: retrying_def upload_attempts_def)

definition posting_state :: svc where
  "posting_state = told\<lparr>v_finals :=
     [\<lparr>f_ref = 0, f_end = state_finish, f_skip = True, f_phase = Posting sample_request 1\<rparr>]\<rparr>"

theorem refused_upload_waits_witness:
  "\<exists>t :: svc. f_phase (v_finals t ! 0) = Waiting sample_request 1 (now posting_state + 5 * 2 ^ 1 * second)
     \<and> v_heap t = v_heap posting_state"
proof -
  let ?t = "attempt 0 sample_request 1 None (Reply 200 []) posting_state"
  have l: "0 < length (v_finals posting_state)" by (simp add: posting_state_def)
  have "f_phase (v_finals ?t ! 0) \<noteq> Finished"
    by (simp add: attempt_def on_disk_def on_os_def post_def set_phase_def posting_state_def)
  from refused_upload_waits [OF l refl this]
  have "f_phase (v_finals ?t ! 0) = Waiting sample_request 1 (now posting_state + 5 * 2 ^ 1 * second)
      \<and> v_heap ?t = v_heap posting_state" by simp
  then show ?thesis by (rule exI [of _ ?t])
qed

text \<open>The grab of the first frame.\<close>

definition shooting :: svc where
  "shooting = shoot \<lparr>cp_ref = 0, cp_layer = 3, cp_dest = None\<rparr> told"


text \<open>A restart, and the other reports.\<close>

definition restarted :: svc where
  "restarted = seen\<lparr>v_world := boot_world\<lparr>w_os := sample_disk\<rparr>, v_store := sample_store\<rparr>"

theorem recovery_sorts_sessions_witness:
  "\<exists>xs. length xs = 1 \<and> v_heap (reconcile restarted) = v_heap restarted @ xs"
proof -
  have "case snd (list_sessions sample_disk sample_store) of None \<Rightarrow> False | Some xs \<Rightarrow> length xs = 1"
    by code_simp
  then obtain xs where xs: "snd (list_sessions sample_disk sample_store) = Some xs" "length xs = 1"
    by (auto split: option.splits)
  have "snd (list_sessions (w_os (v_world restarted)) (v_store restarted)) = Some xs"
    using xs(1) by (simp add: restarted_def)
  moreover have "v_current restarted = None" by (simp add: restarted_def seen_books)
  ultimately show ?thesis using recovery_sorts_sessions [OF _ _ refl] xs(2) by blast
qed

theorem recovery_without_identity_witness:
  "v_current (reconcile (restarted\<lparr>v_tel := new_state\<rparr>)) = None"
proof -
  let ?s = "restarted\<lparr>v_tel := new_state\<rparr>"
  have "case snd (list_sessions sample_disk sample_store) of None \<Rightarrow> False
      | Some xs \<Rightarrow> list_all (\<lambda>x. s_task x \<noteq> []) xs"
    by code_simp
  then obtain xs where xs: "snd (list_sessions sample_disk sample_store) = Some xs" "\<forall>x \<in> set xs. s_task x \<noteq> []"
    by (auto simp: list_all_iff split: option.splits)
  have "snd (list_sessions (w_os (v_world ?s)) (v_store ?s)) = Some xs"
    using xs(1) by (simp add: restarted_def)
  moreover have "v_current ?s = None" by (simp add: restarted_def seen_books)
  moreover have "task_id (v_tel ?s) = []"
    by (simp add: new_state_def task_id_def id_keys_def string_field_def)
  ultimately show ?thesis using recovery_without_identity xs(2) by blast
qed


section \<open>The properties of the start\<close>

definition bare_support :: support where
  "bare_support = \<lparr>sup_ffmpeg = ''/bin/ffmpeg'', sup_ffprobe = [], sup_filters = [''tpad'']\<rparr>"

theorem unavailable_filters_given_up_witness:
  "eo_overlay (job_options (v_cfg (fst (caption_checks bare_support booted)))
     (v_font (fst (caption_checks bare_support booted))) sample_session None None) = None"
  using unavailable_filters_given_up [where sp = bare_support and s = booted and x = sample_session
      and preview = None and cover = None, OF _ refl refl]
  by (simp add: bare_support_def has_filter_def filter_drawtext_def)

theorem outro_concat_unchecked_witness:
  "\<exists>eo. shown (eo_outro eo) \<and> sublist ''concat='' (fst (graph_text eo [] (shown_stills eo \<noteq> []) 640 480))"
proof -
  let ?s = "booted\<lparr>v_cfg := sample_config\<lparr>c_tail := 2\<rparr>\<rparr>"
  have "has_filter bare_support filter_tpad" "\<not> has_filter bare_support filter_concat" "0 < c_tail (v_cfg ?s)"
    by (simp_all add: has_filter_def bare_support_def filter_tpad_def filter_concat_def)
  from outro_concat_unchecked [OF this refl refl] show ?thesis by blast
qed

theorem timed_capture_claims_no_layers_witness:
  "s_layers (obj (run_timed 0 2 [True, True, True] told) 0) = []"
proof -
  have "s_frames (obj told 0) = 0" using told_state by blast
  moreover have "sound told" by (rule started_sound_run [OF booted_started run_told])
  then have "good told" by (simp add: sound_def)
  then have "wf_session (obj told 0)" by (rule good_obj) (rule told_first(1))
  ultimately have "s_layers (obj told 0) = []" by (simp add: wf_session_def)
  with timed_capture_claims_no_layers [OF told_first(1) _ this refl] told_state show ?thesis by blast
qed

end
