(* ===== verification/Recording.thy ===== *)
theory Recording
  imports Command_Line Settings Sample_Run
begin

text \<open>
  What a configuration settles for the whole life of a service: nothing that happens while it runs
  changes it, so whether it publishes or keeps its recordings is decided when it starts. The
  subcommand \<open>record\<close> is held against that.
\<close>

section \<open>A service without a destination\<close>

definition uploading :: "event \<Rightarrow> bool" where
  "uploading e \<longleftrightarrow> (\<exists>k seed r. e = Attempt k seed r) \<or> (\<exists>seed r. e = RetryNext seed r)"

fun offline :: "phase \<Rightarrow> bool" where
  "offline (Posting rq n) = False"
| "offline (Waiting rq n due) = False"
| "offline _ = True"

definition local_only :: "svc \<Rightarrow> bool" where
  "local_only s \<longleftrightarrow>
     settled_first s \<and> c_api_url (v_cfg s) = [] \<and> v_parked s = [] \<and> (\<forall>f \<in> set (v_finals s). offline (f_phase f))"

lemma draining_offline: "draining p \<Longrightarrow> offline p"
  by (cases p) simp_all

lemma offline_moved:
  "phase_moved s k p t \<Longrightarrow> \<forall>f \<in> set (v_finals s). offline (f_phase f) \<Longrightarrow> offline p \<Longrightarrow>
     \<forall>f \<in> set (v_finals t). offline (f_phase f)"
  using set_update_subset_insert by (fastforce simp: phase_moved_def)

lemma render_offline:
  "c_api_url (v_cfg s) = [] \<Longrightarrow> phase_moved s k Finished (render k e cover s)"
proof (cases rule: render_outcome [where s = s and k = k and e = e and cover = cover])
  case (posting f w video cap name)
  assume "c_api_url (v_cfg s) = []"
  with posting(2) show ?thesis by simp
qed (auto simp: fields intro!: phase_moved_set)

lemma local_finals:
  assumes "transition s e t" and "local_only s"
  shows "(\<forall>f \<in> set (v_finals t). offline (f_phase f)) \<and> \<not> uploading e"
proof -
  have off: "\<forall>f \<in> set (v_finals s). offline (f_phase f)" and url: "c_api_url (v_cfg s) = []"
    and st: "settled_first s" and parked: "v_parked s = []"
    using assms(2) by (simp_all add: local_only_def)
  note moved = offline_moved [OF _ off]
  from assms(1) show ?thesis
  proof (cases rule: transition.cases)
    case (message p)
    then have r: "reported s t" using reported_message [OF st] by simp
    then show ?thesis using message off
      by (auto simp: uploading_def draining_offline elim!: reported_finals)
  next
    case (drained k limit)
    then show ?thesis using moved end_drain_phase by (metis event.distinct offline.simps uploading_def)
  next
    case (cover_due k elapsed lst due)
    then show ?thesis using moved take_cover_phase by (metis event.distinct offline.simps uploading_def)
  next
    case (render k elapsed cover)
    with moved [OF render_offline [OF url]] show ?thesis by (simp add: uploading_def)
  next
    case (attempt k rq n seed r)
    then show ?thesis using off nth_mem [of k "v_finals s"] by fastforce
  next
    case (wait_over k rq n due)
    then show ?thesis using off nth_mem [of k "v_finals s"] by fastforce
  qed (use off parked in \<open>simp_all add: fields uploading_def\<close>)
qed

lemma local_transition:
  assumes "transition s e t" and "local_only s"
  shows "local_only t"
proof -
  have "\<not> (\<exists>seed r. e = RetryNext seed r)" using local_finals [OF assms] by (auto simp: uploading_def)
  then have "v_cfg t = v_cfg s" "v_parked t = v_parked s"
    using settings_transition [OF assms(1)] by (simp_all add: settings_def)
  with local_finals [OF assms] settled_transition [OF assms(1)] assms(2) show ?thesis
    by (simp add: local_only_def)
qed

interpretation unsent: kept_invariant transition local_only
  by unfold_locales (rule local_transition)

lemma local_run: "run_of transition s es t \<Longrightarrow> local_only s \<Longrightarrow> \<forall>e \<in> set es. \<not> uploading e"
proof (induction rule: run_of.induct)
  case (run_step s e t es u)
  with local_finals [OF run_step(1,4)] local_transition [OF run_step(1,4)] show ?case by simp
qed simp

section \<open>The configuration of a run\<close>

text \<open>The service an invocation has started: as it begins to watch, or after any number of ticks.\<close>

definition underway :: "launch \<Rightarrow> svc \<Rightarrow> bool" where
  "underway l s \<longleftrightarrow>
     (case l of
        Watches s0 \<Rightarrow> s = s0
      | Clocks s0 i most \<Rightarrow> (\<exists>ticks. s = run_timed i most ticks s0)
      | _ \<Rightarrow> False)"

text \<open>The checks give up parts of the video, never where it goes to or comes from.\<close>

definition destination :: "config \<Rightarrow> string \<times> string \<times> string \<times> bool" where
  "destination c = (c_api_url c, c_output c, c_staging c, c_once c)"

lemma caption_checks_destination:
  "destination (v_cfg (fst (caption_checks sp s))) = destination (v_cfg s)"
  "v_output (fst (caption_checks sp s)) = v_output s" "v_parked (fst (caption_checks sp s)) = v_parked s"
proof -
  have p: "destination (v_cfg (fst (overlay_checks sp u))) = destination (v_cfg u)
      \<and> v_output (fst (overlay_checks sp u)) = v_output u \<and> v_parked (fst (overlay_checks sp u)) = v_parked u"
    "destination (v_cfg (fst (tail_checks sp u))) = destination (v_cfg u)
      \<and> v_output (fst (tail_checks sp u)) = v_output u \<and> v_parked (fst (tail_checks sp u)) = v_parked u"
    "destination (v_cfg (fst (intro_checks sp u))) = destination (v_cfg u)
      \<and> v_output (fst (intro_checks sp u)) = v_output u \<and> v_parked (fst (intro_checks sp u)) = v_parked u" for u
    by (simp_all add: overlay_checks_def tail_checks_def intro_checks_def destination_def)
  show "destination (v_cfg (fst (caption_checks sp s))) = destination (v_cfg s)"
    "v_output (fst (caption_checks sp s)) = v_output s" "v_parked (fst (caption_checks sp s)) = v_parked s"
    by (simp_all add: caption_checks_def split_beta p)
qed

lemma preflight_destination:
  "destination (v_cfg (fst (preflight lp net why s))) = destination (v_cfg s)
   \<and> v_output (fst (preflight lp net why s)) = v_output s \<and> v_parked (fst (preflight lp net why s)) = v_parked s"
  by (simp add: preflight_def printer_checks_def Let_def split_beta caption_checks_destination)

lemma start_run_config:
  "destination (v_cfg (fst (start_run lp net why s))) = destination (v_cfg s)
   \<and> v_output (fst (start_run lp net why s)) = v_output s
   \<and> (c_api_url (v_cfg s) = [] \<longrightarrow> v_parked (fst (start_run lp net why s)) = v_parked s)"
proof -
  have d: "v_cfg (fst (on_disk f u)) = v_cfg u" "v_output (fst (on_disk f u)) = v_output u"
    "v_parked (fst (on_disk f u)) = v_parked u" for f :: "disk \<Rightarrow> disk \<times> 'a" and u
    by (simp_all add: on_disk_fst)
  have "c_api_url (v_cfg (fst (preflight lp net why s))) = c_api_url (v_cfg s)"
    using preflight_destination [of lp net why s] by (simp add: destination_def)
  then show ?thesis
    using preflight_destination [of lp net why s] by (simp add: start_run_def Let_def split_beta d)
qed

lemma new_service_config:
  assumes "new_service to_path printable ttf c w = (w', Some s)"
  shows "v_cfg s = c \<and> v_output s = to_path (c_output c) \<and> v_parked s = [] \<and> v_finals s = []
    \<and> v_current s = None \<and> \<not> v_reconciled s"
  using assms by (auto simp: new_service_def Let_def split: prod.splits option.splits if_splits)

lemma timed_frame_settings [keeps_settings]:
  "settings (timed_frame i s) = settings s" "v_reconciled (timed_frame i s) = v_reconciled s"
  "v_current (timed_frame i s) = v_current s"
  by (simp_all add: timed_frame_def Let_def keeps_settings fields split: prod.split)

declare run_timed.simps [simp del]

lemma run_timed_settings:
  "settings (run_timed i most ticks s) = settings s \<and> v_current (run_timed i most ticks s) = v_current s
   \<and> (\<forall>f \<in> set (v_finals (run_timed i most ticks s)). f \<in> set (v_finals s) \<or> draining (f_phase f))"
proof (induction ticks arbitrary: s)
  case (Cons b ticks)
  then show ?case using Cons.IH [of "timed_frame i s"]
    by (cases b) (auto simp: run_timed.simps keeps_settings start_finalize_def)
qed (auto simp: run_timed.simps keeps_settings start_finalize_def)

lemma open_timed_books:
  assumes "open_timed s = (t, Some i)"
  shows "settings t = settings s \<and> v_finals t = v_finals s \<and> v_current t = v_current s"
proof -
  obtain s1 r where o: "on_disk (\<lambda>os. create os (v_store s) (timed_id s) ''timed capture'' 0 0) s = (s1, r)"
    by fastforce
  have "v_finals s1 = v_finals s" "v_current s1 = v_current s" using on_disk_pair [OF o] by simp_all
  with assms o kept.through_disk [OF o] show ?thesis
    by (auto simp: open_timed_def keeps_settings split: option.splits)
qed

text \<open>What every started service has of the configuration it was given.\<close>

lemma launched_config:
  assumes "launch_service h c w go = l" and "underway l s" and "go \<in> {watch h, clock_capture h most}"
  shows "destination (v_cfg s) = destination c \<and> v_output s = h_path h (c_output c)
    \<and> (c_api_url c = [] \<longrightarrow> local_only s)"
proof -
  obtain w1 s0 where n: "new_service (h_path h) (h_printable h) (h_font h) c w = (w1, Some s0)" "go s0 = l"
    using assms(1,2) by (auto simp: launch_service_def underway_def split: prod.splits option.splits)
  note c0 = new_service_config [OF n(1)]
  from assms(3) show ?thesis
  proof (elim insertE emptyE)
    assume "go = watch h"
    then have "s = fst (start_run (h_look_path h) (h_net h) (h_why h) s0)"
      using n(2) assms(2) by (auto simp: watch_def underway_def Let_def split: prod.splits if_splits)
    with c0 start_run_config [of "h_look_path h" "h_net h" "h_why h" s0] start_run_books [of "h_look_path h" "h_net h" "h_why h" s0]
    show ?thesis by (auto simp: local_only_def settled_first_def destination_def)
  next
    assume "go = clock_capture h most"
    then obtain s1 cs s2 i ticks where p: "preflight (h_look_path h) (h_net h) (h_why h) s0 = (s1, cs, True)"
        "open_timed s1 = (s2, Some i)" "s = run_timed i most ticks s2"
      using n(2) assms(2) by (auto simp: clock_capture_def underway_def Let_def split: prod.splits if_splits option.splits)
    have s1: "destination (v_cfg s1) = destination c" "v_output s1 = h_path h (c_output c)" "v_parked s1 = []"
        "v_finals s1 = []" "v_current s1 = None"
      using p(1) c0 preflight_destination [of "h_look_path h" "h_net h" "h_why h" s0]
        preflight_books [of "h_look_path h" "h_net h" "h_why h" s0] by simp_all
    have s2: "settings s2 = settings s1" "v_finals s2 = v_finals s1" "v_current s2 = v_current s1"
      using open_timed_books [OF p(2)] by simp_all
    show ?thesis using s1 s2 run_timed_settings [of i most ticks s2]
      by (auto simp: p(3) settings_def local_only_def settled_first_def destination_def draining_offline)
  qed
qed

lemma validate_destination: "destination (fst (validate e c)) = destination c"
  by (subst validate_keeps) (simp add: destination_def)

lemma loaded_url: "c_api_url (fst (load_config False e)) = raw e ''MEDIA_API_URL''"
proof -
  have "c_api_url (fst (read_config False e)) = raw e ''MEDIA_API_URL''"
    by (simp add: read_config_def split_beta Let_def sink_def)
  moreover have "c_api_url (fst (validate e c)) = c_api_url c" for c
    using validate_destination [of e c] by (simp add: destination_def)
  ultimately show ?thesis by (simp add: load_config_def split_beta)
qed

lemma record_launch:
  assumes "run_main h (''record'' # args) w = l" and "underway l s"
  obtains fs rest go where "parse_flags args record_flags = Some (fs, rest)"
    "launch_service h (record_config fs (fst (load_config False (h_env h)))) w go = l"
    "go \<in> {watch h, clock_capture h (the_int (map_of fs ''frames''))}"
proof -
  have r: "run_record h args w = l" using assms(1) by (simp add: run_main_def)
  obtain c errs where c: "load_config False (h_env h) = (c, errs)" by fastforce
  obtain fs rest where f: "parse_flags args record_flags = Some (fs, rest)"
    using r assms(2) by (auto simp: run_record_def underway_def split: option.splits)
  show thesis
    by (rule that [OF f]) (use r c f assms(2) in \<open>auto simp: run_record_def underway_def split: if_splits\<close>)
qed

text \<open>C12: a recording that is not to be posted stays here. Without a destination in the environment the
  subcommand \<open>record\<close> never posts anything, neither a new recording nor a parked one, in no run of
  the service it starts, on layers or on a clock; and in all of it the directories and the one-shot
  mode are those of the flags.\<close>

theorem record_stays_local:
  assumes "run_main h (''record'' # args) w = l" and "underway l s" and "run_of transition s es t"
    and "raw (h_env h) ''MEDIA_API_URL'' = []"
  shows "(\<forall>e \<in> set es. \<not> uploading e)
    \<and> (\<exists>fs rest. parse_flags args record_flags = Some (fs, rest) \<and> v_output t = h_path h (the_string (map_of fs ''out''))
        \<and> destination (v_cfg t) =
            ([], the_string (map_of fs ''out''), the_string (map_of fs ''staging''), the_bool (map_of fs ''once'')))"
proof -
  obtain fs rest go where r: "parse_flags args record_flags = Some (fs, rest)"
      "launch_service h (record_config fs (fst (load_config False (h_env h)))) w go = l"
      "go \<in> {watch h, clock_capture h (the_int (map_of fs ''frames''))}"
    using record_launch [OF assms(1,2)] by blast
  let ?c = "record_config fs (fst (load_config False (h_env h)))"
  have "c_api_url ?c = []" using assms(4) loaded_url by (simp add: record_config_def)
  with launched_config [OF r(2) assms(2) r(3)] local_run [OF assms(3)] run_config [OF assms(3)] r(1)
  show ?thesis by (auto simp: record_config_def destination_def)
qed

text \<open>C32: but the destination is read from the environment all the same. When it is set, \<open>record\<close> posts: the
  service works for that destination, every encode that is neither skipped nor fails goes out to
  it, and none is ever delivered to the directory that was asked for.\<close>

theorem record_posts_when_configured:
  assumes "run_main h (''record'' # args) w = l" and "underway l s" and "run_of transition s es t"
    and "raw (h_env h) ''MEDIA_API_URL'' \<noteq> []" and "transition t (Render k) u"
  shows "c_api_url (v_cfg t) = raw (h_env h) ''MEDIA_API_URL''
    \<and> ((\<exists>rq. f_phase (v_finals u ! k) = Posting rq 1) \<or> v_metrics u = count_upload ''skipped'' (v_metrics t)
        \<or> v_metrics u = count_upload ''failed'' (v_metrics t))"
proof -
  obtain fs rest go where r: "parse_flags args record_flags = Some (fs, rest)"
      "launch_service h (record_config fs (fst (load_config False (h_env h)))) w go = l"
      "go \<in> {watch h, clock_capture h (the_int (map_of fs ''frames''))}"
    using record_launch [OF assms(1,2)] by blast
  have url: "c_api_url (v_cfg t) = raw (h_env h) ''MEDIA_API_URL''"
    using launched_config [OF r(2) assms(2) r(3)] run_config [OF assms(3)] loaded_url
    by (simp add: record_config_def destination_def)
  obtain e cover where u: "k < length (v_finals t)" "u = render k e cover t"
    using assms(5) by (auto simp: transition_simps)
  show ?thesis
  proof (cases rule: render_outcome [where s = t and k = k and e = e and cover = cover])
    case (kept f w video cap name)
    with url assms(4) show ?thesis by simp
  qed (use url u in \<open>auto simp: fields phase_of_set_phase\<close>)
qed

end
