(* ===== verification/Endpoints.thy ===== *)
theory Endpoints
  imports Settings Debug
begin

text \<open>
  Where the service meets the outside: its MQTT session with the printer (\<open>Run\<close>, \<open>onConnect\<close> and the
  handler of a lost connection in \<open>service.go\<close>, and the sessions that \<open>probe.go\<close> and \<open>debug.go\<close>
  open), and the HTTP listener of \<open>http.go\<close>. What the libraries do with a session or a socket once it
  is configured is theirs; here are the sessions as they are configured, the calls that are made on
  them, and the answers.
\<close>

section \<open>The MQTT sessions\<close>

datatype mqtt_setting =
    Auto_Reconnect | Connect_Retry nanos | Max_Reconnect nanos | Keep_Alive nanos
  | Connect_Timeout nanos | Ordered | Trust_Any_Certificate

record mqtt_client =
  mc_broker :: string
  mc_id :: string
  mc_user :: string
  mc_password :: string
  mc_settings :: "mqtt_setting list"

definition connect_retry_interval :: nanos where "connect_retry_interval = 10 * second"
definition max_reconnect_interval :: nanos where "max_reconnect_interval = 60 * second"
definition mqtt_keep_alive :: nanos where "mqtt_keep_alive = 30 * second"
definition probe_connect_wait :: nanos where "probe_connect_wait = 10 * second"

definition broker :: "string \<Rightarrow> string" where
  "broker address = ''ssl://'' @ join_host_port address mqtt_port"

definition service_client :: "svc \<Rightarrow> mqtt_client" where
  "service_client s =
     \<lparr>mc_broker = broker (c_host (v_cfg s)), mc_id = ''bambu-timelapse-'' @ itoa (now s),
      mc_user = ''bblp'', mc_password = c_code (v_cfg s),
      mc_settings = [Trust_Any_Certificate, Auto_Reconnect, Connect_Retry connect_retry_interval,
                     Max_Reconnect max_reconnect_interval, Keep_Alive mqtt_keep_alive, Ordered]\<rparr>"

definition debug_client :: "config \<Rightarrow> nanos \<Rightarrow> mqtt_client" where
  "debug_client c t =
     \<lparr>mc_broker = broker (c_host c), mc_id = ''bambu-debug-'' @ itoa t,
      mc_user = ''bblp'', mc_password = c_code c,
      mc_settings = [Trust_Any_Certificate, Connect_Timeout debug_connect_wait, Ordered]\<rparr>"

definition probe_client :: "string \<Rightarrow> string \<Rightarrow> nanos \<Rightarrow> mqtt_client" where
  "probe_client address code t =
     \<lparr>mc_broker = broker address, mc_id = ''bambu-probe-'' @ itoa t,
      mc_user = ''bblp'', mc_password = code,
      mc_settings = [Trust_Any_Certificate, Connect_Timeout probe_connect_wait]\<rparr>"

text \<open>The calls on a session that is up.\<close>

datatype mqtt_call = Subscribe string | Publish string string

definition report_topic :: "string \<Rightarrow> string" where
  "report_topic serial = ''device/'' @ serial @ ''/report''"

definition request_topic :: "string \<Rightarrow> string" where
  "request_topic serial = ''device/'' @ serial @ ''/request''"

definition push_all :: string where
  \<open>push_all = ''{"pushing":{"sequence_id":"0","command":"pushall"}}''\<close>

text \<open>\<open>onConnect\<close>, given whether the subscription was refused; a refused publication changes nothing.\<close>

definition on_connect :: "bool \<Rightarrow> svc \<Rightarrow> svc \<times> mqtt_call list" where
  "on_connect refused s =
     (let s1 = count (\<lambda>m. m\<lparr>m_mqtt_up := True\<rparr>) s; serial = c_serial (v_cfg s);
          calls = [Subscribe (report_topic serial)]
      in if refused then (s1, calls) else (s1, calls @ [Publish (request_topic serial) push_all]))"

definition on_connection_lost :: "svc \<Rightarrow> svc" where
  "on_connection_lost s = count (\<lambda>m. m\<lparr>m_mqtt_up := False\<rparr>) s"

text \<open>The same in \<open>debug.go\<close>, which does not look at the outcome.\<close>

definition debug_on_connect :: "config \<Rightarrow> mqtt_call list" where
  "debug_on_connect c = [Subscribe (report_topic (c_serial c)), Publish (request_topic (c_serial c)) push_all]"

section \<open>The HTTP listener\<close>

text \<open>
  The answers of the listener: the health check with its status and body, the metrics, or the
  router's own for a path it does not know or a method the path does not have. \<open>json_object\<close> is
  what \<open>json.Encoder\<close> writes for a map, one line.
\<close>

datatype answer = Health nat string | Exposition metrics | No_Route | No_Method

definition json_object :: "(string \<times> string) list \<Rightarrow> string" where
  "json_object kvs =
     line (''{'' @ join '','' (map (\<lambda>(k, t). json_string k @ '':'' @ t) (go_entries kvs)) @ ''}'')"

definition health_body :: "bool \<Rightarrow> int option \<Rightarrow> string" where
  "health_body up age =
     json_object ((''mqtt'', if up then ''true'' else ''false'')
       # (case age of None \<Rightarrow> [] | Some n \<Rightarrow> [(''last_report_age_seconds'', itoa n)]))"

definition health_paths :: "string list" where "health_paths = [''/healthz'', ''/livez'']"

text \<open>The body of a \<open>HEAD\<close> request is written and then dropped by the server.\<close>

definition serve :: "string \<Rightarrow> string \<Rightarrow> svc \<Rightarrow> answer" where
  "serve verb path s =
     (if path = ''/metrics'' then (if verb = ''GET'' then Exposition (v_metrics s) else No_Method)
      else if path \<in> set health_paths
      then (if verb = ''GET'' \<or> verb = ''HEAD''
            then (let up = m_mqtt_up (v_metrics s); (status, age) = health up (v_last_report s) (now s)
                  in Health status (if verb = ''HEAD'' then [] else health_body up age))
            else No_Method)
      else No_Route)"

section \<open>Properties\<close>

text \<open>A session that is up asks for everything. The service always subscribes to the reports of its own
  printer first, and exactly when that is granted it asks the same printer for a full report: the
  request is a JSON document that says so. In the steps of the service this is the event of a
  connection that comes, and its loss the one of a connection that goes.\<close>

theorem connect_asks_for_everything:
  "(\<exists>rest. snd (on_connect refused s) = Subscribe (''device/'' @ c_serial (v_cfg s) @ ''/report'') # rest
      \<and> (if refused then rest = []
         else rest = [Publish (''device/'' @ c_serial (v_cfg s) @ ''/request'') push_all]))
   \<and> json_parse push_all =
       Some (JObj [(''pushing'', JObj [(''sequence_id'', JStr ''0''), (''command'', JStr ''pushall'')])])
   \<and> transition s (Connected True) (fst (on_connect refused s))
   \<and> transition s (Connected False) (on_connection_lost s)"
proof -
  have "json_parse push_all =
      Some (JObj [(''pushing'', JObj [(''sequence_id'', JStr ''0''), (''command'', JStr ''pushall'')])])"
    by code_simp
  moreover have "fst (on_connect refused s) = count (\<lambda>m. m\<lparr>m_mqtt_up := True\<rparr>) s"
    by (simp add: on_connect_def Let_def)
  ultimately show ?thesis
    by (simp add: on_connect_def on_connection_lost_def report_topic_def request_topic_def transition.connected Let_def)
qed

text \<open>C22: a deaf service says so. After a report, and for as long as no other comes, whatever else happens
  meanwhile, the health check answers 200 exactly while the session is up and less than five minutes
  have passed since the second of that report.\<close>

theorem silence_is_unhealthy:
  assumes "transition s (Message p) t" and "run_of transition t es u" and "\<forall>e \<in> set es. \<not> reporting e"
    and "second \<le> now s" and "path \<in> {''/healthz'', ''/livez''}" and "verb \<in> {''GET'', ''HEAD''}"
  shows "\<exists>status body. serve verb path u = Health status body
    \<and> status = (if m_mqtt_up (v_metrics u) \<and> now u < (now s div second + 300) * second then 200 else 503)"
proof -
  have "v_last_report t = now s div second"
    using settings_transition [OF assms(1)] by (simp add: settings_def)
  then have l: "v_last_report u = now s div second" using run_last_report [OF assms(2,3)] by simp
  have p: "0 < now s div second" using assms(4) by (simp add: second_def pos_imp_zdiv_pos_iff)
  have st: "fst (health b n x) \<in> {200, 503}" for b n x by (simp add: health_def Let_def)
  have "fst (health (m_mqtt_up (v_metrics u)) (v_last_report u) (now u)) =
      (if m_mqtt_up (v_metrics u) \<and> now u < (now s div second + 300) * second then 200 else 503)"
    using health_exact [of "m_mqtt_up (v_metrics u)" "v_last_report u" "now u"] p l
      st [of "m_mqtt_up (v_metrics u)" "v_last_report u" "now u"]
    by (auto simp: second_def)
  then show ?thesis using assms(5,6)
    by (auto simp: serve_def health_paths_def Let_def split: prod.split)
qed

end
