(* ===== verification/Sample_Commands.thy ===== *)
theory Sample_Commands
  imports Recording Endpoints
begin

text \<open>
  Invocations of the program, to which the properties of the command line, of the dump and of the
  health check are applied: a printer that answers, one that does not, and two environments.
\<close>

section \<open>A printer to ask\<close>

definition printing_members :: "(string \<times> any) list" where
  "printing_members = [(''gcode_state'', JStr ''RUNNING''), (''task_id'', JStr ''42''), (''layer_num'', JStr ''3'')]"

definition store_lines :: "string list" where
  "store_lines =
     cn_lines sample_conn
     @ concat (replicate 4 [''227 (1,2,3,4,5,6)'' @ crlf_chars, ''150 go'' @ crlf_chars, ''226 done'' @ crlf_chars])
     @ [''221 bye'' @ crlf_chars]"

definition store_conn :: conn where
  "store_conn = sample_conn\<lparr>cn_lines := store_lines\<rparr>"

definition listing :: string where "listing = ''-rw-r--r-- 1 u g 9 Jan 1 benchy.3mf''"

definition store_data :: "nat \<Rightarrow> data_conn" where
  "store_data n =
     \<lparr>dc_dial = True, dc_handshake = True, dc_resumed = True, dc_bytes = Some (if n = 2 then listing else [])\<rparr>"

definition sample_side :: printer_side where
  "sample_side =
     \<lparr>ps_net = quiet_net, ps_control = Some store_conn, ps_why = ''e'', ps_data = store_data,
      ps_handshake = Accepted, ps_wakes = [Arrives printing, Woken, Deadline], ps_late = [], ps_ended = ''e'',
      ps_entries = (\<lambda>st. printing_members)\<rparr>"

definition open_report :: report where
  "open_report = \<lparr>rp_out = [], rp_tries = 0, rp_short = (\<lambda>n. None), rp_err = False\<rparr>"

definition raw_options :: debug_options where
  "raw_options = \<lparr>do_raw = True, do_wait = second, do_frame = None\<rparr>"

definition sample_dump :: "session world \<times> (report \<times> debug_error option) option" where
  "sample_dump = run_debug sample_side boot_world sample_config raw_options open_report"

lemma sample_dump_written: "\<exists>w r. sample_dump = (w, Some (r, None))"
proof -
  have "(case snd sample_dump of None \<Rightarrow> False | Some p \<Rightarrow> snd p = None)" by code_simp
  then obtain p where "snd sample_dump = Some p" "snd p = None" by (cases "snd sample_dump") auto
  then show ?thesis by (metis prod.collapse)
qed

lemma ascii_text:
  assumes "list_all valid_rune (map byte s)" and "encode (map byte s) = s"
  shows "utf8 s"
  using assms by (metis utf8_def list_all_iff)

lemma sample_snapshot:
  "snapshot (c_host sample_config) (ps_handshake sample_side) (ps_wakes sample_side) (ps_late sample_side)
     (ps_ended sample_side) w = Some (Got printing_state)"
  by (simp add: snapshot_def sample_side_def printing_merged messages_to_see_def)


text \<open>A destination that takes three bytes of the third write.\<close>

definition full_report :: report where
  "full_report = open_report\<lparr>rp_short := (\<lambda>n. if n = 2 then Some 3 else None)\<rparr>"

theorem dump_complete_or_error_witness:
  "\<exists>r e. snd (run_debug sample_side boot_world sample_config raw_options full_report) = Some (r, e)
     \<and> prefix (rp_out r) (rp_out (fst (the (snd sample_dump)))) \<and> e \<noteq> None"
proof -
  let ?d = "run_debug sample_side boot_world sample_config raw_options full_report"
  have "(case snd ?d of None \<Rightarrow> False | Some p \<Rightarrow> snd p \<noteq> None)" by code_simp
  then obtain p where "snd ?d = Some p" "snd p \<noteq> None" by (cases "snd ?d") auto
  then obtain w r e where d: "?d = (w, Some (r, e))" "e \<noteq> None" by (metis prod.collapse)
  obtain w' full where f: "sample_dump = (w', Some (full, None))" using sample_dump_written by blast
  have "full_report\<lparr>rp_short := (\<lambda>n. None), rp_err := False\<rparr> = open_report"
    by (simp add: full_report_def open_report_def)
  with f have "run_debug sample_side boot_world sample_config raw_options
      (full_report\<lparr>rp_short := (\<lambda>n. None), rp_err := False\<rparr>) = (w', Some (full, None))"
    by (simp add: sample_dump_def)
  from dump_complete_or_error [OF d(1) this] have "prefix (rp_out r) (rp_out full)" by blast
  moreover have "fst (the (snd sample_dump)) = full" by (simp add: f)
  ultimately show ?thesis using d by (metis snd_conv)
qed

theorem empty_store_misreported_witness:
  "snd (files_section store_data ''e'' (Some store_conn) sample_config)
     = [line ''  empty: no 3mf to take a plate preview from'']"
proof -
  define dialled where "dialled = dial_ftps (c_code sample_config) ''e'' (Some store_conn)"
  define c0 where "c0 = fst (projl dialled)"
  define l0 where "l0 = list_dir ''/'' (store_data 0) c0"
  define l1 where "l1 = list_dir ''/cache/'' (store_data 1) (fst l0)"
  define l2 where "l2 = list_dir ''/sdcard/'' (store_data 2) (fst l1)"
  define l3 where "l3 = list_dir ''/model/'' (store_data 3) (fst l2)"
  note defs = l3_def l2_def l1_def l0_def c0_def dialled_def
  have d: "isl dialled" "snd (projl dialled) = Got ()" unfolding defs by code_simp+
  then have d': "dial_ftps (c_code sample_config) ''e'' (Some store_conn) = Inl (c0, Got ())"
    by (metis c0_def dialled_def prod.collapse sum.collapse(1))
  have "snd l0 = Got []" "snd l1 = Got []" "snd l2 = Got [listing]" "snd l3 = Got []"
    unfolding defs by code_simp+
  then have l: "list_dir ''/'' (store_data 0) c0 = (fst l0, Got [])"
    "list_dir ''/cache/'' (store_data 1) (fst l0) = (fst l1, Got [])"
    "list_dir ''/sdcard/'' (store_data 2) (fst l1) = (fst l2, Got [listing])"
    "list_dir ''/model/'' (store_data 3) (fst l2) = (fst l3, Got [])"
    by (metis l0_def l1_def l2_def l3_def prod.collapse)+
  have "equal_fold_ascii (path_ext (listed_file listing)) ''.3mf''" by code_simp
  from empty_store_misreported [OF d' l this] show ?thesis by blast
qed

section \<open>Invocations\<close>

definition sample_host :: "env \<Rightarrow> host" where
  "sample_host e =
     \<lparr>h_env = e, h_build = (''1'', ''c'', ''d''), h_path = (\<lambda>p. [''staging'']), h_printable = (\<lambda>r. True),
      h_font = ''ttf'', h_look_path = (\<lambda>b. b), h_net = quiet_net, h_why = ''e'', h_debug = sample_side,
      h_stdout = open_report\<rparr>"

definition local_env :: env where "local_env = sample_env(''MEDIA_API_URL'' := [])"

definition clocked :: "env \<Rightarrow> launch" where
  "clocked e = run_main (sample_host e) [''record'', ''-interval'', ''1s'', ''-frames=2''] boot_world"

definition clocked_end :: "env \<Rightarrow> svc" where
  "clocked_end e = (case clocked e of Clocks s i most \<Rightarrow> run_timed i most [False] s | _ \<Rightarrow> booted)"

definition clocked_covered :: "env \<Rightarrow> svc" where
  "clocked_covered e =
     (let s = end_drain 0 (clocked_end e)
      in case f_phase (v_finals s ! 0) of Covering el l d \<Rightarrow> take_cover 0 el l s | _ \<Rightarrow> s)"

text \<open>It is the clock of a capture that ends before its first tick, and its finalisation gets to the encode.\<close>

definition ends_at_once :: "launch \<Rightarrow> bool" where
  "ends_at_once l \<longleftrightarrow>
     (case l of
        Clocks s0 i most \<Rightarrow>
          (let s = run_timed i most [False] s0; d = end_drain 0 s
           in length (v_finals s) = 1 \<and> v_capture s = None
             \<and> (case f_phase (v_finals s ! 0) of Draining limit \<Rightarrow> True | _ \<Rightarrow> False)
             \<and> (case f_phase (v_finals d ! 0) of
                  Covering el lst due \<Rightarrow>
                    due \<le> now d
                    \<and> (case f_phase (v_finals (take_cover 0 el lst d) ! 0) of Rendering e c \<Rightarrow> True | _ \<Rightarrow> False)
                | _ \<Rightarrow> False))
      | _ \<Rightarrow> False)"

lemma clocked_reached:
  assumes "ends_at_once (clocked e)"
  shows "underway (clocked e) (clocked_end e)"
    and "run_of transition (clocked_end e) [Drained 0, CoverDue 0] (clocked_covered e)"
    and "\<exists>u. transition (clocked_covered e) (Render 0) u"
proof -
  let ?s = "clocked_end e" and ?d = "end_drain 0 (clocked_end e)"
  obtain s0 i most where l: "clocked e = Clocks s0 i most" "?s = run_timed i most [False] s0"
    using assms by (auto simp: ends_at_once_def clocked_end_def simp del: run_timed.simps split: launch.splits)
  then show "underway (clocked e) ?s" by (auto simp: underway_def simp del: run_timed.simps)
  have n: "length (v_finals ?s) = 1" "v_capture ?s = None" "\<exists>limit. f_phase (v_finals ?s ! 0) = Draining limit"
    using assms l by (auto simp: ends_at_once_def Let_def simp del: run_timed.simps split: phase.splits)
  obtain el lst due where c: "f_phase (v_finals ?d ! 0) = Covering el lst due" "due \<le> now ?d"
      "\<exists>x y. f_phase (v_finals (take_cover 0 el lst ?d) ! 0) = Rendering x y"
    using assms l by (auto simp: ends_at_once_def Let_def simp del: run_timed.simps split: phase.splits)
  have d: "length (v_finals ?d) = 1" using n(1) by (simp add: end_drain_def Let_def set_phase_def)
  have t: "clocked_covered e = take_cover 0 el lst ?d" using c(1) by (simp add: clocked_covered_def Let_def)
  have "transition ?s (Drained 0) ?d" using n by (auto simp: transition_simps)
  moreover have cov: "transition ?d (CoverDue 0) (clocked_covered e)" using d c t by (auto simp: transition_simps)
  ultimately show "run_of transition ?s [Drained 0, CoverDue 0] (clocked_covered e)" by auto
  have "length (v_finals (clocked_covered e)) = 1"
    using d unfolding t by (simp add: take_cover_def Let_def split_beta set_phase_def)
  with c(3) show "\<exists>u. transition (clocked_covered e) (Render 0) u" by (auto simp: t transition_simps)
qed

theorem record_stays_local_witness:
  "v_output (clocked_covered local_env) = [''staging''] \<and> c_api_url (v_cfg (clocked_covered local_env)) = []"
proof -
  have c: "ends_at_once (clocked local_env)" by code_simp
  have "raw (h_env (sample_host local_env)) ''MEDIA_API_URL'' = []" by code_simp
  from record_stays_local [OF clocked_def [of local_env, symmetric] clocked_reached(1,2) [OF c] this]
  show ?thesis
    unfolding sample_host_def destination_def host.simps prod.inject by blast
qed

theorem record_posts_when_configured_witness:
  "\<exists>u. transition (clocked_covered sample_env) (Render 0) u \<and> c_api_url (v_cfg (clocked_covered sample_env)) = ''x''"
proof -
  have c: "ends_at_once (clocked sample_env)" by code_simp
  have x: "raw (h_env (sample_host sample_env)) ''MEDIA_API_URL'' = ''x''" by code_simp
  then have n: "raw (h_env (sample_host sample_env)) ''MEDIA_API_URL'' \<noteq> []" by simp
  obtain u where t: "transition (clocked_covered sample_env) (Render 0) u" using clocked_reached(3) [OF c] by blast
  from record_posts_when_configured [OF clocked_def [of sample_env, symmetric] clocked_reached(1,2) [OF c] n t] t x
  show ?thesis by auto
qed

theorem exit_codes_tell_witness:
  "run_main (sample_host sample_env) [''record'', ''-bogus''] boot_world = Exits boot_world 2"
proof -
  have "bad_line [''record'', ''-bogus'']" by code_simp
  with exit_codes_tell [of "[''record'', ''-bogus'']" "sample_host sample_env" boot_world boot_world 2]
  show ?thesis by (simp add: exit_usage_def)
qed

theorem silence_is_unhealthy_witness:
  "\<exists>u body. run_of transition (on_message printing (advance (5 * second) booted)) [Connected False] u
     \<and> serve ''GET'' ''/healthz'' u = Health 503 body"
proof -
  let ?s = "advance (5 * second) booted"
  have n: "second \<le> now ?s" by code_simp
  have m: "transition ?s (Message printing) (on_message printing ?s)" by (rule transition.message)
  obtain u where u: "transition (on_message printing ?s) (Connected False) u" "\<not> m_mqtt_up (v_metrics u)"
    using transition.connected [of "on_message printing ?s" False] by (auto simp: fields)
  then have r: "run_of transition (on_message printing ?s) [Connected False] u" by auto
  have q: "\<forall>e \<in> set [Connected False]. \<not> reporting e" by simp
  have "''/healthz'' \<in> {''/healthz'', ''/livez''}" "''GET'' \<in> {''GET'', ''HEAD''}" by simp_all
  from silence_is_unhealthy [OF m r q n this] u r show ?thesis by auto
qed

end
