(* ===== verification/Footage.thy ===== *)
theory Footage
  imports Settings Captures
begin

text \<open>
  What happens to the files of a job while its upload is tried, given up or tried again: they are
  only ever deleted for a video that was posted. The one exception is the parking that does not
  work, which deletes what it cannot move.
\<close>

section \<open>Calls that only read\<close>

lemma on_os_tree: "(\<And>os. tree (fst (f os)) = tree os) \<Longrightarrow> tree (w_os (fst (on_os f w))) = tree (w_os w)"
  by (simp add: on_os_def split_beta)

lemma find_video_tree: "tree (fst (find_video os dir)) = tree os"
  by (simp add: find_video_def split_beta)

lemma read_caption_tree: "tree (fst (read_caption os dir)) = tree os"
  by (simp add: read_caption_def split_beta)

lemma remove_all_other: "\<not> prefix p q \<Longrightarrow> file_at (fst (os_remove_all os p)) q = file_at os q"
proof (cases "os_remove_all os p")
  case (Pair os' ok)
  assume "\<not> prefix p q"
  then show ?thesis
  proof (cases ok)
    case True
    with Pair os_remove_all_ok(1) [of os p os' q] \<open>\<not> prefix p q\<close> show ?thesis by simp
  next
    case False
    with Pair have "tree os' = tree os" using os_remove_all_failed [of os p] by simp
    with Pair show ?thesis using views_tree(1) [of os' os q] by simp
  qed
qed

section \<open>A parked upload\<close>

text \<open>One entry: nothing on disk has changed, or it was posted and its directory is gone.\<close>

lemma retry_entry_tree:
  assumes "retry_entry printable u t w dir net = (w', v)"
  shows "if v = Some Posted
    then \<exists>os. tree os = tree (w_os w) \<and> tree (w_os w') = tree (fst (os_remove_all os dir))
    else tree (w_os w') = tree (w_os w)"
proof -
  obtain w1 video where w1: "on_os (\<lambda>os. find_video os dir) w = (w1, video)" by fastforce
  have t1: "tree (w_os w1) = tree (w_os w)"
    using w1 on_os_tree [of "\<lambda>os. find_video os dir" w] by (simp add: find_video_tree)
  show ?thesis
  proof (cases video)
    case None
    with w1 t1 assms show ?thesis by (auto simp: retry_entry_def)
  next
    case (Some p)
    obtain w2 info where w2: "on_os (\<lambda>os. os_stat os (dir @ [''cover.jpg''])) w1 = (w2, info)" by fastforce
    obtain w3 width height where w3: "dimensions w2 t p = (w3, width, height)" using prod_cases3 by blast
    obtain w4 cap where w4: "on_os (\<lambda>os. read_caption os dir) w3 = (w4, cap)" by fastforce
    let ?rq = "\<lparr>rq_video = p, rq_cover = (if info = None then None else Some (dir @ [''cover.jpg''])),
        rq_filename = last p, rq_caption = cap, rq_duration = 0, rq_width = width, rq_height = height\<rparr>"
    let ?post = "\<lambda>os. let (os', m, v) = post printable u os ?rq (fst net) (snd net) in (os', v)"
    obtain w5 verdict where w5: "on_os ?post w4 = (w5, verdict)" by fastforce
    have t2: "tree (w_os w2) = tree (w_os w1)"
      using w2 on_os_tree [of "\<lambda>os. os_stat os (dir @ [''cover.jpg''])" w1] by simp
    have t3: "w_os w3 = w_os w2" using w3 dimensions_os [of w2 t p] by simp
    have t4: "tree (w_os w4) = tree (w_os w3)"
      using w4 on_os_tree [of "\<lambda>os. read_caption os dir" w3] by (simp add: read_caption_tree)
    have t5: "tree (w_os w5) = tree (w_os w4)"
      using w5 on_os_tree [of ?post w4] by (simp add: split_beta post_tree)
    have w': "(w', v) = (if verdict = Posted then (fst (on_os (\<lambda>os. os_remove_all os dir) w5), Some Posted)
        else (w5, Some verdict))"
      using assms w1 Some w2 w3 w4 w5 by (simp add: retry_entry_def Let_def)
    have "w_os (fst (on_os f w5)) = fst (f (w_os w5))" for f :: "disk \<Rightarrow> disk \<times> bool" by (simp add: on_os_def split_beta)
    with w' t1 t2 t3 t4 t5 show ?thesis by (auto split: if_splits)
  qed
qed

text \<open>C18: a parked upload is kept until it is posted: a retry changes no file but those of an entry that was
  parked for its upload and is counted as posted by this very step.\<close>

theorem retry_keeps_footage:
  assumes "transition s (RetryNext seed r) t" and "file_at (w_os (v_world s)) q = Some c"
  shows "file_at (w_os (v_world t)) q = Some c \<and> v_metrics t \<in> {v_metrics s, count_upload ''ok'' (v_metrics s)}
    \<or> (\<exists>name rest. v_parked s = (name, True) # rest \<and> has_prefix name ''upload-failed-''
        \<and> prefix (st_failed (v_store s) @ [name]) q \<and> v_metrics t = count_upload ''ok'' (v_metrics s))"
proof -
  obtain name d rest where p: "v_parked s = (name, d) # rest" and t: "t = retry_next (seed, r) s"
    using assms(1) by (auto elim!: transition.cases simp: neq_Nil_conv)
  let ?dir = "st_failed (v_store s) @ [name]"
  show ?thesis
  proof (cases "\<not> d \<or> \<not> has_prefix name ''upload-failed-''")
    case True
    then have "v_world t = v_world s \<and> v_metrics t = v_metrics s" using p by (simp add: t retry_next_def)
    with assms(2) show ?thesis by simp
  next
    case False
    obtain w v where e: "retry_entry (v_printable s) (svc_uploader s) (svc_tools s) (v_world s) ?dir (seed, r) = (w, v)"
      by fastforce
    have tw: "v_world t = w" "v_metrics t = (if v = Some Posted then count_upload ''ok'' (v_metrics s) else v_metrics s)"
      using p False e by (simp_all add: t retry_next_def)
    show ?thesis
    proof (cases "v = Some Posted")
      case True
      then obtain os where os: "tree os = tree (w_os (v_world s))"
          "tree (w_os w) = tree (fst (os_remove_all os ?dir))"
        using retry_entry_tree [OF e] by auto
      have same: "file_at (w_os w) q = Some c" if "\<not> prefix ?dir q"
      proof -
        have "file_at (w_os w) q = file_at (fst (os_remove_all os ?dir)) q" using os(2) by (rule views_tree(1))
        also have "\<dots> = file_at os q"
          using that by (rule remove_all_other)
        also have "\<dots> = Some c" using os(1) assms(2) views_tree(1) by metis
        finally show ?thesis .
      qed
      have "prefix ?dir q \<Longrightarrow> ?thesis" using tw True p False by simp
      with same tw True show ?thesis by fastforce
    next
      case n: False
      then have "tree (w_os w) = tree (w_os (v_world s))" using retry_entry_tree [OF e] by simp
      then show ?thesis using tw n assms(2) views_tree(1) [of "w_os w" "w_os (v_world s)" q] by simp
    qed
  qed
qed

section \<open>The directories of the jobs\<close>

text \<open>The directories a job can have: next to \<open>failed\<close>, or parked in it.\<close>

definition place :: "store \<Rightarrow> path \<Rightarrow> bool" where
  "place st d \<longleftrightarrow> (\<exists>n. d = st_root st @ [n] \<and> n \<noteq> ''failed'') \<or> (\<exists>n. d = st_failed st @ [n])"

lemma in_store_place: "in_store st x \<Longrightarrow> place st (s_dir x)"
  by (auto simp: in_store_def place_def)

text \<open>A step of a finalisation leaves every session alone but its own, and that one too until it is
  finished; then it is where it was or parked.\<close>

definition stays_or_parks :: "svc \<Rightarrow> nat \<Rightarrow> session \<Rightarrow> bool" where
  "stays_or_parks s i x \<longleftrightarrow> s_dir x = s_dir (obj s i) \<or> (\<exists>n. s_dir x = st_failed (v_store s) @ [n])"

lemma park_heap: "\<exists>x. v_heap (park_job i r s) = (v_heap s)[i := x] \<and> stays_or_parks s i x"
proof -
  let ?f = "\<lambda>os. let (os', x, ok) = park os (v_store s) (obj s i) r in (os', x)"
  obtain s1 x where o: "on_disk ?f s = (s1, x)" by fastforce
  have "v_heap s1 = v_heap s" "x = snd (?f (w_os (v_world s)))" using on_disk_pair [OF o] by simp_all
  moreover have "stays_or_parks s i (snd (?f os))" for os
    by (auto simp: stays_or_parks_def park_def park_dir_def Let_def split: prod.split)
  ultimately show ?thesis using o by (auto simp: park_job_def upd_obj_def)
qed

definition own_heap :: "svc \<Rightarrow> nat \<Rightarrow> svc \<Rightarrow> bool" where
  "own_heap s k t \<longleftrightarrow>
     v_heap t = v_heap s
     \<or> f_phase (v_finals t ! k) = Finished
       \<and> (\<exists>x. v_heap t = (v_heap s)[f_ref (v_finals s ! k) := x] \<and> stays_or_parks s (f_ref (v_finals s ! k)) x)"

lemma stays_same: "v_heap u = v_heap s \<Longrightarrow> v_store u = v_store s \<Longrightarrow> stays_or_parks u i x = stays_or_parks s i x"
  by (simp add: stays_or_parks_def obj_def)

lemma own_heap_park:
  assumes "k < length (v_finals s)" and "v_heap u = v_heap s" and "v_finals u = v_finals s" and "v_store u = v_store s"
  shows "own_heap s k (set_phase k Finished (park_job (f_ref (v_finals s ! k)) r u))"
  using park_heap [of "f_ref (v_finals s ! k)" r u] assms stays_same [OF assms(2,4)]
  by (auto simp: own_heap_def fields phase_of_set_phase)

lemma own_heap_give_up:
  assumes "k < length (v_finals s)" and "v_heap u = v_heap s" and "v_finals u = v_finals s" and "v_store u = v_store s"
  shows "own_heap s k (give_up k u)"
  unfolding give_up_def assms(3) by (rule own_heap_park) (simp_all add: assms fields)

lemma deliver_heap:
  "\<exists>x. v_heap (deliver_locally i v c n m s) = v_heap s
     \<or> v_heap (deliver_locally i v c n m s) = (v_heap s)[i := x] \<and> stays_or_parks s i x"
proof -
  obtain s1 ok where o: "on_disk (\<lambda>os. deliver_files os (v_output s) v c n m) s = (s1, ok)" by fastforce
  have h: "v_heap s1 = v_heap s" "v_store s1 = v_store s" using on_disk_pair [OF o] by simp_all
  with o park_heap [of i "''output-unwritable''" s1] stays_same [OF h]
  show ?thesis by (auto simp: deliver_locally_def fields)
qed

lemma own_heap_finalising:
  assumes "transition s e t" and "finalising e = Some k"
  shows "own_heap s k t"
  using assms(1)
proof (cases rule: transition.cases)
  case (render j elapsed cover)
  then have j: "j = k" and k: "k < length (v_finals s)" using assms(2) by simp_all
  show ?thesis
  proof (cases rule: render_outcome [where s = s and k = k and e = elapsed and cover = cover])
    case (broken w)
    have "own_heap s k (set_phase k Finished (park_job (f_ref (v_finals s ! k)) r (count f (s\<lparr>v_world := w\<rparr>))))" for f r
      by (rule own_heap_park [OF k]) (simp_all add: fields)
    with broken render j show ?thesis by simp
  next
    case (kept f w video cap name)
    let ?u = "fst (on_disk f (s\<lparr>v_world := w\<rparr>))"
    have h: "v_heap ?u = v_heap s" "v_store ?u = v_store s" by (simp_all add: fields)
    obtain x where "v_heap (render k elapsed cover s) = v_heap s
        \<or> v_heap (render k elapsed cover s) = (v_heap s)[f_ref (v_finals s ! k) := x]
          \<and> stays_or_parks s (f_ref (v_finals s ! k)) x"
      using deliver_heap [of "f_ref (v_finals s ! k)" video cover cap name ?u] stays_same [OF h]
      unfolding kept(3) by (auto simp: fields)
    moreover have "f_phase (v_finals (render k elapsed cover s) ! k) = Finished"
      using kept k by (simp add: phase_of_set_phase fields)
    ultimately show ?thesis using render j by (auto simp: own_heap_def)
  qed (use render j in \<open>simp_all add: own_heap_def fields\<close>)
next
  case (attempt j rq n seed r)
  then have j: "j = k" and k: "k < length (v_finals s)" using assms(2) by simp_all
  show ?thesis
  proof (cases rule: attempt_outcome [where s = s and k = k and rq = rq and n = n and seed = seed and r = r])
    case (given_up w)
    with attempt j own_heap_give_up [OF k, of "s\<lparr>v_world := w\<rparr>"] show ?thesis by simp
  qed (use attempt j in \<open>simp_all add: own_heap_def fields\<close>)
next
  case (wait_over j rq n due)
  then show ?thesis using assms(2) own_heap_give_up [of k s s]
    by (auto simp: after_wait_def own_heap_def fields)
qed (use assms(2) in \<open>auto simp: own_heap_def end_drain_def take_cover_def Let_def split_beta fields\<close>)

text \<open>Every session has a place; one that is not finished lives next to \<open>failed\<close>; and the grab in flight
  writes into a place.\<close>

definition housed :: "svc \<Rightarrow> bool" where
  "housed s \<longleftrightarrow>
     sound s \<and> st_failed (v_store s) = st_root (v_store s) @ [''failed'']
     \<and> (\<forall>i < length (v_heap s). place (v_store s) (s_dir (obj s i)) \<and> (\<not> finished s i \<longrightarrow> in_store (v_store s) (obj s i)))
     \<and> (\<forall>c d. v_capture s = Some c \<and> cp_dest c = Some d \<longrightarrow> (\<exists>dir n. place (v_store s) dir \<and> d = dir @ [frame_name n]))"

lemma housed_message:
  assumes "housed s" and "t = on_message p s" and "sound t"
  shows "housed t"
proof -
  have d: "dirs.same s t" using dirs.same_message assms(2) by simp
  have "settled_first s" using assms(1) by (simp add: housed_def sound_def)
  then obtain fs where fs: "v_finals t = v_finals s @ fs"
    using reported_message reported_finals assms(2) by metis
  have st: "v_store t = v_store s" using d by (simp add: dirs.same_def)
  have "place (v_store t) (s_dir (obj t i)) \<and> (\<not> finished t i \<longrightarrow> in_store (v_store t) (obj t i))"
    if i: "i < length (v_heap t)" for i
  proof -
    have n: "finished s i \<Longrightarrow> finished t i" using fs by (auto simp: finished_def)
    from dirs.promised_view [OF d i] show ?thesis
    proof
      assume o: "i < length (v_heap s) \<and> s_dir (obj t i) = s_dir (obj s i)"
      then have "place (v_store s) (s_dir (obj s i))" "\<not> finished s i \<longrightarrow> in_store (v_store s) (obj s i)"
        using assms(1) by (simp_all add: housed_def)
      with o n st show ?thesis by (auto simp: in_store_def)
    qed (use st in_store_place in simp)
  qed
  moreover have "v_capture s = Some c" if "v_capture t = Some c" "cp_dest c = Some x" for c x
    using capture_message [of p s c] that assms(2) by simp
  ultimately show ?thesis using d assms(1,3) unfolding housed_def dirs.same_def by metis
qed

lemma housed_finalising:
  assumes "transition s e t" and "finalising e = Some k" and "housed s" and "sound t"
  shows "housed t"
proof -
  obtain p where k: "k < length (v_finals s)" and m: "phase_moved s k p t"
    and w: "phase_work p < phase_work (f_phase (v_finals s ! k))"
    using finalising_moves [OF assms(1,2)] by blast
  have st: "v_store t = v_store s" using settings_transition [OF assms(1)] by (simp add: settings_def)
  have nf: "f_phase (v_finals s ! k) \<noteq> Finished" using w by auto
  let ?r = "f_ref (v_finals s ! k)"
  have refs: "refs_svc s" using assms(3) by (simp add: housed_def sound_def good_def)
  have r: "?r < length (v_heap s)" by (rule refs_final [OF refs k])
  have fin: "finished t i \<longleftrightarrow> (if i = ?r then p = Finished else finished s i)" for i
    using finished_moved(1) [OF m k refs nf] .
  have own: "\<not> finished s ?r" using finished_moved(2) [OF m k refs nf] .
  have old: "place (v_store s) (s_dir (obj s i)) \<and> (\<not> finished s i \<longrightarrow> in_store (v_store s) (obj s i))"
    if "i < length (v_heap s)" for i
    using assms(3) that by (simp add: housed_def)
  have "place (v_store t) (s_dir (obj t i)) \<and> (\<not> finished t i \<longrightarrow> in_store (v_store t) (obj t i))"
    if i: "i < length (v_heap t)" for i
  proof -
    have l: "i < length (v_heap s)" using i m by (simp add: phase_moved_def)
    show ?thesis
      using own_heap_finalising [OF assms(1,2)]
    proof (unfold own_heap_def, elim disjE conjE exE)
      assume "v_heap t = v_heap s"
      then have "obj t i = obj s i" by (simp add: obj_def)
      moreover have "finished s i \<Longrightarrow> finished t i" using fin own by (cases "i = ?r") simp_all
      ultimately show ?thesis using old [OF l] st by auto
    next
      fix x assume f: "f_phase (v_finals t ! k) = Finished" and h: "v_heap t = (v_heap s)[?r := x]"
        and x: "stays_or_parks s ?r x"
      have ft: "finished t ?r" using f k m by (simp add: fin phase_moved_def)
      show ?thesis
      proof (cases "i = ?r")
        case True
        then have "obj t i = x" using h r by (simp add: obj_def)
        with x old [OF r] True ft st show ?thesis by (auto simp: stays_or_parks_def place_def)
      next
        case False
        then have "obj t i = obj s i" using h by (simp add: obj_def)
        with old [OF l] st False fin show ?thesis by simp
      qed
    qed
  qed
  moreover have "v_capture t = v_capture s" using frames_finalising [OF assms(1)] assms(2) by simp
  ultimately show ?thesis using st assms(3,4) by (auto simp: housed_def)
qed

lemma dir_upd: "(\<And>x. s_dir (f x) = s_dir x) \<Longrightarrow> s_dir (obj (upd_obj i f s) j) = s_dir (obj s j)"
  by (cases "i < length (v_heap s)") (auto simp: upd_obj_def obj_def nth_list_update list_update_beyond)

lemma quiet_dirs:
  assumes "transition s e t" and "finalising e = None" and "\<not> reporting e"
  shows "v_finals t = v_finals s \<and> length (v_heap t) = length (v_heap s)
    \<and> s_dir (obj t i) = s_dir (obj s i)"
  using assms(1)
proof (cases rule: transition.cases)
  case (grab_ends c dest)
  have "s_dir (keep_frame ly x) = s_dir x" for ly x by (simp add: keep_frame_def)
  moreover have "obj (s\<lparr>v_world := w, v_capture := None\<rparr>) j = obj s j" for w j by (simp add: obj_def)
  ultimately show ?thesis using grab_ends
    by (auto simp: finish_grab_def Let_def fields dir_upd split: prod.split)
qed (use assms(2,3) in \<open>simp_all add: fields obj_def\<close>)

lemma quiet_capture:
  assumes "transition s e t" and "finalising e = None" and "\<not> reporting e" and "v_capture t = Some c" and "cp_dest c = Some d"
  shows "v_capture s = Some c \<or> (\<exists>b. v_capture s = Some b \<and> cp_ref b = cp_ref c \<and> d = frame_path (obj s (cp_ref c)))"
proof -
  have g: "v_capture (finish_grab b x s) = None" for b x by (simp add: finish_grab_def Let_def fields split_beta)
  have k: "v_capture (keep_preview i img u) = v_capture u" "v_capture (retry_next net u) = v_capture u" for i img net u
    by (auto simp: keep_preview_def retry_next_def fields split: option.split list.split prod.split)
  from assms(1) show ?thesis
    by (cases rule: transition.cases) (use assms(2-) g k in \<open>auto simp: shoot_def advance_def fields\<close>)
qed

lemma housed_transition:
  assumes "transition s e t" and "housed s"
  shows "housed t"
proof -
  have "sound s" using assms(2) by (simp add: housed_def)
  from lives.kept [OF assms(1) this] have t: "sound t" .
  show ?thesis
  proof (cases "finalising e")
    case (Some k)
    from housed_finalising [OF assms(1) this assms(2) t] show ?thesis .
  next
    case None
    show ?thesis
    proof (cases "reporting e")
      case True
      with assms(1) have "\<exists>p. t = on_message p s" by (auto elim!: transition.cases)
      then show ?thesis using housed_message [OF assms(2) _ t] by blast
    next
      case False
      have st: "v_store t = v_store s" using settings_transition [OF assms(1)] by (simp add: settings_def)
      note q = quiet_dirs [OF assms(1) None False]
      have "finished t i = finished s i" for i using q by (simp add: finished_def)
      moreover have "\<exists>dir n. place (v_store s) dir \<and> d = dir @ [frame_name n]"
        if c: "v_capture t = Some c" "cp_dest c = Some d" for c d
      proof -
        from quiet_capture [OF assms(1) None False c] show ?thesis
        proof
          assume "\<exists>b. v_capture s = Some b \<and> cp_ref b = cp_ref c \<and> d = frame_path (obj s (cp_ref c))"
          moreover have "refs_svc s" using assms(2) by (simp add: housed_def sound_def good_def)
          ultimately have "cp_ref c < length (v_heap s)" "d = frame_path (obj s (cp_ref c))"
            by (auto simp: refs_svc_def)
          then show ?thesis using assms(2) by (auto simp: housed_def frame_path_def)
        qed (use c assms(2) in \<open>auto simp: housed_def\<close>)
      qed
      ultimately show ?thesis using q st t assms(2) by (auto simp: housed_def in_store_def)
    qed
  qed
qed

interpretation homes: kept_invariant transition housed
  by unfold_locales (rule housed_transition)

lemma started_housed: "started s \<Longrightarrow> housed s"
proof -
  assume a: "started s"
  then obtain to_path printable ttf c w w' s0 space look_path net why
    where n: "new_service to_path printable ttf c w = (w', Some s0)"
      and r: "start_run look_path net why (s0\<lparr>v_statfs := space\<rparr>) = (s, True)"
    by (auto simp: started_def)
  have "st_failed (v_store s0) = st_root (v_store s0) @ [''failed'']"
    using n by (auto simp: new_service_def on_os_def new_store_def Let_def split: prod.splits option.splits if_splits)
  moreover have "v_store s = v_store s0"
    using start_run_store [of look_path net why "s0\<lparr>v_statfs := space\<rparr>"] r by simp
  ultimately show ?thesis using started_sound [OF a] started_fields [OF a] by (simp add: housed_def)
qed

section \<open>An upload that fails\<close>

text \<open>What parking does to the files of a job in the store.\<close>

lemma park_files:
  assumes "park os st x reason = (os', x', ok)" and "st_failed st = st_root st @ [''failed'']" and "in_store st x"
  shows "if ok then file_at os' (park_dir st x reason @ r) = file_at os (s_dir x @ r)
    else \<not> snd (os_rename os (s_dir x) (park_dir st x reason))"
proof (cases ok)
  case True
  then have "os_rename os (s_dir x) (park_dir st x reason) = (os', True)"
    using assms(1) by (auto simp: park_def Let_def split: prod.splits if_splits)
  moreover obtain n where "s_dir x = st_root st @ [n]" "n \<noteq> ''failed''"
    using assms(3) by (auto simp: in_store_def)
  ultimately show ?thesis using os_rename_ok(1) [of os "s_dir x" "park_dir st x reason" os' "park_dir st x reason @ r"] assms(2) True
    by (simp add: park_dir_def)
next
  case False
  then show ?thesis using assms(1) by (auto simp: park_def Let_def split: prod.splits if_splits)
qed

lemma give_up_files:
  assumes "st_failed (v_store s) = st_root (v_store s) @ [''failed'']" and "x = obj s (f_ref (v_finals s ! k))"
    and "in_store (v_store s) x"
  shows "file_at (w_os (v_world (give_up k s))) (park_dir (v_store s) x ''upload-failed'' @ r) = file_at (w_os (v_world s)) (s_dir x @ r)
    \<or> \<not> snd (os_rename (w_os (v_world s)) (s_dir x) (park_dir (v_store s) x ''upload-failed''))"
proof -
  let ?u = "count (count_upload ''failed'') s"
  have u: "obj ?u i = obj s i" "v_store ?u = v_store s" "v_world ?u = v_world s" for i by (simp_all add: fields)
  obtain os' x' ok where p: "park (w_os (v_world s)) (v_store s) x ''upload-failed'' = (os', x', ok)"
    using prod_cases3 by blast
  have "w_os (v_world (give_up k s)) = os'"
    using p assms(2) by (simp add: give_up_def park_job_def on_disk_def on_os_def split_beta u fields)
  with park_files [OF p assms(1,3), of r] show ?thesis by (cases ok) simp_all
qed


end
