(* ===== verification/Neighbours.thy ===== *)
theory Neighbours
  imports Footage
begin

text \<open>
  That the jobs do not get in each other's way. The frames a session holds are files of the staging
  tree, which every goroutine of the daemon writes to; the locale \<open>job_frames\<close> says where such files
  are, and inside it every operation of the program is shown to leave them alone, unless it is the
  end of that very job.
\<close>

section \<open>Files that stay\<close>

locale job_frames =
  fixes st :: store and held :: "path \<Rightarrow> bool"
  assumes where_held: "held q \<Longrightarrow> \<exists>job n. q = st_root st @ [job, frame_name n] \<and> job \<noteq> ''failed''"
begin

definition stays :: "'d os \<Rightarrow> 'd os \<Rightarrow> bool" where
  "stays a b \<longleftrightarrow> (\<forall>q. held q \<longrightarrow> file_at b q = file_at a q)"

definition away :: "path \<Rightarrow> bool" where
  "away p \<longleftrightarrow> (\<forall>q. held q \<longrightarrow> \<not> prefix p q)"

lemma stays_refl [simp]: "stays a a"
  by (simp add: stays_def)

lemma stays_trans: "stays a b \<Longrightarrow> stays b c \<Longrightarrow> stays a c"
  by (simp add: stays_def)

lemma stays_tree: "tree b = tree a \<Longrightarrow> stays a b"
  using views_tree(1) by (auto simp: stays_def)

lemma stays_after_tree: "tree b = tree a \<Longrightarrow> stays b c \<Longrightarrow> stays a c"
  using stays_trans stays_tree by blast

lemma away_below: "away p \<Longrightarrow> away (p @ r)"
  by (auto simp: away_def dest: append_prefixD)

text \<open>A file in a job's directory or a parked one's is no such file if it is not named like one.\<close>

lemma away_name:
  assumes "place st d" and "st_failed st = st_root st @ [''failed'']" and "\<And>n. held (d @ [frame_name n]) \<Longrightarrow> x \<noteq> frame_name n"
  shows "away (d @ [x])"
  unfolding away_def
proof (intro allI impI notI)
  fix q assume q: "held q" "prefix (d @ [x]) q"
  obtain job n where h: "q = st_root st @ [job, frame_name n]" "job \<noteq> ''failed''" using where_held [OF q(1)] by blast
  from assms(1) show False unfolding place_def
  proof (elim disjE exE conjE)
    fix m assume "d = st_root st @ [m]"
    with q h assms(3) show False by auto
  next
    fix m assume "d = st_failed st @ [m]"
    with q(2) h assms(2) show False by simp
  qed
qed

lemma away_parked: "st_failed st = st_root st @ [''failed''] \<Longrightarrow> away (st_failed st @ [n])"
  using where_held by (fastforce simp: away_def)

text \<open>A job's directory without such a file.\<close>

lemma away_job:
  assumes "place st d" and "st_failed st = st_root st @ [''failed'']" and "\<And>n. \<not> held (d @ [frame_name n])"
  shows "away d"
  unfolding away_def
proof (intro allI impI notI)
  fix q assume q: "held q" "prefix d q"
  obtain job n where h: "q = st_root st @ [job, frame_name n]" "job \<noteq> ''failed''" using where_held [OF q(1)] by blast
  from assms(1) show False unfolding place_def
    by (elim disjE exE conjE) (use q h assms(2,3) in auto)
qed

subsection \<open>Calls\<close>

lemma stays_write: "away p \<Longrightarrow> stays os (fst (os_write os p c))"
  unfolding stays_def away_def using os_write_other by (metis prefix_order.refl)

lemma stays_mkdir: "stays os (fst (os_mkdir_all os p))"
  by (simp add: stays_def os_mkdir_all_file)

lemma stays_remove_all: "away p \<Longrightarrow> stays os (fst (os_remove_all os p))"
  by (simp add: stays_def away_def remove_all_other)

lemma stays_remove: "away p \<Longrightarrow> stays os (fst (os_remove os p))"
  by (auto simp: stays_def away_def os_remove_def syscall_def Let_def file_at_def node_at_def del_tree_lookup)

lemma stays_rename:
  assumes "away src" and "away dst" and "\<not> prefix dst src"
  shows "stays os (fst (os_rename os src dst))"
proof (cases "snd (os_rename os src dst) \<and> src \<noteq> dst")
  case True
  then have "os_rename os src dst = (fst (os_rename os src dst), True)" by (metis prod.collapse)
  from os_rename_ok(1) [OF this _ assms(3)] True assms(1,2) show ?thesis by (simp add: stays_def away_def)
next
  case False
  then have "tree (fst (os_rename os src dst)) = tree os"
    using os_rename_failed [of os src dst] by (cases "src = dst") (auto simp: os_rename_def syscall_def Let_def)
  then show ?thesis by (rule stays_tree)
qed

subsection \<open>The store\<close>

lemma state_away:
  assumes "place st d" and "st_failed st = st_root st @ [''failed'']"
  shows "away (d @ [state_file])" and "away (d @ [state_file @ ''.tmp''])" and "away (d @ [preview_file])"
  using away_name [OF assms] frame_name_not_state by metis+

lemma stays_save:
  assumes "place st (s_dir x)" and "st_failed st = st_root st @ [''failed'']"
  shows "stays os (fst (save os x))"
proof (cases "marshal x")
  case (Some d)
  note a = state_away [OF assms]
  obtain os1 ok where w: "os_write os (s_dir x @ [state_file @ ''.tmp'']) (Doc d) = (os1, ok)" by fastforce
  have s1: "stays os os1" using stays_write [OF a(2), of os "Doc d"] w by simp
  have "\<not> prefix (s_dir x @ [state_file]) (s_dir x @ [state_file @ ''.tmp''])" by (simp add: state_file_def)
  from stays_trans [OF s1 stays_rename [OF a(2,1) this, of os1]] s1 w Some show ?thesis by (simp add: save_def)
qed (simp add: save_def)

lemma stays_create:
  assumes "st_failed st = st_root st @ [''failed'']"
  shows "stays os (fst (create os st tid name tot cur))"
proof -
  let ?d = "job_dir st tid"
  obtain os1 x where l: "load os ?d = (os1, x)" by fastforce
  have t: "tree os1 = tree os" using load_tree [of os ?d] l by simp
  show ?thesis
  proof (cases x)
    case (Some y)
    with l t show ?thesis by (simp add: create_def stays_tree)
  next
    case None
    obtain os2 made where m: "os_mkdir_all os1 ?d = (os2, made)" by fastforce
    have s2: "stays os os2" using stays_after_tree [OF t] stays_mkdir [of os1 ?d] m by simp
    have "place st (s_dir (fresh_session os2 ?d tid name tot cur))"
      by (simp add: fresh_session_def job_dir_def place_def)
    from stays_trans [OF s2 stays_save [OF this assms, of os2]] s2 l m None show ?thesis
      by (simp add: create_def Let_def split_beta)
  qed
qed

lemma stays_list: "stays os (fst (list_sessions os st'))"
proof -
  have "tree (fst (load_all os base es)) = tree os" for os :: disk and base es
    by (induction es arbitrary: os) (auto simp: load_tree split_beta Let_def)
  then have "tree (fst (list_sessions os st')) = tree os"
    by (auto simp: list_sessions_def split: prod.splits option.splits) (metis fst_conv os_read_dir_tree)+
  then show ?thesis by (rule stays_tree)
qed

lemma stays_discard: "away (s_dir x) \<Longrightarrow> stays os (discard os x)"
  by (simp add: discard_def stays_remove_all)

lemma stays_park:
  assumes "away (s_dir x)" and "in_store st x" and "st_failed st = st_root st @ [''failed'']"
  shows "stays os (fst (park os st x reason))"
proof -
  let ?d = "park_dir st x reason"
  have "away ?d" by (simp add: park_dir_def away_parked [OF assms(3)])
  moreover have "\<not> prefix ?d (s_dir x)" using assms(2,3) by (auto simp: in_store_def park_dir_def)
  ultimately have r: "stays os (fst (os_rename os (s_dir x) ?d))" using stays_rename assms(1) by blast
  from stays_trans [OF r stays_remove_all [OF assms(1)]] r show ?thesis
    by (simp add: park_def Let_def split_beta)
qed

subsection \<open>The camera and the encoder\<close>

lemma stays_leave: "away p \<Longrightarrow> stays os (leave_file os p b)"
  unfolding stays_def away_def using leave_file_other by (metis prefix_order.refl)

lemma stays_exec_to: "away p \<Longrightarrow> stays (w_os w) (w_os (fst (exec_to w bin args p)))"
  by (simp add: exec_to_def exec_def Let_def split_beta stays_leave)

lemma stays_grab:
  assumes "away p"
  shows "stays (w_os w) (w_os (fst (grab w c p)))"
proof -
  obtain w1 r where e: "exec_to w (ffmpeg_bin (cam_tools c)) (grab_args c p) p = (w1, r)" by fastforce
  have s1: "stays (w_os w) (w_os w1)"
    using stays_exec_to [OF assms, of w "ffmpeg_bin (cam_tools c)" "grab_args c p"] e by simp
  have d: "stays (w_os x) (w_os (drop_file p x))" for x :: "'a world"
    by (simp add: drop_file_def stays_remove [OF assms])
  obtain w2 info where o: "on_os (\<lambda>os. os_stat os p) w1 = (w2, info)" by fastforce
  have "tree (w_os w2) = tree (w_os w1)" using o on_os_fst [of "\<lambda>os. os_stat os p" w1] by simp
  then have s2: "stays (w_os w) (w_os w2)" using s1 stays_tree stays_trans by blast
  show ?thesis
    using e o s1 s2 stays_trans [OF s1 d [of w1]] stays_trans [OF s2 d [of w2]]
    by (auto simp: grab_def split: option.split)
qed

lemma stays_crop: "away dst \<Longrightarrow> stays (w_os w) (w_os (fst (crop_image w t src dst crop)))"
  by (simp add: crop_image_def Let_def split_beta stays_exec_to)

lemma stays_cover:
  assumes "away (s_dir x @ [''cover.jpg''])" and "away (s_dir x @ [''cover-cropped.jpg''])"
  shows "stays (w_os w) (w_os (fst (cover_frame w cam t crop x lst skip)))"
proof -
  obtain w1 cover where c: "cover_candidate w cam x lst skip = (w1, cover)" by fastforce
  have s1: "stays (w_os w) (w_os w1)"
    using c stays_grab [OF assms(1), of w cam] by (auto simp: cover_candidate_def split: if_splits prod.splits)
  obtain w2 info where o: "on_os (\<lambda>os. os_stat os cover) w1 = (w2, info)" by fastforce
  have "tree (w_os w2) = tree (w_os w1)" using o on_os_fst [of "\<lambda>os. os_stat os cover" w1] by simp
  then have s2: "stays (w_os w) (w_os w2)" using s1 stays_tree stays_trans by blast
  from stays_trans [OF s2 stays_crop [OF assms(2), of w2 t cover crop]] s2 c o show ?thesis
    by (simp add: cover_frame_def Let_def split_beta)
qed

lemma stays_encode:
  assumes "away (d @ [commands_file])" and "away out"
  shows "stays (w_os w) (w_os (fst (encode_video w t d out eo)))"
proof -
  obtain w1 stills width height where p: "probe_stills w t d eo = (w1, stills, width, height)" using prod_cases4 by blast
  have w1: "w_os w1 = w_os w"
    using p dimensions_os [of w t "d @ [first_frame]"]
    by (auto simp: probe_stills_def target_size_def Let_def split_beta split: if_splits)
  let ?g = "\<lambda>os. build_graph os d eo (stills \<noteq> []) width height"
  have "stays os (fst (?g os))" for os :: "'a os"
    by (auto simp: build_graph_def overlay_filters_def write_commands_def Let_def stays_write [OF assms(1)] split_beta
        split: option.split list.split prod.split)
  moreover obtain w2 g where o: "on_os ?g w1 = (w2, g)" by fastforce
  ultimately have s2: "stays (w_os w) (w_os w2)" using on_os_fst [of ?g w1] w1 by (metis fst_conv)
  show ?thesis
  proof (cases g)
    case None
    with p o s2 show ?thesis by (simp add: encode_video_def)
  next
    case (Some gl)
    obtain graph label where gl: "gl = (graph, label)" by fastforce
    let ?args = "encode_args d out (eo_fps eo) stills graph label"
    obtain w3 r where e: "exec_to w2 (ffmpeg_bin t) ?args out = (w3, r)" by fastforce
    have s3: "stays (w_os w) (w_os w3)"
      using stays_trans [OF s2 stays_exec_to [OF assms(2), of w2 "ffmpeg_bin t" ?args]] e by simp
    obtain w4 info where i: "on_os (\<lambda>os. os_stat os out) w3 = (w4, info)" by fastforce
    have "tree (w_os w4) = tree (w_os w3)" using i on_os_fst [of "\<lambda>os. os_stat os out" w3] by simp
    then have "stays (w_os w) (w_os w4)" using s3 stays_tree stays_trans by blast
    with p o Some gl e i s3 show ?thesis by (simp add: encode_video_def)
  qed
qed

lemma stays_encode_job:
  assumes "away (s_dir x @ [commands_file])" and "away video"
  shows "stays (w_os w) (w_os (fst (encode_job w t c font x video cover)))"
proof -
  obtain w1 preview where p: "on_os (\<lambda>os. preview_path os x) w = (w1, preview)" by fastforce
  have "tree (w_os w1) = tree (w_os w)"
    using p on_os_fst [of "\<lambda>os. preview_path os x" w] by (auto simp: preview_path_def Let_def split_beta)
  note s1 = stays_tree [OF this]
  let ?o = "job_options c font x preview cover"
  obtain w2 ok where e: "encode_video w1 t (s_dir x) video ?o = (w2, ok)" by fastforce
  have s2: "stays (w_os w) (w_os w2)"
    using stays_trans [OF s1 stays_encode [OF assms, of w1 t ?o]] e by simp
  from stays_trans [OF s2 stays_encode [OF assms, of w2 t "?o\<lparr>eo_overlay := None\<rparr>"]] s2 p e show ?thesis
    by (simp add: encode_job_def Let_def)
qed

subsection \<open>The daemon\<close>

text \<open>What is asked of the daemon: the store is the one of the files, and every session has its place.\<close>

definition at_home :: "svc \<Rightarrow> bool" where
  "at_home s \<longleftrightarrow>
     v_store s = st \<and> st_failed st = st_root st @ [''failed''] \<and> (\<forall>i < length (v_heap s). place st (s_dir (obj s i)))"

definition spared :: "svc \<Rightarrow> svc \<Rightarrow> bool" where
  "spared s t \<longleftrightarrow> stays (w_os (v_world s)) (w_os (v_world t))"

lemma spared_trans: "spared s t \<Longrightarrow> spared t u \<Longrightarrow> spared s u"
  using stays_trans by (auto simp: spared_def)

lemma spared_world: "v_world t = v_world s \<Longrightarrow> spared s t"
  by (simp add: spared_def)

lemma spared_disk: "(\<And>os. stays os (fst (f os))) \<Longrightarrow> spared s (fst (on_disk f s))"
  by (simp add: spared_def on_disk_fst)

lemma home_same: "at_home s \<Longrightarrow> dirs.same s t \<Longrightarrow> at_home t"
  unfolding at_home_def dirs.same_def by (metis in_store_place not_less)

lemma spared_save: "at_home s \<Longrightarrow> i < length (v_heap s) \<Longrightarrow> spared s (save_obj i s)"
  unfolding save_obj_def by (rule spared_disk) (simp add: at_home_def stays_save)

lemma spared_track:
  assumes "at_home s" and "i < length (v_heap s)"
  shows "spared s (track_layer i s)"
proof -
  let ?s1 = "upd_obj i (record_report (v_tel s)) s"
  let ?s2 = "upd_obj i (\<lambda>x. x\<lparr>s_last_layer := layer (v_tel s)\<rparr>) ?s1"
  have "dirs.same s ?s1" "dirs.same ?s1 ?s2" by (rule dirs.same_upd, simp)+
  then have h: "at_home ?s2" using home_same assms(1) by blast
  have w: "v_world ?s2 = v_world s" by (simp add: upd_obj_def)
  have "spared ?s2 (save_obj i ?s2)" by (rule spared_save [OF h]) (use assms(2) in \<open>simp add: fields\<close>)
  moreover have "v_world (start_capture i ly u) = v_world u" for ly u by (simp add: start_capture_def)
  ultimately show ?thesis using w by (simp add: track_layer_def Let_def spared_def upd_obj_def)
qed

lemma spared_begin: "at_home s \<Longrightarrow> spared s (fst (begin_job s))"
proof -
  assume h: "at_home s"
  have c: "spared s (fst (on_disk (\<lambda>os. create os (v_store s) a b c d) s))" for a b c d
    by (rule spared_disk) (use h in \<open>simp add: at_home_def stays_create\<close>)
  show ?thesis
  proof (cases s rule: begin_cases)
    case none
    then show ?thesis by (simp add: spared_def)
  next
    case (failed f)
    with c show ?thesis by simp
  next
    case (opened f x resumed p)
    have "spared s (fst (on_disk f s))" using c opened(2) by simp
    then show ?thesis using opened(4) by (simp add: spared_def)
  qed
qed

lemma spared_running:
  assumes "at_home s" and "good s"
  shows "spared s (handle_running s)"
proof -
  let ?s0 = "switch_job s"
  have w: "v_world ?s0 = v_world s" by (simp add: switch_job_def start_finalize_def split: option.split)
  have g: "good ?s0" by (rule good_switch [OF assms(2)])
  have h0: "at_home ?s0" by (rule home_same [OF assms(1) dirs.same_switch])
  obtain s1 cur where o: "open_job ?s0 = (s1, cur)" by fastforce
  have one: "spared ?s0 s1 \<and> at_home s1 \<and> (\<forall>i. cur = Some i \<longrightarrow> i < length (v_heap s1))"
  proof (cases "v_current ?s0")
    case None
    then have b: "s1 = fst (begin_job ?s0)" "cur = snd (begin_job ?s0)" using o by (simp_all add: open_job_def)
    have "\<forall>i. cur = Some i \<longrightarrow> i < length (v_heap s1)"
      unfolding b by (cases ?s0 rule: begin_cases) simp_all
    with b spared_begin [OF h0] home_same [OF h0 dirs.same_begin] show ?thesis by simp
  next
    case (Some i)
    with o g h0 show ?thesis by (auto simp: open_job_def good_def refs_svc_def spared_def)
  qed
  have "spared ?s0 (handle_running s)"
    using o one spared_track [of s1] spared_trans [of ?s0 s1]
    by (auto simp: handle_running_def split: option.split)
  with w show ?thesis by (simp add: spared_def)
qed

lemma spared_message:
  assumes "at_home s" and "good s"
  shows "spared s (on_message p s)"
proof -
  obtain t ok where m: "merge (v_tel s) p = (t, ok)" by fastforce
  let ?s2 = "observe (s\<lparr>v_last_report := now s div second, v_tel := t\<rparr>)"
  have e: "v_world ?s2 = v_world s" "v_heap ?s2 = v_heap s" "v_finals ?s2 = v_finals s"
    "v_current ?s2 = v_current s" "v_capture ?s2 = v_capture s" "v_store ?s2 = v_store s"
    by (simp_all add: observe_def fields)
  have g: "good ?s2" by (rule good_fields [OF assms(2)]) (simp_all add: e)
  have h: "at_home ?s2" using assms(1) e by (simp add: at_home_def obj_def)
  let ?r = "?s2\<lparr>v_reconciled := True\<rparr>"
  have gr: "good ?r" by (rule good_fields [OF g]) simp_all
  have hr: "at_home ?r" using h by (simp add: at_home_def obj_def)
  have "spared ?r (reconcile ?r)"
  proof -
    let ?f = "\<lambda>os. list_sessions os (v_store ?r)"
    obtain s1 found where o: "on_disk ?f ?r = (s1, found)" by fastforce
    have "spared ?r (fst (on_disk ?f ?r))" by (rule spared_disk) (rule stays_list)
    then have "spared ?r s1" using o by simp
    moreover have "v_world (settle running live xs s1) = v_world s1" for running live xs using settle_effect by blast
    ultimately show ?thesis using o by (auto simp: reconcile_def Let_def spared_def split: option.split)
  qed
  moreover have "good (reconcile ?r)" "at_home (reconcile ?r)"
    using gr wf_reconcile refs_reconcile home_same [OF hr dirs.same_reconcile] by (simp_all add: good_def)
  ultimately have f: "spared ?s2 (first_pass ?s2)" "good (first_pass ?s2)" "at_home (first_pass ?s2)"
    using g h by (auto simp: first_pass_def spared_def)
  have "v_world (handle_ended x u) = v_world u" for x u
    by (simp add: handle_ended_def note_idle_def start_finalize_def split: option.split)
  then have "spared (first_pass ?s2) (handle (first_pass ?s2))"
    using spared_running [OF f(3,2)] by (simp add: handle_def Let_def spared_def)
  then have "spared ?s2 (handle (first_pass ?s2))" by (rule spared_trans [OF f(1)])
  then show ?thesis using m e(1) by (simp add: on_message_def Let_def spared_def)
qed

text \<open>The names the finalisation writes under are no frames.\<close>

lemma own_names_away:
  assumes "place st d" and "st_failed st = st_root st @ [''failed'']"
  shows "away (d @ [''cover.jpg''])" and "away (d @ [''cover-cropped.jpg''])" and "away (d @ [commands_file])"
    and "away (d @ [''caption.txt''])" and "away (d @ [filename printer x])"
proof -
  have l: "last (filename printer x) = CHR ''4''" by (simp add: filename_def Let_def)
  have ne: "filename printer x \<noteq> frame_name n" for n
  proof
    assume "filename printer x = frame_name n"
    then have "last (frame_name n) = CHR ''4''" using l by simp
    then show False by (simp add: frame_name_def)
  qed
  show "away (d @ [filename printer x])" by (rule away_name [OF assms]) (rule ne)
qed (rule away_name [OF assms]; simp add: frame_name_def commands_file_def)+

lemma spared_discard: "away (s_dir (obj s i)) \<Longrightarrow> spared s (discard_job i s)"
  unfolding discard_job_def by (rule spared_disk) (simp add: stays_discard)

lemma spared_park:
  assumes "at_home s" and "away (s_dir (obj s i))" and "in_store st (obj s i)"
  shows "spared s (park_job i r s)"
proof -
  let ?f = "\<lambda>os. let (os', x, ok) = park os (v_store s) (obj s i) r in (os', x)"
  have "stays os (fst (?f os))" for os
    using stays_park [OF assms(2,3), of os r] assms(1) by (simp add: at_home_def split_beta)
  then have "spared s (fst (on_disk ?f s))" by (rule spared_disk)
  moreover have "v_world (upd_obj j g u) = v_world u" for j g u by (simp add: upd_obj_def)
  ultimately show ?thesis by (simp add: park_job_def split_beta spared_def)
qed

lemma spared_give_up:
  assumes "at_home u" and "away (s_dir (obj u (f_ref (v_finals u ! k))))" and "in_store st (obj u (f_ref (v_finals u ! k)))"
  shows "spared u (give_up k u)"
proof -
  let ?c = "count (count_upload ''failed'') u"
  have "at_home ?c" "obj ?c i = obj u i" for i using assms(1) by (simp_all add: at_home_def fields)
  from spared_park [OF this(1), of "f_ref (v_finals u ! k)"] this(2) assms(2,3)
  show ?thesis by (simp add: give_up_def spared_def fields set_phase_def count_def)
qed

lemma spared_render:
  assumes "at_home s" and "k < length (v_finals s)" and "c_api_url (v_cfg s) \<noteq> []"
    and x: "x = obj s (f_ref (v_finals s ! k))" and r: "f_ref (v_finals s ! k) < length (v_heap s)"
    and ends: "f_phase (v_finals (render k e cover s) ! k) = Finished \<Longrightarrow> away (s_dir x) \<and> in_store st x"
  shows "spared s (render k e cover s)"
proof -
  have pl: "place st (s_dir x)" and fd: "st_failed st = st_root st @ [''failed'']"
    using assms(1) r x by (simp_all add: at_home_def)
  note own = own_names_away [OF pl fd]
  have wset: "v_world (set_phase j q u) = v_world u" for j q u by (simp add: set_phase_def)
  let ?v = "s_dir x @ [filename (c_printer (v_cfg s)) x]"
  have v: "away ?v" by (rule own(5))
  obtain w ok where enc: "encode_job (v_world s) (svc_tools s) (v_cfg s) (v_font s) x ?v cover = (w, ok)" by fastforce
  have sw: "spared s (s\<lparr>v_world := w\<rparr>)"
    using stays_encode_job [OF own(3) v, of "v_world s" "svc_tools s" "v_cfg s" "v_font s" cover] enc
    by (simp add: spared_def)
  have fin: "f_phase (v_finals (set_phase k Finished u) ! k) = Finished" if "v_finals u = v_finals s" for u
    using that assms(2) by (simp add: phase_of_set_phase)
  consider "s_frames x < c_min_frames (v_cfg s)" | "\<not> s_frames x < c_min_frames (v_cfg s)" "\<not> ok"
    | "\<not> s_frames x < c_min_frames (v_cfg s)" "ok" by blast
  then show ?thesis
  proof cases
    case 1
    let ?u = "count (count_upload ''skipped'') s"
    have t: "render k e cover s = set_phase k Finished (discard_job (f_ref (v_finals s ! k)) ?u)"
      using 1 x by (simp add: render_def Let_def)
    have "away (s_dir (obj ?u (f_ref (v_finals s ! k))))" using ends fin t x by (simp add: fields)
    from spared_discard [OF this] show ?thesis by (simp add: t wset spared_def fields)
  next
    case 2
    let ?u = "count (count_upload ''failed'') (s\<lparr>v_world := w\<rparr>)"
    have t: "render k e cover s = set_phase k Finished (park_job (f_ref (v_finals s ! k)) ''encode-failed'' ?u)"
      using 2 enc x by (simp add: render_def Let_def)
    have o: "obj ?u j = obj s j" for j by (simp add: obj_def count_def)
    have h: "at_home ?u" using assms(1) o by (simp add: at_home_def fields)
    have "away (s_dir x) \<and> in_store st x" using ends fin t by (simp add: fields)
    then have "spared ?u (park_job (f_ref (v_finals s ! k)) ''encode-failed'' ?u)"
      using spared_park [OF h] o x by simp
    then show ?thesis using spared_trans [OF sw] by (simp add: t wset spared_def fields count_def)
  next
    case 3
    let ?cap = "caption (c_printer (v_cfg s)) x (f_end (v_finals s ! k) = state_finish) e"
    let ?f = "\<lambda>os. os_write os (s_dir x @ [''caption.txt'']) (Bytes ?cap)"
    let ?s2 = "fst (on_disk ?f (s\<lparr>v_world := w\<rparr>))"
    have s2: "spared s ?s2" by (rule spared_trans [OF sw spared_disk]) (rule stays_write [OF own(4)])
    obtain s3 rq where rq: "job_request (f_ref (v_finals s ! k)) ?v cover ?cap (filename (c_printer (v_cfg s)) x) ?s2 = (s3, rq)"
      by fastforce
    have "tree (w_os (v_world s3)) = tree (w_os (v_world ?s2))"
      using rq by (auto simp: job_request_def on_disk_def on_os_def split_beta preview_path_def Let_def)
    from stays_tree [OF this] have "spared s s3" using s2 stays_trans unfolding spared_def by blast
    moreover have "render k e cover s = set_phase k (Posting rq 1) s3"
      using 3 assms(3) enc rq x by (simp add: render_def Let_def)
    ultimately show ?thesis by (simp add: spared_def wset)
  qed
qed

lemma spared_finalising:
  assumes "transition s e t" and "finalising e = Some k" and "at_home s" and "refs_svc s" and "c_api_url (v_cfg s) \<noteq> []"
    and x: "x = obj s (f_ref (v_finals s ! k))"
    and ends: "f_phase (v_finals t ! k) = Finished \<Longrightarrow> away (s_dir x) \<and> in_store st x"
  shows "spared s t"
  using assms(1)
proof (cases rule: transition.cases)
  case (drained j limit)
  then show ?thesis by (simp add: end_drain_def set_phase_def spared_def Let_def)
next
  case (cover_due j el l due)
  then have j: "j = k" "k < length (v_finals s)" using assms(2) by simp_all
  then have "place st (s_dir x)" "st_failed st = st_root st @ [''failed'']"
    using assms(3,4) refs_final x by (simp_all add: at_home_def)
  note own = own_names_away [OF this]
  show ?thesis using cover_due j x stays_cover [OF own(1,2)]
    by (simp add: take_cover_def Let_def split_beta set_phase_def spared_def)
next
  case (render j el cover)
  then have j: "j = k" "k < length (v_finals s)" using assms(2) by simp_all
  have "spared s (render k el cover s)"
    by (rule spared_render [OF assms(3) j(2) assms(5) x refs_final [OF assms(4) j(2)]]) (use ends render j in simp)
  with render j show ?thesis by simp
next
  case (attempt j rq n seed r)
  then have j: "j = k" "k < length (v_finals s)" using assms(2) by simp_all
  have to: "spared s (u\<lparr>v_world := w\<rparr>)" if "tree (w_os w) = tree (w_os (v_world s))" for u w
    using that by (simp add: spared_def stays_tree)
  show ?thesis
  proof (cases rule: attempt_outcome [where s = s and k = k and rq = rq and n = n and seed = seed and r = r])
    case (posted w)
    let ?u = "count (\<lambda>m. (count_upload ''ok'' m)\<lparr>m_last_upload := Some (now s)\<rparr>) (s\<lparr>v_world := w\<rparr>)"
    have o: "obj ?u i = obj s i" for i by (simp add: obj_def count_def)
    have "f_phase (v_finals t ! k) = Finished" using posted attempt j by (simp add: phase_of_set_phase fields)
    then have "away (s_dir (obj ?u (f_ref (v_finals s ! k))))" using ends o x by simp
    from spared_discard [OF this] to [OF posted(1), of s] posted(2) attempt j show ?thesis
      by (auto simp: spared_def set_phase_def count_def intro: stays_trans)
  next
    case (again w)
    with attempt j to [OF again(1), of s] show ?thesis by (simp add: spared_def set_phase_def)
  next
    case (given_up w)
    let ?u = "s\<lparr>v_world := w\<rparr>"
    have o: "obj ?u i = obj s i" for i by (simp add: obj_def)
    have h: "at_home ?u" using assms(3) o by (simp add: at_home_def)
    have "f_phase (v_finals t ! k) = Finished" using given_up attempt j give_up_phase [of ?u k] by (simp add: phase_moved_def)
    then have "spared ?u (give_up k ?u)" using spared_give_up [OF h, of k] ends o x by simp
    with to [OF given_up(1), of s] given_up(2) attempt j show ?thesis using spared_trans by simp
  qed
next
  case (wait_over j rq n due)
  then have j: "j = k" "k < length (v_finals s)" using assms(2) by simp_all
  have "f_phase (v_finals (give_up k s) ! k) = Finished" using j(2) give_up_phase [of s k] by (simp add: phase_moved_def)
  then show ?thesis using wait_over j x ends spared_give_up [OF assms(3), of k]
    by (auto simp: after_wait_def set_phase_def spared_def split: if_splits)
qed (use assms(2) in simp_all)

lemma spared_grab:
  assumes "at_home s" and "cp_ref c < length (v_heap s)" and "away dest"
  shows "spared s (finish_grab c dest s)"
proof -
  obtain w ok where g: "grab (v_world s) (svc_camera s) dest = (w, ok)" by fastforce
  let ?u = "upd_obj (cp_ref c) (keep_frame (cp_layer c)) (s\<lparr>v_world := w, v_capture := None\<rparr>)"
  have s1: "stays (w_os (v_world s)) (w_os w)" using stays_grab [OF assms(3), of "v_world s" "svc_camera s"] g by simp
  have d: "s_dir (obj ?u j) = s_dir (obj s j)" for j
    by (subst dir_upd) (simp_all add: keep_frame_def obj_def)
  have "at_home ?u" using assms(1) d by (simp add: at_home_def fields upd_obj_def)
  from spared_save [OF this, of "cp_ref c"] assms(2) have "spared ?u (save_obj (cp_ref c) ?u)" by (simp add: upd_obj_def)
  then have "stays (w_os w) (w_os (v_world (save_obj (cp_ref c) ?u)))" by (simp add: spared_def upd_obj_def)
  with stays_trans [OF s1 this] s1 g show ?thesis
    by (auto simp: finish_grab_def Let_def spared_def fields count_def)
qed

lemma spared_preview:
  assumes "at_home s" and "i < length (v_heap s)"
  shows "spared s (keep_preview i img s)"
proof (cases img)
  case (Some b)
  have "place st (s_dir (obj s i))" "st_failed st = st_root st @ [''failed'']" using assms by (simp_all add: at_home_def)
  from state_away(3) [OF this] Some show ?thesis
    by (auto simp: keep_preview_def intro: spared_disk stays_write)
qed (simp add: keep_preview_def spared_def)

lemma spared_retry:
  assumes "at_home s"
  shows "spared s (retry_next net s)"
proof (cases "v_parked s")
  case (Cons e rest)
  obtain name d where e: "e = (name, d)" by fastforce
  let ?dir = "st_failed (v_store s) @ [name]"
  obtain w v where r: "retry_entry (v_printable s) (svc_uploader s) (svc_tools s) (v_world s) ?dir net = (w, v)" by fastforce
  have "stays (w_os (v_world s)) (w_os w)"
  proof (cases "v = Some Posted")
    case True
    then obtain os where os: "tree os = tree (w_os (v_world s))" "tree (w_os w) = tree (fst (os_remove_all os ?dir))"
      using retry_entry_tree [OF r] by auto
    have "away ?dir" using assms away_parked by (simp add: at_home_def)
    from stays_remove_all [OF this, of os] os show ?thesis using stays_tree stays_trans by metis
  next
    case False
    then show ?thesis using retry_entry_tree [OF r] by (simp add: stays_tree)
  qed
  with Cons e r show ?thesis by (auto simp: retry_next_def spared_def)
qed (simp add: retry_next_def spared_def)

end

section \<open>Previews that are asked for\<close>

text \<open>A preview is asked for a session that exists.\<close>

definition asked :: "svc \<Rightarrow> bool" where
  "asked s \<longleftrightarrow> (\<forall>i \<in> set (v_previews s). i < length (v_heap s))"

lemma asked_same: "asked s \<Longrightarrow> v_previews t = v_previews s \<Longrightarrow> length (v_heap s) \<le> length (v_heap t) \<Longrightarrow> asked t"
  by (fastforce simp: asked_def)

interpretation asks: off_books v_previews
  by unfold_locales simp_all

lemma asked_begin: "asked s \<Longrightarrow> asked (fst (begin_job s))"
proof -
  assume a: "asked s"
  let ?f = "\<lambda>os. create os (v_store s) (task_id (v_tel s)) (job_name (v_tel s)) (total_layers (v_tel s)) (layer (v_tel s))"
  obtain s1 r where o: "on_disk ?f s = (s1, r)" by fastforce
  have s1: "v_heap s1 = v_heap s" "v_previews s1 = v_previews s"
    using on_disk_pair [OF o] asks.through_disk [OF o] by simp_all
  then have "asked s1" using a by (simp add: asked_def)
  with o s1 a show ?thesis by (auto simp: begin_job_def Let_def asked_def less_Suc_eq split: option.split)
qed

lemma asked_message: "asked s \<Longrightarrow> asked (on_message p s)"
proof -
  assume a: "asked s"
  have heap: "length (v_heap u) \<le> length (v_heap v)" if "dirs.same u v" for u v using that by (simp add: dirs.same_def)
  have run: "asked (handle_running u)" if u: "asked u" for u
  proof -
    have "v_previews (switch_job u) = v_previews u"
      by (simp add: switch_job_def start_finalize_def split: option.split)
    then have "asked (switch_job u)" using asked_same [OF u] heap [OF dirs.same_switch] by blast
    moreover obtain s1 cur where o: "open_job (switch_job u) = (s1, cur)" by fastforce
    ultimately have "asked s1" using asked_begin [of "switch_job u"] by (auto simp: open_job_def split: option.splits)
    moreover from this have "asked (track_layer i s1)" for i
      by (rule asked_same [OF _ asks.jobs(8) heap [OF dirs.same_track]])
    ultimately show ?thesis using o by (simp add: handle_running_def split: option.split)
  qed
  have "v_previews (handle_ended st u) = v_previews u \<and> v_heap (handle_ended st u) = v_heap u" for st u
    by (simp add: handle_ended_def start_finalize_def note_idle_def split: option.split)
  then have h: "asked (handle u)" if "asked u" for u
    using that run [OF that] by (auto simp: handle_def Let_def asked_def)
  obtain t ok where m: "merge (v_tel s) p = (t, ok)" by fastforce
  let ?s2 = "observe (s\<lparr>v_last_report := now s div second, v_tel := t\<rparr>)"
  have s2: "asked ?s2" using a by (simp add: asked_def observe_def count_def)
  have "asked (reconcile u)" if "asked u" for u
    using asked_same [OF that asks.reconciles heap [OF dirs.same_reconcile]] .
  then have "asked (first_pass ?s2)" using s2 by (auto simp: first_pass_def asked_def)
  with a m h show ?thesis by (simp add: on_message_def Let_def asked_def)
qed

lemma asked_transition:
  assumes "transition s e t" and "asked s"
  shows "asked t"
  using assms(1)
proof (cases rule: transition.cases)
  case (message p)
  with asked_message [OF assms(2)] show ?thesis by simp
next
  case (preview i img)
  have "v_previews (keep_preview i img u) = v_previews u \<and> v_heap (keep_preview i img u) = v_heap u" for u
    by (simp add: keep_preview_def keeps_settings fields split: option.split)
  with preview assms(2) show ?thesis by (auto simp: asked_def dest: notin_set_remove1)
next
  case (render k el cover)
  have "v_previews (deliver_locally i v c x n u) = v_previews u" for i v c x n u
    by (simp add: deliver_locally_def split_beta keeps_settings)
  then have "v_previews t = v_previews s"
    using render by (cases rule: render_outcome [where s = s and k = k and e = el and cover = cover])
      (simp_all add: keeps_settings)
  moreover have "length (v_heap t) = length (v_heap s)"
    using finalising_moves [OF assms(1), of k] render by (auto simp: phase_moved_def)
  ultimately show ?thesis using asked_same [OF assms(2)] by simp
next
  case (retry seed r)
  have "v_previews t = v_previews s \<and> v_heap t = v_heap s"
    using retry by (auto simp: retry_next_def split: list.split prod.split)
  with assms(2) show ?thesis by (simp add: asked_def)
next
  case (space x)
  with assms(2) show ?thesis by (simp add: asked_def)
next
  case stop
  with assms(2) show ?thesis by (simp add: asked_def)
qed (rule asked_same [OF assms(2)], (rule asks.quiet_view [OF assms(1)]; simp),
    use finalising_moves [OF assms(1)] quiet_dirs [OF assms(1)] in \<open>fastforce simp: phase_moved_def\<close>)+

interpretation asking: kept_invariant transition asked
  by unfold_locales (rule asked_transition)

lemma started_asked: "started s \<Longrightarrow> asked s"
proof -
  assume "started s"
  then obtain to_path printable ttf c w w' s0 space look_path net why
    where n: "new_service to_path printable ttf c w = (w', Some s0)"
      and r: "start_run look_path net why (s0\<lparr>v_statfs := space\<rparr>) = (s, True)"
    by (auto simp: started_def)
  have "v_previews s0 = []"
    using n by (auto simp: new_service_def Let_def split: prod.splits option.splits if_splits)
  moreover have "v_previews (fst (caption_checks sp x)) = v_previews x" for sp x
    by (simp add: caption_checks_def overlay_checks_def tail_checks_def intro_checks_def split_beta)
  then have "v_previews (fst (preflight look_path net why x)) = v_previews x" for x
    by (simp add: preflight_def printer_checks_def Let_def split_beta)
  then have "v_previews (fst (start_run look_path net why x)) = v_previews x" for x
    by (simp add: start_run_def Let_def split_beta keeps_settings)
  from this [of "s0\<lparr>v_statfs := space\<rparr>"] have "v_previews s = v_previews s0" using r by simp
  ultimately show ?thesis by (simp add: asked_def)
qed

section \<open>The frames of a job\<close>

text \<open>The files of the frames a session counts, while it lives in the store.\<close>

definition held :: "svc \<Rightarrow> nat \<Rightarrow> path \<Rightarrow> bool" where
  "held s i q \<longleftrightarrow>
     in_store (v_store s) (obj s i)
     \<and> (\<exists>n. 1 \<le> n \<and> n \<le> s_frames (obj s i) \<and> q = s_dir (obj s i) @ [frame_name n])"

interpretation kept_frames: job_frames "v_store s" "held s i" for s i
  by unfold_locales (auto simp: held_def in_store_def)

text \<open>No two recordings at work share a directory with the session: no other unfinished session has it,
  and no grab of another session writes into it.\<close>

definition alone :: "svc \<Rightarrow> nat \<Rightarrow> bool" where
  "alone s i \<longleftrightarrow>
     (\<forall>j < length (v_heap s). j \<noteq> i \<and> \<not> finished s j \<longrightarrow> s_dir (obj s j) \<noteq> s_dir (obj s i))
     \<and> (\<forall>c d. v_capture s = Some c \<and> cp_ref c \<noteq> i \<and> cp_dest c = Some d \<longrightarrow> butlast d \<noteq> s_dir (obj s i))"

lemma other_held: "d \<noteq> s_dir (obj s i) \<Longrightarrow> \<not> held s i (d @ [x])"
  by (simp add: held_def)

lemma grab_away:
  assumes "housed s" and "numbered s" and "alone s i" and "i < length (v_heap s)"
    and "v_capture s = Some c" and "cp_dest c = Some d"
  shows "kept_frames.away s i d"
proof -
  obtain dir n where d: "place (v_store s) dir" "d = dir @ [frame_name n]"
    using assms(1,5,6) by (auto simp: housed_def)
  have fd: "st_failed (v_store s) = st_root (v_store s) @ [''failed'']" using assms(1) by (simp add: housed_def)
  have "good s" using assms(1) by (simp add: housed_def sound_def)
  then have "wf_session (obj s i)" by (rule good_obj [OF _ assms(4)])
  then have f0: "0 \<le> s_frames (obj s i)" by (simp add: wf_session_def)
  have "frame_name n \<noteq> frame_name m" if h: "held s i (dir @ [frame_name m])" for m
  proof
    assume e: "frame_name n = frame_name m"
    obtain k where k: "1 \<le> k" "k \<le> s_frames (obj s i)" "dir = s_dir (obj s i)" "frame_name m = frame_name k"
      using h by (auto simp: held_def)
    have "cp_ref c = i" using assms(3,5,6) d(2) k(3) by (auto simp: alone_def)
    then obtain r where "d = r @ [frame_name (s_frames (obj s i) + 1)]"
      using assms(2,5,6) by (auto simp: numbered_def)
    with d(2) e k(4) have "frame_name (s_frames (obj s i) + 1) = frame_name k" by simp
    then show False using frame_name_inj [of "s_frames (obj s i) + 1" k] f0 k(1,2) by simp
  qed
  then show ?thesis unfolding d(2) by (rule kept_frames.away_name [OF d(1) fd])
qed

lemma finalising_spares:
  assumes "transition s e t" and "finalising e = Some k" and h: "housed s" and "c_api_url (v_cfg s) \<noteq> []"
    and "\<not> finished t i" and "alone s i"
  shows "kept_frames.spared s i s t"
proof -
  have refs: "refs_svc s" using h by (simp add: housed_def sound_def good_def)
  have home: "kept_frames.at_home s s" using h by (simp add: kept_frames.at_home_def housed_def)
  obtain p where k: "k < length (v_finals s)" and m: "phase_moved s k p t"
    and w: "phase_work p < phase_work (f_phase (v_finals s ! k))"
    using finalising_moves [OF assms(1,2)] by blast
  let ?r = "f_ref (v_finals s ! k)"
  have nf: "f_phase (v_finals s ! k) \<noteq> Finished" using w by auto
  have r: "?r < length (v_heap s)" "\<not> finished s ?r"
    using refs_final [OF refs k] finished_moved(2) [OF m k refs nf] by simp_all
  have "kept_frames.away s i (s_dir (obj s ?r)) \<and> in_store (v_store s) (obj s ?r)"
    if f: "f_phase (v_finals t ! k) = Finished"
  proof -
    have "finished t ?r" using finished_moved(1) [OF m k refs nf, of ?r] f m k by (simp add: phase_moved_def)
    then have "?r \<noteq> i" using assms(5) by blast
    then have "s_dir (obj s ?r) \<noteq> s_dir (obj s i)" using assms(6) r by (simp add: alone_def)
    moreover have pl: "place (v_store s) (s_dir (obj s ?r))" "in_store (v_store s) (obj s ?r)"
        "st_failed (v_store s) = st_root (v_store s) @ [''failed'']"
      using h r by (simp_all add: housed_def)
    ultimately show ?thesis using kept_frames.away_job [OF pl(1,3)] other_held by blast
  qed
  then show ?thesis by (rule kept_frames.spared_finalising [OF assms(1,2) home refs assms(4) refl])
qed

text \<open>C9: nothing but the end of a job touches its footage. In any run of a daemon that publishes, no step
  changes a frame of an unfinished session but the one that finishes it: no report, no grab, no
  preview, no retry of a parked upload, no step of another job's finalisation, and no step of its own
  before the last, however the calls and processes of the step end. What it takes is that the
  session does not share its directory with another recording at work, which the reopening of a task
  can bring about.\<close>

theorem footage_left_alone:
  assumes "started s0" and "run_of transition s0 es s" and "transition s e t"
    and "c_api_url (v_cfg s) \<noteq> []" and "i < length (v_heap s)" and "\<not> finished s i" and "\<not> finished t i"
    and "alone s i" and "1 \<le> n" and "n \<le> s_frames (obj s i)"
  shows "file_at (w_os (v_world t)) (s_dir (obj s i) @ [frame_name n])
    = file_at (w_os (v_world s)) (s_dir (obj s i) @ [frame_name n])"
proof -
  have h: "housed s" using homes.run_keeps [OF assms(2) started_housed [OF assms(1)]] .
  have o: "numbered s" using shots.run_keeps [OF assms(2) started_orderly [OF assms(1)]] by (simp add: orderly_def)
  have a: "asked s" using asking.run_keeps [OF assms(2) started_asked [OF assms(1)]] .
  have g: "good s" using h by (simp add: housed_def sound_def)
  then have refs: "refs_svc s" by (simp add: good_def)
  have home: "kept_frames.at_home s s" using h by (simp add: kept_frames.at_home_def housed_def)
  have "kept_frames.spared s i s t"
  proof (cases "finalising e")
    case (Some k)
    from finalising_spares [OF assms(3) Some h assms(4,7,8)] show ?thesis .
  next
    case None
    with assms(3) show ?thesis
    proof (cases rule: transition.cases)
      case (message p)
      with kept_frames.spared_message [OF home g] show ?thesis by simp
    next
      case (grab_ends c dest)
      have "cp_ref c < length (v_heap s)" using refs grab_ends(3) by (auto simp: refs_svc_def)
      from kept_frames.spared_grab [OF home this grab_away [OF h o assms(8,5) grab_ends(3,4)]] grab_ends
      show ?thesis by simp
    next
      case (preview j img)
      let ?u = "s\<lparr>v_previews := remove1 j (v_previews s)\<rparr>"
      have "kept_frames.at_home s ?u" using home by (simp add: kept_frames.at_home_def obj_def)
      moreover have "j < length (v_heap ?u)" using a preview by (simp add: asked_def)
      ultimately have "kept_frames.spared s i ?u (keep_preview j img ?u)" by (rule kept_frames.spared_preview)
      with preview show ?thesis by (simp add: kept_frames.spared_def)
    next
      case (retry seed r)
      with kept_frames.spared_retry [OF home] show ?thesis by simp
    qed (auto simp: kept_frames.spared_def count_def advance_def shoot_def intro: kept_frames.stays_tree)
  qed
  moreover have "held s i (s_dir (obj s i) @ [frame_name n])"
    using h assms(5,6,9,10) by (auto simp: held_def housed_def)
  ultimately show ?thesis by (simp add: kept_frames.spared_def kept_frames.stays_def)
qed

end
