(* ===== verification/Shutdown.thy ===== *)
theory Shutdown
  imports Settings Captures
begin

text \<open>
  The end of \<open>Run\<close>: what makes the service stop, that a stop is not held up by any clock, and that
  nothing is left to do when \<open>Run\<close> returns. \<open>Run\<close> blocks until its context is cancelled, by a signal
  (the event \<open>Stop\<close>) or by the service itself, and then waits for the finalisations.
\<close>

section \<open>What stops the service\<close>

interpretation halt: untouched v_stopping
  by unfold_locales simp_all

text \<open>The return of \<open>Run\<close>, after \<open>finalizing.Wait\<close>.\<close>

definition run_returns :: "svc \<Rightarrow> bool" where
  "run_returns s \<longleftrightarrow> v_stopping s \<and> (\<forall>f \<in> set (v_finals s). f_phase f = Finished)"

text \<open>The step delivers a recording to a service that was asked for one only.\<close>

definition delivers_the_one :: "svc \<Rightarrow> event \<Rightarrow> svc \<Rightarrow> bool" where
  "delivers_the_one s e t \<longleftrightarrow>
     (\<exists>k. e = Render k) \<and> c_once (v_cfg s) \<and> c_api_url (v_cfg s) = []
     \<and> v_metrics t = count_upload ''local'' (v_metrics s)"

lemma count_upload_tells: "count_upload a m = count_upload b m \<longleftrightarrow> a = b" "count_upload a m \<noteq> m" "m \<noteq> count_upload a m"
proof -
  have n: "m_uploads (count_upload r m) r \<noteq> m_uploads m r" for r
    by (simp add: count_upload_def split: option.split)
  moreover have "r \<noteq> q \<Longrightarrow> m_uploads (count_upload r m) q = m_uploads m q" for r q by (simp add: count_upload_def)
  ultimately show "count_upload a m = count_upload b m \<longleftrightarrow> a = b" by metis
  from n [of a] show "count_upload a m \<noteq> m" "m \<noteq> count_upload a m" by auto
qed

lemma deliver_stops:
  "v_stopping (deliver_locally i v c x n s) \<longleftrightarrow>
     v_stopping s \<or> c_once (v_cfg s) \<and> v_metrics (deliver_locally i v c x n s) = count_upload ''local'' (v_metrics s)"
  by (simp add: deliver_locally_def split_beta keeps_settings fields count_upload_tells)

lemma stopping_render:
  "v_stopping (render k e cover s) \<longleftrightarrow> v_stopping s \<or> delivers_the_one s (Render k) (render k e cover s)"
proof (cases rule: render_outcome [where s = s and k = k and e = e and cover = cover])
  case (kept f w video cap name)
  then show ?thesis
    by (simp add: delivers_the_one_def keeps_settings deliver_stops fields set_phase_metrics)
qed (simp_all add: delivers_the_one_def keeps_settings fields set_phase_metrics count_upload_tells)

lemma stopping_transition:
  assumes "transition s e t"
  shows "v_stopping t \<longleftrightarrow> v_stopping s \<or> e = Stop \<or> delivers_the_one s e t"
  using assms
proof (cases rule: transition.cases)
  case (message p)
  then show ?thesis by (simp add: halt.message delivers_the_one_def)
next
  case (retry seed r)
  then show ?thesis by (auto simp: retry_next_def delivers_the_one_def split: list.splits prod.split)
next
  case (render k elapsed cover)
  then show ?thesis by (simp add: stopping_render)
qed (use halt.transition_view [OF assms] in \<open>simp_all add: delivers_the_one_def\<close>)

lemma run_stays_stopped: "run_of transition s es t \<Longrightarrow> v_stopping s \<or> Stop \<in> set es \<Longrightarrow> v_stopping t"
  by (induction rule: run_of.induct) (auto simp: stopping_transition)

lemma run_stopped_by:
  "run_of transition s es t \<Longrightarrow> v_stopping t \<Longrightarrow> \<not> v_stopping s \<Longrightarrow> Stop \<notin> set es \<Longrightarrow>
     \<exists>es1 e es2 u v. es = es1 @ e # es2 \<and> run_of transition s es1 u \<and> transition u e v
       \<and> run_of transition v es2 t \<and> delivers_the_one u e v"
proof (induction rule: run_of.induct)
  case (run_step s e t es u)
  show ?case
  proof (cases "delivers_the_one s e t")
    case True
    with run_step(1,2) show ?thesis by (intro exI [of _ "[]"]) auto
  next
    case False
    then have "\<not> v_stopping t" using run_step.prems stopping_transition [OF run_step(1)] by auto
    with run_step obtain es1 d es2 x v where "es = es1 @ d # es2" "run_of transition t es1 x" "transition x d v"
        "run_of transition v es2 u" "delivers_the_one x d v"
      by auto
    with run_step(1) show ?thesis by (intro exI [of _ "e # es1"]) auto
  qed
qed simp

lemma preflight_stopping: "v_stopping (fst (preflight look_path net why s)) = v_stopping s"
proof -
  have "v_stopping (fst (caption_checks sp x)) = v_stopping x" for sp x
    by (simp add: caption_checks_def overlay_checks_def tail_checks_def intro_checks_def split_beta)
  then show ?thesis by (simp add: preflight_def printer_checks_def Let_def split_beta)
qed

lemma start_stopping: "v_stopping (fst (start_run look_path net why s)) = v_stopping s"
  by (simp add: start_run_def Let_def split_beta preflight_stopping keeps_settings)

lemma new_running: "new_service to_path printable ttf c w = (w', Some s) \<Longrightarrow> \<not> v_stopping s"
  by (auto simp: new_service_def Let_def split: prod.splits option.splits if_splits)

lemma started_running: "started s \<Longrightarrow> \<not> v_stopping s"
proof -
  assume "started s"
  then obtain to_path printable ttf c w w' s0 space look_path net why
    where n: "new_service to_path printable ttf c w = (w', Some s0)"
      and r: "start_run look_path net why (s0\<lparr>v_statfs := space\<rparr>) = (s, True)"
    by (auto simp: started_def)
  from start_stopping [of look_path net why "s0\<lparr>v_statfs := space\<rparr>"] r new_running [OF n]
  show ?thesis by simp
qed

text \<open>C10: the service stops for a signal or because the one recording it was asked for has been delivered, and
  for nothing else. A print that is too short, cannot be encoded or cannot be written, or one whose
  recording is posted, never ends the run of a one-shot service; the delivery of a session left by an
  earlier run does.\<close>

theorem stop_has_a_cause:
  assumes "started s" and "run_of transition s es t"
  shows "v_stopping t \<longleftrightarrow>
    Stop \<in> set es
    \<or> (\<exists>es1 k es2 u v. es = es1 @ Render k # es2 \<and> run_of transition s es1 u \<and> transition u (Render k) v
        \<and> run_of transition v es2 t \<and> c_once (v_cfg s) \<and> c_api_url (v_cfg s) = []
        \<and> v_metrics v = count_upload ''local'' (v_metrics u))"
    (is "_ \<longleftrightarrow> _ \<or> ?one")
proof
  assume "v_stopping t"
  show "Stop \<in> set es \<or> ?one"
  proof (cases "Stop \<in> set es")
    case False
    then obtain es1 e es2 u v where o: "es = es1 @ e # es2" "run_of transition s es1 u" "transition u e v"
        "run_of transition v es2 t" "delivers_the_one u e v"
      using run_stopped_by [OF assms(2) \<open>v_stopping t\<close>] started_running [OF assms(1)] by blast
    have "v_cfg u = v_cfg s" using run_config [OF o(2)] by simp
    with o show ?thesis by (auto simp: delivers_the_one_def)
  qed simp
next
  assume "Stop \<in> set es \<or> ?one"
  then show "v_stopping t"
  proof
    assume "?one"
    then obtain es1 k es2 u v where o: "run_of transition s es1 u" "transition u (Render k) v"
        "run_of transition v es2 t" "c_once (v_cfg s)" "c_api_url (v_cfg s) = []"
        "v_metrics v = count_upload ''local'' (v_metrics u)"
      by blast
    have "v_cfg u = v_cfg s" using run_config [OF o(1)] by simp
    then have "v_stopping v" using o stopping_transition [OF o(2)] by (simp add: delivers_the_one_def)
    then show ?thesis using run_stays_stopped [OF o(3)] by simp
  qed (use run_stays_stopped [OF assms(2)] in simp)
qed

section \<open>How a stop ends\<close>

lemma run_append: "run_of step s es t \<Longrightarrow> run_of step t fs u \<Longrightarrow> run_of step s (es @ fs) u"
  by (induction rule: run_of.induct) (auto intro: run_of.intros)

lemma quiet_finals: "transition s e t \<Longrightarrow> finalising e = None \<Longrightarrow> \<not> reporting e \<Longrightarrow> v_finals t = v_finals s"
  by (cases rule: transition.cases) (auto simp: fields)

text \<open>A stopping service can always take the next step of a finalisation at once.\<close>

lemma stopping_step:
  assumes "v_stopping s" and "v_capture s = None" and "k < length (v_finals s)"
    and "f_phase (v_finals s ! k) \<noteq> Finished"
  shows "\<exists>e t. finalising e = Some k \<and> transition s e t"
proof (cases "f_phase (v_finals s ! k)")
  case (Draining l)
  then show ?thesis using assms by (intro exI [of _ "Drained k"]) (auto simp: transition_simps)
next
  case (Covering e l due)
  then show ?thesis using assms by (intro exI [of _ "CoverDue k"]) (auto simp: transition_simps)
next
  case (Rendering e c)
  then show ?thesis using assms by (intro exI [of _ "Render k"]) (auto simp: transition_simps)
next
  case (Posting rq n)
  then show ?thesis using assms by (intro exI [of _ "Attempt k None r"]) (auto simp: transition_simps)
next
  case (Waiting rq n due)
  then show ?thesis using assms by (intro exI [of _ "WaitOver k"]) (auto simp: transition_simps)
qed (use assms in simp)

lemma drains_at_once:
  "v_stopping s \<Longrightarrow> v_capture s = None \<Longrightarrow>
     \<exists>es t. run_of transition s es t \<and> run_returns t \<and> (\<forall>e \<in> set es. finalising e \<noteq> None)
       \<and> length es \<le> work s"
proof (induction "work s" arbitrary: s rule: less_induct)
  case less
  show ?case
  proof (cases "\<forall>f \<in> set (v_finals s). f_phase f = Finished")
    case True
    then show ?thesis using less.prems by (intro exI [of _ "[]"] exI [of _ s]) (simp add: run_returns_def)
  next
    case False
    then obtain k where "k < length (v_finals s)" "f_phase (v_finals s ! k) \<noteq> Finished" by (auto simp: in_set_conv_nth)
    then obtain e t where t: "finalising e = Some k" "transition s e t" using stopping_step less.prems by blast
    then have w: "work t < work s" using work_finalising by auto
    have "v_stopping t" "v_capture t = None"
      using less.prems stopping_transition [OF t(2)] frames_finalising [OF t(2)] t(1) by simp_all
    from less.hyps [OF w this] obtain es u where "run_of transition t es u" "run_returns u"
        "\<forall>e \<in> set es. finalising e \<noteq> None" "length es \<le> work t"
      by blast
    with t w show ?thesis by (intro exI [of _ "e # es"] exI [of _ u]) auto
  qed
qed

text \<open>C6: a stop is not held up. Once the service is stopping, the grab in flight and the finalisations can go
  to their ends by their own steps alone, without any time having to pass for the cool-down before
  the last frame or between two attempts of an upload, in at most nine steps for each finalisation
  and two for the grab; and then \<open>Run\<close> returns.\<close>

theorem stop_is_not_held_up:
  assumes "v_stopping s"
  shows "\<exists>es t. run_of transition s es t \<and> run_returns t
    \<and> (\<forall>e \<in> set es. finalising e \<noteq> None \<or> e = Shoot \<or> e = GrabEnds) \<and> length es \<le> 9 * length (v_finals s) + 2"
proof -
  have shot: "\<exists>u. transition x GrabEnds u \<and> v_capture u = None" if "v_capture x = Some c" "cp_dest c = Some d" for x c d
    using transition.grab_ends [OF that]
    by (intro exI [of _ "finish_grab c d x"]) (auto simp: finish_grab_def Let_def split_beta fields)
  have "\<exists>es u. run_of transition s es u \<and> v_capture u = None \<and> set es \<subseteq> {Shoot, GrabEnds} \<and> length es \<le> 2"
  proof (cases "v_capture s")
    case None
    then show ?thesis by (intro exI [of _ "[]"] exI [of _ s]) simp
  next
    case (Some c)
    show ?thesis
    proof (cases "cp_dest c")
      case None
      have "transition s Shoot (shoot c s)" using Some None by (rule transition.shoot)
      moreover obtain u where "transition (shoot c s) GrabEnds u" "v_capture u = None"
        using shot [of "shoot c s" "c\<lparr>cp_dest := Some (frame_path (obj s (cp_ref c)))\<rparr>"] by (auto simp: shoot_def)
      ultimately show ?thesis by (intro exI [of _ "[Shoot, GrabEnds]"] exI [of _ u]) auto
    next
      case d: (Some d)
      from shot [OF Some d] obtain u where "transition s GrabEnds u" "v_capture u = None" by blast
      then show ?thesis by (intro exI [of _ "[GrabEnds]"] exI [of _ u]) auto
    qed
  qed
  then obtain es u where u: "run_of transition s es u" "v_capture u = None" "set es \<subseteq> {Shoot, GrabEnds}" "length es \<le> 2"
    by blast
  have q: "\<forall>e \<in> set es. \<not> reporting e" using u(3) by auto
  have "v_stopping u" using run_stays_stopped [OF u(1)] assms by simp
  from drains_at_once [OF this u(2)] obtain fs t where t: "run_of transition u fs t" "run_returns t"
      "\<forall>e \<in> set fs. finalising e \<noteq> None" "length fs \<le> work u"
    by blast
  have "work u \<le> 9 * length (v_finals s)" using run_work [OF u(1) q] work_bound [of s] by simp
  moreover have "run_of transition s (es @ fs) t" using run_append [OF u(1) t(1)] .
  ultimately show ?thesis using u t by (intro exI [of _ "es @ fs"] exI [of _ t]) auto
qed

text \<open>When \<open>Run\<close> has returned, nothing finalises any more, whatever still happens apart from reports.\<close>

lemma returned_for_good:
  "run_of transition s es t \<Longrightarrow> run_returns s \<Longrightarrow> \<forall>e \<in> set es. \<not> reporting e \<Longrightarrow>
     run_returns t \<and> (\<forall>e \<in> set es. finalising e = None)"
proof (induction rule: run_of.induct)
  case (run_step s e t es u)
  have "finalising e = None"
  proof (rule ccontr)
    assume "finalising e \<noteq> None"
    then obtain k where "finalising e = Some k" by blast
    from finalising_moves [OF run_step(1) this] obtain p where "k < length (v_finals s)"
        "phase_work p < phase_work (f_phase (v_finals s ! k))"
      by blast
    with run_step.prems(1) show False by (simp add: run_returns_def)
  qed
  moreover have "v_finals t = v_finals s" using run_step quiet_finals [OF run_step(1) calculation] by simp
  then have "run_returns t" using run_step.prems(1) stopping_transition [OF run_step(1)] by (simp add: run_returns_def)
  ultimately show ?case using run_step by simp
qed simp

end
