(* ===== verification/Sample_Uploads.thy ===== *)
theory Sample_Uploads
  imports Neighbours Shutdown Sample_Run
begin

text \<open>
  A run that reaches an upload: a daemon that finds the session of an earlier print, hands it over at
  its first report, drains, renders and posts. The properties of \<open>Footage\<close> are applied to it.
\<close>

section \<open>A job that is left over\<close>

text \<open>
  A restart finds the directory of a print that has ended meanwhile. The first report hands it over,
  and its finalisation goes as far as the upload.
\<close>

definition left_session :: session where
  "left_session = sample_session\<lparr>s_frames := 2, s_layers := [1, 2], s_dir := []\<rparr>"

definition left_world :: "session world" where
  "left_world = boot_world\<lparr>w_os := (w_os boot_world)\<lparr>tree :=
     [([], Dir 0), ([''staging''], Dir 0), ([''staging'', ''job-42''], Dir 0),
      ([''staging'', ''job-42'', ''frame-00001.jpg''], File (Bytes ''jpg'') 1),
      ([''staging'', ''job-42'', ''state.json''], File (Doc left_session) 1)]\<rparr>\<rparr>"

definition left_config :: config where "left_config = sample_config\<lparr>c_overlay := False\<rparr>"

definition left_boot :: "session world \<times> svc option" where
  "left_boot = new_service (\<lambda>p. [''staging'']) (\<lambda>r. True) ''ttf'' left_config left_world"

definition left_booted :: svc where
  "left_booted = fst (start_run (\<lambda>b. b) quiet_net ''e'' ((the (snd left_boot))\<lparr>v_statfs := None\<rparr>))"

definition idle_report :: bytes where
  \<open>idle_report = ''{"print":{"gcode_state":"IDLE"}}''\<close>

definition left_handed :: svc where "left_handed = on_message idle_report left_booted"
definition left_drained :: svc where "left_drained = end_drain 0 left_handed"

definition left_covered :: svc where
  "left_covered =
     (case f_phase (v_finals left_drained ! 0) of
        Covering e l d \<Rightarrow> take_cover 0 e l left_drained | _ \<Rightarrow> left_drained)"

definition left_rendered :: svc where
  "left_rendered =
     (case f_phase (v_finals left_covered ! 0) of
        Rendering e c \<Rightarrow> render 0 e c left_covered | _ \<Rightarrow> left_covered)"

lemma left_started: "started left_booted"
proof -
  have "case snd left_boot of None \<Rightarrow> False | Some s \<Rightarrow> True" by code_simp
  moreover have "snd (start_run (\<lambda>b. b) quiet_net ''e'' ((the (snd left_boot))\<lparr>v_statfs := None\<rparr>)) = True" by code_simp
  ultimately have "boots left_world left_booted" unfolding left_booted_def left_boot_def by (rule boots_evaluated)
  then show ?thesis by (rule boots_started) code_simp
qed

text \<open>An encode that works, for a service that posts.\<close>

lemma preview_path_tree: "tree (fst (preview_path os x)) = tree os"
  by (simp add: preview_path_def Let_def split: prod.split)
   (metis fst_conv os_stat_tree)

lemma render_posts:
  assumes "k < length (v_finals s)" and "x = obj s (f_ref (v_finals s ! k))"
    and "c_min_frames (v_cfg s) \<le> s_frames x" and "c_api_url (v_cfg s) \<noteq> []"
    and "encode_job (v_world s) (svc_tools s) (v_cfg s) (v_font s) x
           (s_dir x @ [filename (c_printer (v_cfg s)) x]) cover = (w, True)"
    and "t = render k e cover s"
  shows "(\<exists>rq. f_phase (v_finals t ! k) = Posting rq 1) \<and> length (v_finals t) = length (v_finals s)
    \<and> f_ref (v_finals t ! k) = f_ref (v_finals s ! k) \<and> v_heap t = v_heap s
    \<and> (q \<noteq> s_dir x @ [''caption.txt''] \<longrightarrow> file_at (w_os (v_world t)) q = file_at (w_os w) q)"
proof -
  let ?cap = "caption (c_printer (v_cfg s)) x (f_end (v_finals s ! k) = state_finish) e"
  let ?f = "\<lambda>os. os_write os (s_dir x @ [''caption.txt'']) (Bytes ?cap)"
  let ?s2 = "fst (on_disk ?f (s\<lparr>v_world := w\<rparr>))"
  obtain s3 rq where rq: "job_request (f_ref (v_finals s ! k)) (s_dir x @ [filename (c_printer (v_cfg s)) x]) cover ?cap
      (filename (c_printer (v_cfg s)) x) ?s2 = (s3, rq)"
    by fastforce
  have t: "t = set_phase k (Posting rq 1) s3"
    using assms rq by (simp add: render_def Let_def)
  have "tree (w_os (v_world s3)) = tree (w_os (v_world ?s2))"
    using rq by (auto simp: job_request_def on_disk_def on_os_def split_beta preview_path_tree)
  then have "file_at (w_os (v_world s3)) q = file_at (w_os (v_world ?s2)) q" by (rule views_tree(1))
  moreover have "w_os (v_world ?s2) = fst (?f (w_os w))" by (simp add: on_disk_def on_os_def split_beta)
  moreover have "v_finals s3 = v_finals s" "v_heap s3 = v_heap s"
    using rq by (auto simp: job_request_def on_disk_def split_beta)
  ultimately show ?thesis using assms(1) os_write_other [of q "s_dir x @ [''caption.txt'']" "w_os w"]
    by (simp add: t phase_of_set_phase set_phase_def)
qed


definition left_file :: path where "left_file = [''staging'', ''job-42'', ''state.json'']"

lemma left_posts:
  "run_of transition left_booted [Message idle_report, Drained 0, CoverDue 0, Render 0] left_rendered
   \<and> (\<exists>rq. f_phase (v_finals left_rendered ! 0) = Posting rq 1) \<and> length (v_finals left_rendered) = 1
   \<and> obj left_rendered (f_ref (v_finals left_rendered ! 0)) = obj left_covered 0
   \<and> file_at (w_os (v_world left_rendered)) left_file \<noteq> None"
proof -
  let ?x = "obj left_covered 0"
  let ?e = "encode_job (v_world left_covered) (svc_tools left_covered) (v_cfg left_covered) (v_font left_covered) ?x
      (s_dir ?x @ [filename (c_printer (v_cfg left_covered)) ?x]) None"
  have m: "transition left_booted (Message idle_report) left_handed"
    by (simp add: left_handed_def transition.message)
  have "length (v_finals left_handed) = 1 \<and> v_capture left_handed = None
      \<and> (case f_phase (v_finals left_handed ! 0) of Draining l \<Rightarrow> True | _ \<Rightarrow> False)"
    by code_simp
  then have d: "transition left_handed (Drained 0) left_drained"
    by (auto simp: left_drained_def transition_simps split: phase.splits)
  have "length (v_finals left_drained) = 1
      \<and> (case f_phase (v_finals left_drained ! 0) of Covering e l due \<Rightarrow> due \<le> now left_drained | _ \<Rightarrow> False)"
    by code_simp
  then have c: "transition left_drained (CoverDue 0) left_covered"
    by (auto simp: left_covered_def transition_simps split: phase.splits)
  have l: "length (v_finals left_covered) = 1 \<and> f_ref (v_finals left_covered ! 0) = 0
      \<and> (case f_phase (v_finals left_covered ! 0) of Rendering e c \<Rightarrow> c = None | _ \<Rightarrow> False)"
    by code_simp
  then obtain e where r: "f_phase (v_finals left_covered ! 0) = Rendering e None"
      "left_rendered = render 0 e None left_covered"
    by (auto simp: left_rendered_def split: phase.splits)
  with l have t: "transition left_covered (Render 0) left_rendered" by (simp add: transition_simps)
  have "case ?e of (w, ok) \<Rightarrow> ok \<and> file_at (w_os w) left_file \<noteq> None" by code_simp
  then have o: "snd ?e = True" and f: "file_at (w_os (fst ?e)) left_file \<noteq> None" by (simp_all add: split_beta)
  from result_pair [OF o] have w: "?e = (fst ?e, True)" .
  have "c_min_frames (v_cfg left_covered) \<le> s_frames ?x" "c_api_url (v_cfg left_covered) \<noteq> []"
      "left_file \<noteq> s_dir ?x @ [''caption.txt'']"
    by code_simp+
  with render_posts [OF _ _ _ _ w r(2), of left_file] l f m d c t show ?thesis
    by (auto simp: obj_def)
qed


text \<open>The same directory, with an upload parked before that is refused once more.\<close>

theorem retry_keeps_footage_witness:
  "\<exists>t. transition (left_booted\<lparr>v_parked := [(''upload-failed-job-1'', True)]\<rparr>) (RetryNext None (Reply 500 [])) t
     \<and> file_at (w_os (v_world t)) left_file \<noteq> None"
proof -
  let ?s = "left_booted\<lparr>v_parked := [(''upload-failed-job-1'', True)]\<rparr>"
  obtain t where t: "transition ?s (RetryNext None (Reply 500 [])) t"
    using transition.retry [of ?s None "Reply 500 []"] by auto
  have "file_at (w_os (v_world ?s)) left_file \<noteq> None" by code_simp
  then obtain c where c: "file_at (w_os (v_world ?s)) left_file = Some c" by blast
  have "\<not> prefix (st_failed (v_store ?s) @ [''upload-failed-job-1'']) left_file" by code_simp
  with retry_keeps_footage [OF t c] t show ?thesis by auto
qed

text \<open>Its first frame, through the step that ends the wait for a grab.\<close>

theorem footage_left_alone_witness:
  "file_at (w_os (v_world left_drained)) [''staging'', ''job-42'', ''frame-00001.jpg'']
    = file_at (w_os (v_world left_handed)) [''staging'', ''job-42'', ''frame-00001.jpg'']
   \<and> file_at (w_os (v_world left_handed)) [''staging'', ''job-42'', ''frame-00001.jpg''] \<noteq> None"
proof -
  have m: "run_of transition left_booted [Message idle_report] left_handed"
    by (simp add: left_handed_def transition.message)
  have f: "let s = left_handed; x = obj s 0 in
      length (v_heap s) = 1 \<and> v_capture s = None \<and> c_api_url (v_cfg s) \<noteq> [] \<and> s_frames x = 2
      \<and> s_dir x @ [frame_name 1] = [''staging'', ''job-42'', ''frame-00001.jpg'']
      \<and> file_at (w_os (v_world s)) [''staging'', ''job-42'', ''frame-00001.jpg''] \<noteq> None
      \<and> length (v_finals s) = 1
      \<and> (case f_phase (v_finals s ! 0) of Draining l \<Rightarrow> True | _ \<Rightarrow> False)
      \<and> (case f_phase (v_finals (end_drain 0 s) ! 0) of Finished \<Rightarrow> False | _ \<Rightarrow> True)"
    by code_simp
  then have d: "transition left_handed (Drained 0) left_drained"
    by (auto simp: left_drained_def transition_simps Let_def split: phase.splits)
  have n: "\<not> finished left_handed 0" "\<not> finished left_drained 0"
    using f by (auto simp: finished_nth left_drained_def end_drain_def set_phase_def Let_def split: phase.splits)
  have a: "alone left_handed 0" using f by (simp add: alone_def Let_def)
  have "c_api_url (v_cfg left_handed) \<noteq> []" "0 < length (v_heap left_handed)" "(1::int) \<le> 1" "1 \<le> s_frames (obj left_handed 0)"
    using f by (simp_all add: Let_def)
  from footage_left_alone [OF left_started m d this(1,2) n a this(3,4)] f show ?thesis by (simp add: Let_def)
qed

section \<open>A stop\<close>

theorem stop_has_a_cause_witness:
  "\<exists>t. run_of transition booted [Message printing, Stop] t \<and> v_stopping t"
proof -
  have "run_of transition booted [Message printing, Stop] (told\<lparr>v_stopping := True\<rparr>)"
    using run_told transition.stop [of told] by simp blast
  from stop_has_a_cause [OF booted_started this] this show ?thesis by auto
qed

text \<open>The print has ended, and the service stops while its last grab is still in flight.\<close>

theorem stop_is_not_held_up_witness:
  "\<exists>es t. run_of transition (ending\<lparr>v_stopping := True, v_capture := v_capture told\<rparr>) es t \<and> run_returns t"
proof -
  have "v_stopping (ending\<lparr>v_stopping := True, v_capture := v_capture told\<rparr>)" by simp
  from stop_is_not_held_up [OF this] show ?thesis by blast
qed

section \<open>A second life\<close>

text \<open>The daemon is cut off when it has opened its first session, and is started again on that disk.\<close>

definition second_world :: "session world" where
  "second_world = boot_world\<lparr>w_os := (w_os boot_world)\<lparr>tree := tree (w_os (v_world told))\<rparr>\<rparr>"

definition second_boot :: "session world \<times> svc option" where
  "second_boot = new_service (\<lambda>p. [''staging'']) (\<lambda>r. True) ''ttf'' sample_config second_world"

definition second :: "svc \<times> bool" where
  "second = start_run (\<lambda>b. b) quiet_net ''e'' ((the (snd second_boot))\<lparr>v_statfs := None\<rparr>)"

lemma second_boots: "boots second_world (fst second)"
proof -
  have "case snd second_boot of None \<Rightarrow> False | Some s \<Rightarrow> True" by code_simp
  moreover have "snd (start_run (\<lambda>b. b) quiet_net ''e'' ((the (snd second_boot))\<lparr>v_statfs := None\<rparr>)) = True" by code_simp
  ultimately show ?thesis unfolding second_def second_boot_def by (rule boots_evaluated)
qed

theorem consistent_across_lives_witness:
  "\<exists>x. snd (load (w_os (v_world (fst second))) [''staging'', ''job-42'']) = Some x \<and> s_task x = ''42''
     \<and> s_frames x = int (length (s_layers x))"
proof -
  have "docs_ok (\<lambda>x. False) (w_os boot_world)" by code_simp
  then have "lived boot_world" by (rule lived.never)
  then have l: "lived second_world"
    by (rule lived.cut_off [OF _ booted_boots run_told]) (simp add: second_world_def)
  have "(case snd (load (w_os (v_world (fst second))) [''staging'', ''job-42'']) of
      None \<Rightarrow> False | Some x \<Rightarrow> s_task x = ''42'')"
    by code_simp
  then obtain x where x: "snd (load (w_os (v_world (fst second))) [''staging'', ''job-42'']) = Some x" "s_task x = ''42''"
    by (auto split: option.splits)
  with consistent_across_lives [OF l second_boots run_of.run_stop disjI2 [OF x(1)]] show ?thesis by blast
qed

end
