(* ===== verification/Spec2Isabelle.thy ===== *)
theory Spec2Isabelle
  imports Sample_Commands Sample_Uploads
begin

text \<open>
  A verification of bambu-timelapse, the daemon that watches a 3D printer over MQTT, takes one camera
  frame per layer, and turns the frames of a print into a video that is uploaded or kept.

  \<^bold>\<open>The program.\<close> \<open>internal/service\<close> is the daemon. Each telemetry report is merged into a view of the
  printer (\<open>internal/telemetry\<close>); the view decides whether a session of the session store
  (\<open>internal/session\<close>) is opened, whether a frame is taken (\<open>internal/camera\<close>), and whether the session
  is handed to a finalisation, which takes a last frame, encodes the video (\<open>camera/encode.go\<close>) and
  posts it (\<open>internal/uploader\<close>) or keeps it. Meanwhile the slicer's render of the plate is fetched
  from the printer (\<open>internal/preview\<close>, over \<open>internal/ftps\<close>). \<open>internal/config\<close> reads the environment,
  \<open>service/preflight.go\<close> and \<open>internal/probe\<close> check the host and the printer before anything starts.
  \<open>cmd/bambu-timelapse\<close> is the command line: the daemon, a local recording on layers or on a clock, and
  the dump of \<open>internal/debug\<close>, which shows what a printer reports and stores.
  The goroutines share the sessions, the disk and the metrics.

  \<^bold>\<open>The theories, and what they model.\<close>
    \<^item> \<open>Prelude\<close>, \<open>Go_Strings\<close>, \<open>Rune_Filter\<close>, \<open>Go_Float\<close>, \<open>Go_Text\<close>, \<open>Json\<close>, \<open>Json_Text\<close>: what the
      source uses of Go and its library. Strings are lists of bytes (\<open>char\<close>) decoded as UTF-8 where Go decodes them; \<open>int\<close> is an
      integer whose wrap-around \<open>wrap64\<close> is written out where a product can leave 64 bits; a float64 is
      a rational or one of the special values, rounded to nearest even (\<open>round64\<close>); \<open>json_parse\<close> is the
      JSON grammar of \<open>encoding/json\<close>, and \<open>Json_Text\<close> its writer, which the parser reads back. \<open>Rune_Filter\<close> is the locale of \<open>strings.Map\<close> filters,
      interpreted by the three that the program has.
    \<^item> \<open>Filesystem\<close>: a tree of files and directories with a clock. Each call consumes one entry of a
      sequence of outcomes, so a theorem about all sequences covers every way calls can fail or be cut
      short. \<open>Documents\<close> carries a property of the saved sessions through any call (locale
      \<open>document_property\<close>).
    \<^item> \<open>Telemetry\<close>: \<open>telemetry/report.go\<close>. The view is a map from keys to JSON values (\<open>tstate\<close>);
      \<open>merge\<close> is \<open>Merge\<close>. The locale \<open>delta_view\<close> states what a view built from deltas keeps.
    \<^item> \<open>Session\<close>: \<open>session/session.go\<close>, the record \<open>session\<close> and the operations of the store.
    \<^item> \<open>Camera\<close>, \<open>Encode\<close>: \<open>camera/\<close>. A world runs processes; what a process prints, how it ends and
      what it leaves on disk is arbitrary.
    \<^item> \<open>Uploader\<close>: \<open>uploader/uploader.go\<close>, the multipart message byte for byte and the verdict.
    \<^item> \<open>Config\<close>: \<open>config/config.go\<close>, from an environment to the record and the list of problems.
    \<^item> \<open>Helpers\<close>, \<open>Metrics\<close>, \<open>Job_End\<close>: \<open>service/helpers.go\<close>, \<open>metrics.go\<close>, the health answer of
      \<open>http.go\<close>, and the pure parts of the end of a job in \<open>service.go\<close>.
    \<^item> \<open>Service\<close>: \<open>service/service.go\<close>. The record \<open>svc\<close> is the daemon: the sessions are a heap of
      objects (\<open>v_heap\<close>) that the open session, the grab in flight and the finalisations refer to by
      index, because the Go code shares pointers to them. A handler is a function on \<open>svc\<close>; the
      goroutines are the events of the inductive relation \<open>transition\<close>, which interleaves them.
    \<^item> \<open>Startup\<close>: \<open>New\<close>, \<open>preflight.go\<close>, the start of \<open>Run\<close>, and \<open>RunTimed\<close>. \<open>Probe\<close>: \<open>probe.go\<close>.
    \<^item> \<open>Ftps\<close>, \<open>Preview\<close>: \<open>ftps.go\<close> over any server, given by the lines it sends; \<open>preview.go\<close>.
    \<^item> \<open>Debug\<close>: \<open>debug/debug.go\<close>, the sections of the dump, and the snapshot loop that waits for reports;
      its destination takes as much of each write as it likes.
    \<^item> \<open>Command_Line\<close>: \<open>main.go\<close> and what it uses of the package \<open>flag\<close>, up to the service that runs, the
      dump that is written, or the exit code.
    \<^item> \<open>Endpoints\<close>: the MQTT sessions as \<open>service.go\<close>, \<open>probe.go\<close> and \<open>debug.go\<close> configure them, what a
      connection that comes or goes does, and the answers of the listener of \<open>http.go\<close>.
    \<^item> \<open>Service_Invariants\<close>, \<open>Lifecycle\<close>, \<open>Daemon\<close>, \<open>Captures\<close>, \<open>Footage\<close>: what holds of every run.
      \<open>Objects\<close> has the locale \<open>object_view\<close>, what a report does to one aspect of every session,
      interpreted by the frame counts and by the directories. \<open>Settings\<close> has the locale \<open>untouched\<close> for what the steps
      leave alone, interpreted by the settings and by the flag that stops the service; \<open>Shutdown\<close> is
      what stops it and how \<open>Run\<close> returns; \<open>Restarts\<close> is one life of the daemon after another on the
      same disk, so that the consistency of what a start finds there is proved, not assumed.
    \<^item> \<open>Neighbours\<close>: that jobs do not get in each other's way; the locale \<open>job_frames\<close> follows the files of
      the frames of one session through every operation of the program.
    \<^item> \<open>Recording\<close>: the subcommand \<open>record\<close>, held against the runs of the service it starts.
    \<^item> \<open>Sample_Run\<close>, \<open>Sample_Uploads\<close>, \<open>Sample_Commands\<close>: concrete daemons, runs and invocations on which
      the properties are applied.

  \<^bold>\<open>What the lemmas show.\<close> The locale \<open>kept_invariant\<close> carries an invariant along a run; it is interpreted
  by \<open>good\<close> (sessions well formed, on disk as well as in memory, and references valid), by \<open>sound\<close>
  (the bookkeeping of the sessions' lives), by \<open>orderly\<close> (the numbering of frames), by \<open>housed\<close> (where
  the directories of the sessions are) and by \<open>local_only\<close> (nothing is ever posted). \<open>Lifecycle\<close>
  has an abstract machine of the life of a session and the simulation of every step by it; the
  finalisations have a measure (\<open>work\<close>) for termination and a bound on posts (\<open>posts_left\<close>). The
  component theories show the behaviour of each operation on every branch, errors included.

  \<^bold>\<open>Bounds.\<close> No definition takes fuel: loops over lists are structural, and the loop of the uploads is
  the phases \<open>Posting\<close> and \<open>Waiting\<close> of a finalisation. A finalisation makes at most nine steps:
  the drain, the cover, the encode, and three attempts with their waits. The JSON parser's depth is
  Go's limit of 10000.

  \<^bold>\<open>Arguments.\<close> What the source only calls is an argument: how a process ends and what it writes, the
  outcome of system calls, what the network answers, the reading of zip archives (\<open>unzip\<close>), the
  tables of printable and lower-case runes past ASCII, random bytes, the texts of system errors.

  \<^bold>\<open>Not modelled.\<close> Logging; the MQTT client, the HTTP client and server and the Prometheus registry,
  which are configured and called here but live in their libraries (a connection that comes or goes
  and a report that arrives are events); TLS; file modes; the text of the Prometheus exposition; how
  a signal cancels the context, and the listener's shutdown. Two
  effects of real concurrency are left out: a step of \<open>transition\<close> is atomic, so a data race inside
  one (two goroutines in the same session object) is not represented, and a grab writes its file when
  it ends.
\<close>

end
